(* ===== verification/Prelude.thy ===== *)
theory Prelude
  imports Main "HOL-Library.Word" "HOL-Library.AList" "HOL-Library.Sublist"
begin

text \<open>
  What the components share: the outcome of a fallible Rust operation, the string operations of
  the Rust standard library the sources use, hash maps as association lists with distinct keys,
  and the collections of rewrite rules the component proofs extend.

  A Rust \<open>String\<close> or \<open>&str\<close> is its UTF-8 byte sequence; \<open>Vec<u8>\<close> and \<open>Bytes\<close> are byte
  sequences too. Both are \<open>string\<close>, a list of 8-bit characters. Where the sources walk a string
  by \<open>char\<close> and only compare with ASCII characters, walking the bytes does the same, because no
  byte of a multi-byte character is ASCII; where they use byte offsets (\<open>char_indices\<close>, slicing)
  the character boundaries are modelled.
\<close>

named_theorems outcome_simps \<open>unfolding of the outcome monad\<close>
named_theorems str_simps \<open>Rust string operations\<close>

section \<open>Outcomes\<close>

text \<open>
  A call of the sources returns, returns an error (\<open>Result::Err\<close>), or panics. The three are kept
  apart: a panic unwinds the thread or task, an error is handled by the caller.
\<close>

datatype ('e, 'a) outcome = Ok 'a | Err 'e | Panic string

fun obind :: "('e, 'a) outcome \<Rightarrow> ('a \<Rightarrow> ('e, 'b) outcome) \<Rightarrow> ('e, 'b) outcome" where
  "obind (Ok x) f = f x"
| "obind (Err e) f = Err e"
| "obind (Panic m) f = Panic m"

fun of_option :: "'e \<Rightarrow> 'a option \<Rightarrow> ('e, 'a) outcome" where
  "of_option e None = Err e"
| "of_option e (Some x) = Ok x"

text \<open>\<open>unwrap\<close> and \<open>expect\<close> on an option.\<close>

fun unwrap :: "string \<Rightarrow> 'a option \<Rightarrow> ('e, 'a) outcome" where
  "unwrap m None = Panic m"
| "unwrap m (Some x) = Ok x"

fun is_panic :: "('e, 'a) outcome \<Rightarrow> bool" where
  "is_panic (Panic m) = True"
| "is_panic (Ok x) = False"
| "is_panic (Err e) = False"

lemma obind_Ok_iff [outcome_simps]: "obind m f = Ok y \<longleftrightarrow> (\<exists>x. m = Ok x \<and> f x = Ok y)"
  by (cases m) auto

lemma obind_Err_iff [outcome_simps]:
  "obind m f = Err e \<longleftrightarrow> m = Err e \<or> (\<exists>x. m = Ok x \<and> f x = Err e)"
  by (cases m) auto

lemma obind_Panic_iff [outcome_simps]:
  "obind m f = Panic e \<longleftrightarrow> m = Panic e \<or> (\<exists>x. m = Ok x \<and> f x = Panic e)"
  by (cases m) auto

lemma of_option_Ok_iff [outcome_simps]: "of_option e m = Ok x \<longleftrightarrow> m = Some x"
  by (cases m) auto

lemma of_option_Err_iff [outcome_simps]: "of_option e m = Err e' \<longleftrightarrow> m = None \<and> e' = e"
  by (cases m) auto

lemma of_option_not_Panic [simp]: "of_option e m \<noteq> Panic p"
  by (cases m) auto

lemma unwrap_Ok_iff [outcome_simps]: "unwrap p m = Ok x \<longleftrightarrow> m = Some x"
  by (cases m) auto

lemma unwrap_not_Err [simp]: "unwrap p m \<noteq> Err e"
  by (cases m) auto

lemma is_panic_iff: "is_panic m \<longleftrightarrow> (\<exists>p. m = Panic p)"
  by (cases m) auto

lemma is_panic_obind [simp]:
  "is_panic (obind m f) \<longleftrightarrow> is_panic m \<or> (\<exists>x. m = Ok x \<and> is_panic (f x))"
  by (cases m) auto

section \<open>Strings\<close>

type_synonym bytes = string

definition byte_of :: "char \<Rightarrow> nat" where
  "byte_of c = of_char c"

text \<open>A UTF-8 continuation byte, \<open>0b10xxxxxx\<close>.\<close>

definition is_cont :: "char \<Rightarrow> bool" where
  "is_cont c \<longleftrightarrow> 128 \<le> byte_of c \<and> byte_of c < 192"

text \<open>\<open>str::is_char_boundary\<close>.\<close>

definition char_boundary :: "string \<Rightarrow> nat \<Rightarrow> bool" where
  "char_boundary s i \<longleftrightarrow> i = 0 \<or> i = length s \<or> (i < length s \<and> \<not> is_cont (s ! i))"

text \<open>The offsets of \<open>str::char_indices\<close>.\<close>

definition char_indices :: "string \<Rightarrow> nat list" where
  "char_indices s = filter (char_boundary s) [0..<length s]"

text \<open>
  The lengths of the characters of a \<open>str\<close>: every lead byte is followed by its continuation
  bytes. (A \<open>str\<close> satisfies more; this much is what the proofs need.)
\<close>

fun utf8_ok :: "string \<Rightarrow> bool" where
  "utf8_ok [] = True"
| "utf8_ok (c # cs) =
     (if byte_of c < 128 then utf8_ok cs
      else if byte_of c < 192 then False
      else if byte_of c < 224 then
        (case cs of d # ds \<Rightarrow> is_cont d \<and> utf8_ok ds | _ \<Rightarrow> False)
      else if byte_of c < 240 then
        (case cs of d # e # ds \<Rightarrow> is_cont d \<and> is_cont e \<and> utf8_ok ds | _ \<Rightarrow> False)
      else
        (case cs of d # e # f # ds \<Rightarrow> is_cont d \<and> is_cont e \<and> is_cont f \<and> utf8_ok ds | _ \<Rightarrow> False))"

text \<open>
  \<open>String::from_utf8\<close>: shortest forms only, no surrogates, nothing above U+10FFFF.
\<close>

definition utf8_three :: "char \<Rightarrow> char \<Rightarrow> char \<Rightarrow> bool" where
  "utf8_three c d e \<longleftrightarrow> is_cont d \<and> is_cont e \<and>
     (byte_of c = 224 \<longrightarrow> 160 \<le> byte_of d) \<and> (byte_of c = 237 \<longrightarrow> byte_of d < 160)"

definition utf8_four :: "char \<Rightarrow> char \<Rightarrow> char \<Rightarrow> char \<Rightarrow> bool" where
  "utf8_four c d e f \<longleftrightarrow> is_cont d \<and> is_cont e \<and> is_cont f \<and> byte_of c \<le> 244 \<and>
     (byte_of c = 240 \<longrightarrow> 144 \<le> byte_of d) \<and> (byte_of c = 244 \<longrightarrow> byte_of d < 144)"

fun utf8_valid :: "bytes \<Rightarrow> bool" where
  "utf8_valid [] = True"
| "utf8_valid (c # cs) =
     (if byte_of c < 128 then utf8_valid cs
      else if byte_of c < 194 then False
      else if byte_of c < 224 then
        (case cs of d # ds \<Rightarrow> is_cont d \<and> utf8_valid ds | _ \<Rightarrow> False)
      else if byte_of c < 240 then
        (case cs of d # e # ds \<Rightarrow> utf8_three c d e \<and> utf8_valid ds | _ \<Rightarrow> False)
      else
        (case cs of d # e # f # ds \<Rightarrow> utf8_four c d e f \<and> utf8_valid ds | _ \<Rightarrow> False))"

definition from_utf8 :: "bytes \<Rightarrow> string option" where
  "from_utf8 b = (if utf8_valid b then Some b else None)"

text \<open>\<open>str::strip_prefix\<close>, \<open>str::starts_with\<close>, \<open>str::strip_suffix\<close>.\<close>

fun strip_prefix :: "string \<Rightarrow> string \<Rightarrow> string option" where
  "strip_prefix s [] = Some s"
| "strip_prefix [] (p # ps) = None"
| "strip_prefix (c # s) (p # ps) = (if c = p then strip_prefix s ps else None)"

definition starts_with :: "string \<Rightarrow> string \<Rightarrow> bool" where
  "starts_with s p = (strip_prefix s p \<noteq> None)"

definition strip_suffix :: "string \<Rightarrow> string \<Rightarrow> string option" where
  "strip_suffix s p = map_option rev (strip_prefix (rev s) (rev p))"

text \<open>\<open>str::split\<close> on a character: always at least one piece.\<close>

fun split_on :: "char \<Rightarrow> string \<Rightarrow> string list" where
  "split_on d [] = [[]]"
| "split_on d (c # s) =
     (if c = d then [] # split_on d s
      else (case split_on d s of [] \<Rightarrow> [[c]] | p # ps \<Rightarrow> (c # p) # ps))"

definition is_ascii_ws :: "char \<Rightarrow> bool" where
  "is_ascii_ws c \<longleftrightarrow> byte_of c = 32 \<or> (9 \<le> byte_of c \<and> byte_of c \<le> 13)"

text \<open>\<open>str::trim\<close> on ASCII text (the sources apply it to header values that \<open>to_str\<close> accepted).\<close>

definition trim :: "string \<Rightarrow> string" where
  "trim s = rev (dropWhile is_ascii_ws (rev (dropWhile is_ascii_ws s)))"

definition to_lower :: "string \<Rightarrow> string" where
  "to_lower s = map (\<lambda>c. if 65 \<le> byte_of c \<and> byte_of c \<le> 90 then char_of (byte_of c + 32) else c) s"

definition newline :: char where
  "newline = CHR 0x0A"

definition carriage_return :: char where
  "carriage_return = CHR 0x0D"

text \<open>
  \<open>str::lines\<close>: the pieces that end in a newline, without it and without a carriage return
  before it, and a last piece without a newline, kept as it is, when it is not empty.
\<close>

definition strip_cr :: "string \<Rightarrow> string" where
  "strip_cr s = (case strip_suffix s [carriage_return] of Some r \<Rightarrow> r | None \<Rightarrow> s)"

fun lines_of :: "string list \<Rightarrow> string list" where
  "lines_of [] = []"
| "lines_of [p] = (if p = [] then [] else [p])"
| "lines_of (p # q # ps) = strip_cr p # lines_of (q # ps)"

definition str_lines :: "string \<Rightarrow> string list" where
  "str_lines s = lines_of (split_on newline s)"

text \<open>\<open>[T]::join\<close> on strings.\<close>

fun join_str :: "string \<Rightarrow> string list \<Rightarrow> string" where
  "join_str sep [] = []"
| "join_str sep [x] = x"
| "join_str sep (x # y # ys) = x @ sep @ join_str sep (y # ys)"

text \<open>\<open>to_string\<close> on integers.\<close>

fun nat_str :: "nat \<Rightarrow> string" where
  "nat_str n = (if n < 10 then [char_of (48 + n)] else nat_str (n div 10) @ [char_of (48 + n mod 10)])"

declare nat_str.simps [simp del]

definition int_str :: "int \<Rightarrow> string" where
  "int_str i = (if i < 0 then ''-'' @ nat_str (nat (- i)) else nat_str (nat i))"

definition bool_str :: "bool \<Rightarrow> string" where
  "bool_str b = (if b then ''true'' else ''false'')"

subsection \<open>Laws of the string operations\<close>

lemma strip_prefix_Some_iff [str_simps]: "strip_prefix s p = Some r \<longleftrightarrow> s = p @ r"
  by (induction s p rule: strip_prefix.induct) auto

lemma strip_prefix_None_iff [str_simps]: "strip_prefix s p = None \<longleftrightarrow> (\<forall>r. s \<noteq> p @ r)"
  using strip_prefix_Some_iff by (metis not_None_eq)

lemma strip_prefix_append [simp]: "strip_prefix (p @ s) p = Some s"
  by (simp add: str_simps)

lemma starts_with_iff [str_simps]: "starts_with s p \<longleftrightarrow> (\<exists>r. s = p @ r)"
  by (auto simp: starts_with_def str_simps)

lemma strip_suffix_Some_iff [str_simps]: "strip_suffix s p = Some r \<longleftrightarrow> s = r @ p"
  by (auto simp: strip_suffix_def str_simps rev_swap)

lemma split_on_not_Nil [simp]: "split_on d s \<noteq> []"
  by (induction s) (auto split: list.splits)

lemma split_on_no_sep: "d \<notin> set s \<Longrightarrow> split_on d s = [s]"
  by (induction s) auto

lemma split_on_append_sep [simp]: "split_on d (a @ d # b) = split_on d a @ split_on d b"
  by (induction a) (auto split: list.splits simp: Cons_eq_append_conv)

lemma split_on_pieces: "\<forall>p \<in> set (split_on d s). d \<notin> set p"
  by (induction s) (auto split: list.splits)

lemma join_str_Cons_head: "join_str sep ((c # p) # ps) = c # join_str sep (p # ps)"
  by (cases ps) auto

lemma join_split_on: "join_str [d] (split_on d s) = s"
proof (induction s)
  case (Cons c s)
  then show ?case
    by (cases "split_on d s") (auto simp: join_str_Cons_head)
qed simp

lemma join_str_Cons: "xs \<noteq> [] \<Longrightarrow> join_str sep (x # xs) = x @ sep @ join_str sep xs"
  by (cases xs) auto

lemma split_on_terminated:
  "(\<And>x. x \<in> set xs \<Longrightarrow> d \<notin> set (f x)) \<Longrightarrow> split_on d (concat (map (\<lambda>x. f x @ [d]) xs)) = map f xs @ [[]]"
  by (induction xs) (simp_all add: split_on_no_sep)

lemma utf8_valid_ok: "utf8_valid s \<Longrightarrow> utf8_ok s"
proof (induction s rule: utf8_valid.induct)
  case (2 c cs)
  then show ?case
    by (auto simp: utf8_three_def utf8_four_def split: if_splits list.splits)
qed simp

lemma utf8_valid_ascii: "\<forall>c\<in>set s. byte_of c < 128 \<Longrightarrow> utf8_valid s"
  by (induction s) auto

lemma utf8_ok_hd: "utf8_ok (c # cs) \<Longrightarrow> \<not> is_cont c"
  by (auto simp: is_cont_def split: if_splits)

lemma char_boundary_0 [simp]: "char_boundary s 0"
  by (simp add: char_boundary_def)

lemma char_boundary_length [simp]: "char_boundary s (length s)"
  by (simp add: char_boundary_def)

lemma set_char_indices [simp]: "set (char_indices s) = {i. i < length s \<and> char_boundary s i}"
  by (auto simp: char_indices_def)

section \<open>Hash maps\<close>

text \<open>
  A \<open>HashMap\<close> is an association list with distinct keys. Its order stands for the iteration
  order, which Rust leaves unspecified: a statement about a map that the sources iterate holds for
  every list that represents it.
\<close>

definition map_ok :: "('k \<times> 'v) list \<Rightarrow> bool" where
  "map_ok m \<longleftrightarrow> distinct (map fst m)"

definition map_insert :: "'k \<Rightarrow> 'v \<Rightarrow> ('k \<times> 'v) list \<Rightarrow> ('k \<times> 'v) list" where
  "map_insert k v m = AList.update k v m"

lemma map_of_map_insert [simp]: "map_of (map_insert k v m) = (map_of m)(k \<mapsto> v)"
  by (simp add: map_insert_def update_conv')

lemma map_ok_empty [simp]: "map_ok []"
  by (simp add: map_ok_def)

lemma map_ok_insert [simp]: "map_ok m \<Longrightarrow> map_ok (map_insert k v m)"
  by (simp add: map_ok_def map_insert_def distinct_update)

end
