(* ===== verification/Nu_Value.thy ===== *)
theory Nu_Value
  imports Prelude
begin

text \<open>
  The nushell data the sources match on (\<open>nu_protocol::Value\<close>, \<open>ShellError\<close>, \<open>PipelineData\<close> and
  its metadata) and the JSON values they build (\<open>serde_json::Value\<close>). Only the shape of the data
  is fixed here, with one constructor per case the sources distinguish; what nushell and
  serde_json compute from it (rendering a value as text, serialising JSON) is an argument of the
  definitions that use it.
\<close>

section \<open>Values\<close>

type_synonym i64 = "64 word"
type_synonym f64 = "64 word"

text \<open>
  A float is its IEEE 754 bit pattern. \<open>serde_json::Number::from_f64\<close> accepts exactly the finite
  ones: those whose exponent field is not all ones.
\<close>

definition f64_finite :: "f64 \<Rightarrow> bool" where
  "f64_finite x \<longleftrightarrow> unat (drop_bit 52 x) mod 2048 \<noteq> 2047"

datatype shell_error =
    Generic string string
  | TypeMismatch string
  | OtherShellError string

text \<open>
  \<open>Custom\<close> values: the compiled templates of this program (by cache key) or anything else. The
  remaining variants of \<open>Value\<close> (dates, durations, ranges, closures, ...) fall into the catch-all
  branch of every match in the sources; \<open>VOther\<close> carries the type's name and a number that tells
  values apart.
\<close>

datatype custom_value = CompiledTemplate "128 word" | OtherCustom string

datatype nu_value =
    VNothing
  | VBool bool
  | VInt i64
  | VFloat f64
  | VString string
  | VBinary bytes
  | VList "nu_value list"
  | VRecord "(string \<times> nu_value) list"
  | VError shell_error
  | VCustom custom_value
  | VOther string nat

type_synonym nu_record = "(string \<times> nu_value) list"

text \<open>\<open>Record::get\<close>: the value of the first column with that name.\<close>

definition rec_get :: "nu_record \<Rightarrow> string \<Rightarrow> nu_value option" where
  "rec_get r k = map_of r k"

fun as_str :: "nu_value \<Rightarrow> string option" where
  "as_str (VString s) = Some s"
| "as_str _ = None"

fun as_int :: "nu_value \<Rightarrow> i64 option" where
  "as_int (VInt i) = Some i"
| "as_int _ = None"

fun as_bool :: "nu_value \<Rightarrow> bool option" where
  "as_bool (VBool b) = Some b"
| "as_bool _ = None"

fun as_record :: "nu_value \<Rightarrow> nu_record option" where
  "as_record (VRecord r) = Some r"
| "as_record _ = None"

fun type_name :: "nu_value \<Rightarrow> string" where
  "type_name VNothing = ''nothing''"
| "type_name (VBool b) = ''bool''"
| "type_name (VInt i) = ''int''"
| "type_name (VFloat f) = ''float''"
| "type_name (VString s) = ''string''"
| "type_name (VBinary b) = ''binary''"
| "type_name (VList vs) = ''list''"
| "type_name (VRecord r) = ''record''"
| "type_name (VError e) = ''error''"
| "type_name (VCustom c) = ''custom''"
| "type_name (VOther n i) = n"

lemma as_str_Some_iff [simp]: "as_str v = Some s \<longleftrightarrow> v = VString s"
  by (cases v) auto

lemma as_int_Some_iff [simp]: "as_int v = Some i \<longleftrightarrow> v = VInt i"
  by (cases v) auto

lemma as_bool_Some_iff [simp]: "as_bool v = Some b \<longleftrightarrow> v = VBool b"
  by (cases v) auto

lemma as_record_Some_iff [simp]: "as_record v = Some r \<longleftrightarrow> v = VRecord r"
  by (cases v) auto

section \<open>JSON\<close>

text \<open>
  An object is a partial map from keys to values: the sources only insert into objects, and no
  statement depends on the order in which a serialiser lists the keys.
\<close>

datatype json =
    JNull
  | JBool bool
  | JInt i64
  | JUInt "64 word"
  | JFloat f64
  | JString string
  | JArray "json list"
  | JObject "string \<Rightarrow> json option"

text \<open>\<open>Number::from_f64(x).map(Value::Number).unwrap_or(Null)\<close>.\<close>

definition json_of_f64 :: "f64 \<Rightarrow> json" where
  "json_of_f64 x = (if f64_finite x then JFloat x else JNull)"

section \<open>Pipeline data\<close>

record metadata =
  content_type :: "string option"
  custom :: nu_record

definition default_metadata :: metadata where
  "default_metadata = \<lparr>content_type = None, custom = []\<rparr>"

definition with_content_type :: "string option \<Rightarrow> metadata \<Rightarrow> metadata" where
  "with_content_type ct md = md\<lparr>content_type := ct\<rparr>"

text \<open>
  A byte stream is what its reader delivers, read by read: a chunk, or an I/O error that may carry
  a shell error. The end of the list, and a chunk of no bytes, is the end of the stream. A stream
  may have no reader. A list stream is the values its iterator yields.
\<close>

datatype io_error = IoShell shell_error | IoOther string

datatype read_result = ReadOk bytes | ReadErr io_error

type_synonym byte_stream = "read_result list option"

datatype pipeline_data =
    PEmpty
  | PValue nu_value "metadata option"
  | PListStream "nu_value list" "metadata option"
  | PByteStream byte_stream "metadata option"

definition meta_content_type :: "metadata option \<Rightarrow> string option" where
  "meta_content_type meta = (case meta of None \<Rightarrow> None | Some m \<Rightarrow> content_type m)"

lemma meta_content_type_simps [simp]:
  "meta_content_type None = None"
  "meta_content_type (Some m) = content_type m"
  by (simp_all add: meta_content_type_def)

lemma with_content_type_simps [simp]:
  "content_type (with_content_type ct md) = ct"
  "custom (with_content_type ct md) = custom md"
  by (simp_all add: with_content_type_def)

end
