(* ===== verification/Header_Map.thy ===== *)
theory Header_Map
  imports Prelude
begin

text \<open>
  The part of the \<open>http\<close> crate the server relies on: header maps, header names, header values. It
  is not part of the sources, so it is an argument of every definition that uses it: a record of
  the operations. The locale states what their documentation promises; the lemmas a client needs
  are proved inside it. A reference instance, an association list, shows that the promises can be
  kept and lets the definitions be evaluated.

  A header name is its canonical (lower-case) text, a header value its bytes.
\<close>

record 'h header_lib =
  hl_empty :: 'h
  hl_insert :: "string \<Rightarrow> string \<Rightarrow> 'h \<Rightarrow> 'h"
  hl_append :: "string \<Rightarrow> string \<Rightarrow> 'h \<Rightarrow> 'h"
  hl_get_all :: "'h \<Rightarrow> string \<Rightarrow> string list"
  hl_iter :: "'h \<Rightarrow> (string \<times> string) list"
  header_name :: "string \<Rightarrow> string option"
  header_value :: "string \<Rightarrow> string option"
  value_to_str :: "string \<Rightarrow> string option"

text \<open>\<open>HeaderMap::get\<close> is the first value of a name.\<close>

definition hl_get :: "'h header_lib \<Rightarrow> 'h \<Rightarrow> string \<Rightarrow> string option" where
  "hl_get L h n = (case hl_get_all L h n of [] \<Rightarrow> None | v # _ \<Rightarrow> Some v)"

definition hl_contains :: "'h header_lib \<Rightarrow> 'h \<Rightarrow> string \<Rightarrow> bool" where
  "hl_contains L h n = (hl_get_all L h n \<noteq> [])"

text \<open>
  Insertion replaces the values of a name, appending adds one at the end; names are normalised to
  lower case; an accepted value is stored as it is.
\<close>

locale header_map =
  fixes L :: "'h header_lib"
  assumes get_all_empty: "hl_get_all L (hl_empty L) n = []"
    and get_all_insert: "hl_get_all L (hl_insert L m v h) n = (if n = m then [v] else hl_get_all L h n)"
    and get_all_append: "hl_get_all L (hl_append L m v h) n =
      (if n = m then hl_get_all L h n @ [v] else hl_get_all L h n)"
    and iter_get_all: "map snd (filter (\<lambda>e. fst e = n) (hl_iter L h)) = hl_get_all L h n"
    and header_name_lower: "header_name L k = Some n \<Longrightarrow> n = to_lower k"
    and header_value_same: "header_value L s = Some v \<Longrightarrow> v = s"
begin

lemmas get_all_simps = get_all_empty get_all_insert get_all_append

lemma get_simps:
  "hl_get L (hl_empty L) n = None"
  "hl_get L (hl_insert L m v h) n = (if n = m then Some v else hl_get L h n)"
  by (simp_all add: hl_get_def get_all_simps)

lemma contains_get: "hl_contains L h n \<longleftrightarrow> hl_get L h n \<noteq> None"
  by (auto simp: hl_contains_def hl_get_def split: list.splits)

lemma iter_names: "n \<in> fst ` set (hl_iter L h) \<longleftrightarrow> hl_get_all L h n \<noteq> []"
proof -
  have "n \<in> fst ` set (hl_iter L h) \<longleftrightarrow> filter (\<lambda>e. fst e = n) (hl_iter L h) \<noteq> []"
    by (auto simp: filter_empty_conv)
  then show ?thesis by (simp flip: iter_get_all)
qed

end

section \<open>A reference instance\<close>

definition is_token_byte :: "char \<Rightarrow> bool" where
  "is_token_byte c \<longleftrightarrow>
     (let b = byte_of c in (48 \<le> b \<and> b \<le> 57) \<or> (65 \<le> b \<and> b \<le> 90) \<or> (97 \<le> b \<and> b \<le> 122)) \<or>
     c \<in> set ''!#$%&*+-.^_|~''"

definition is_value_byte :: "char \<Rightarrow> bool" where
  "is_value_byte c \<longleftrightarrow> (let b = byte_of c in b = 9 \<or> (32 \<le> b \<and> b \<noteq> 127))"

definition is_visible_byte :: "char \<Rightarrow> bool" where
  "is_visible_byte c \<longleftrightarrow> (let b = byte_of c in b = 9 \<or> (32 \<le> b \<and> b < 127))"

type_synonym alist_headers = "(string \<times> string) list"

definition alist_header_lib :: "alist_headers header_lib" where
  "alist_header_lib =
     \<lparr>hl_empty = [],
      hl_insert = (\<lambda>n v h. filter (\<lambda>e. fst e \<noteq> n) h @ [(n, v)]),
      hl_append = (\<lambda>n v h. h @ [(n, v)]),
      hl_get_all = (\<lambda>h n. map snd (filter (\<lambda>e. fst e = n) h)),
      hl_iter = (\<lambda>h. h),
      header_name = (\<lambda>k. if k \<noteq> [] \<and> list_all is_token_byte k then Some (to_lower k) else None),
      header_value = (\<lambda>s. if list_all is_value_byte s then Some s else None),
      value_to_str = (\<lambda>v. if list_all is_visible_byte v then Some v else None)\<rparr>"

lemma filter_other: "filter (\<lambda>e. fst e = n) (filter (\<lambda>e. fst e \<noteq> m) h) =
    (if n = m then [] else filter (\<lambda>e. fst e = n) h)"
  by (induction h) auto

interpretation alist_headers: header_map alist_header_lib
  by unfold_locales (auto simp: alist_header_lib_def filter_other simp del: filter_filter split: if_splits)

end
