(* ===== verification/Request.thy ===== *)
theory Request
  imports Nu_Value Header_Map
begin

text \<open>
  Requests (\<open>src/request.rs\<close>): IP addresses and their textual form as Rust's standard library
  reads it, the client address resolved from \<open>X-Forwarded-For\<close>, and the record a script receives.
\<close>

section \<open>IP addresses\<close>

datatype ip_addr = V4 "32 word" | V6 "128 word"

text \<open>
  \<open>str::parse::<IpAddr>\<close>: the reader of the standard library. A number is a maximal run of digits,
  at most \<open>maxd\<close> of them, below \<open>lim\<close>, and without a leading zero where that is not allowed.
\<close>

definition digit_val :: "char \<Rightarrow> int option" where
  "digit_val c =
     (let b = int (byte_of c) in
      if 48 \<le> b \<and> b \<le> 57 then Some (b - 48)
      else if 97 \<le> b \<and> b \<le> 102 then Some (b - 87)
      else if 65 \<le> b \<and> b \<le> 70 then Some (b - 55)
      else None)"

definition is_digit_in :: "int \<Rightarrow> char \<Rightarrow> bool" where
  "is_digit_in radix c = (case digit_val c of None \<Rightarrow> False | Some d \<Rightarrow> d < radix)"

definition digits_val :: "int \<Rightarrow> string \<Rightarrow> int" where
  "digits_val radix ds = foldl (\<lambda>a c. a * radix + (case digit_val c of None \<Rightarrow> 0 | Some d \<Rightarrow> d)) 0 ds"

definition read_number :: "int \<Rightarrow> nat \<Rightarrow> bool \<Rightarrow> int \<Rightarrow> string \<Rightarrow> (int \<times> string) option" where
  "read_number radix maxd zero_prefix lim s =
     (let ds = takeWhile (is_digit_in radix) s; rest = dropWhile (is_digit_in radix) s in
      if ds = [] \<or> maxd < length ds \<or> (\<not> zero_prefix \<and> hd ds = CHR ''0'' \<and> 1 < length ds)
         \<or> lim \<le> digits_val radix ds
      then None else Some (digits_val radix ds, rest))"

definition read_octet :: "string \<Rightarrow> (int \<times> string) option" where
  "read_octet s = read_number 10 3 False 256 s"

definition read_dot_octet :: "string \<Rightarrow> (int \<times> string) option" where
  "read_dot_octet s = Option.bind (strip_prefix s ''.'') read_octet"

definition read_ipv4 :: "string \<Rightarrow> (32 word \<times> string) option" where
  "read_ipv4 s =
     Option.bind (read_octet s) (\<lambda>(a, s1).
     Option.bind (read_dot_octet s1) (\<lambda>(b, s2).
     Option.bind (read_dot_octet s2) (\<lambda>(c, s3).
     Option.bind (read_dot_octet s3) (\<lambda>(d, s4).
       Some (of_int (((a * 256 + b) * 256 + c) * 256 + d), s4)))))"

text \<open>
  Up to \<open>k\<close> groups of an IPv6 address; an embedded IPv4 address stands for the last two. The flag
  says whether one was read.
\<close>

fun read_groups :: "nat \<Rightarrow> bool \<Rightarrow> string \<Rightarrow> int list \<times> bool \<times> string" where
  "read_groups 0 first s = ([], False, s)"
| "read_groups (Suc k) first s =
     (let s1 = (if first then Some s else strip_prefix s '':'') in
      case (if 0 < k then Option.bind s1 read_ipv4 else None) of
        Some (a, rest) \<Rightarrow> ([uint a div 65536, uint a mod 65536], True, rest)
      | None \<Rightarrow>
          (case Option.bind s1 (read_number 16 4 True 65536) of
             Some (g, rest) \<Rightarrow> (case read_groups k False rest of (gs, v4, r) \<Rightarrow> (g # gs, v4, r))
           | None \<Rightarrow> ([], False, s)))"

definition groups_word :: "int list \<Rightarrow> 128 word" where
  "groups_word gs = of_int (foldl (\<lambda>a g. a * 65536 + g) 0 gs)"

definition read_ipv6 :: "string \<Rightarrow> (128 word \<times> string) option" where
  "read_ipv6 s =
     (case read_groups 8 True s of (head, head_v4, s1) \<Rightarrow>
        if length head = 8 then Some (groups_word head, s1)
        else if head_v4 then None
        else (case strip_prefix s1 ''::'' of
                None \<Rightarrow> None
              | Some s2 \<Rightarrow>
                  (case read_groups (7 - length head) True s2 of (tail, _, s3) \<Rightarrow>
                     Some (groups_word (head @ replicate (8 - length head - length tail) 0 @ tail), s3))))"

definition parse_ip :: "string \<Rightarrow> ip_addr option" where
  "parse_ip s =
     (case read_ipv4 s of
        Some (a, rest) \<Rightarrow> if rest = [] then Some (V4 a) else None
      | None \<Rightarrow>
          (case read_ipv6 s of
             Some (a, rest) \<Rightarrow> if rest = [] then Some (V6 a) else None
           | None \<Rightarrow> None))"

section \<open>The client address\<close>

text \<open>
  \<open>resolve_trusted_ip\<close>. The networks are \<open>ipnet\<close>'s; all the code asks of one is whether it
  contains an address, the argument \<open>contains\<close>.
\<close>

definition is_trusted :: "('net \<Rightarrow> ip_addr \<Rightarrow> bool) \<Rightarrow> 'net list \<Rightarrow> ip_addr \<Rightarrow> bool" where
  "is_trusted contains proxies ip = list_ex (\<lambda>net. contains net ip) proxies"

text \<open>
  The loop over the entries, right to left: \<open>Inl\<close> is the early return, \<open>Inr\<close> the value of
  \<open>leftmost_ip\<close> when the entries are exhausted.
\<close>

fun xff_scan :: "(ip_addr \<Rightarrow> bool) \<Rightarrow> ip_addr option \<Rightarrow> string list \<Rightarrow> ip_addr + ip_addr option" where
  "xff_scan trusted leftmost [] = Inr leftmost"
| "xff_scan trusted leftmost (ip_str # rest) =
     (case parse_ip ip_str of
        Some ip \<Rightarrow> if \<not> trusted ip then Inl ip else xff_scan trusted (Some ip) rest
      | None \<Rightarrow> xff_scan trusted leftmost rest)"

definition xff_entries :: "string \<Rightarrow> string list" where
  "xff_entries xff = map trim (split_on CHR '','' xff)"

definition resolve_trusted_ip :: "'h header_lib \<Rightarrow> ('net \<Rightarrow> ip_addr \<Rightarrow> bool) \<Rightarrow> 'h \<Rightarrow>
    ip_addr option \<Rightarrow> 'net list \<Rightarrow> ip_addr option" where
  "resolve_trusted_ip L contains headers remote_ip trusted_proxies =
     (if trusted_proxies = [] then remote_ip
      else
        let remote_is_trusted =
              (case remote_ip of None \<Rightarrow> True | Some ip \<Rightarrow> is_trusted contains trusted_proxies ip)
        in
          if \<not> remote_is_trusted then remote_ip
          else
            (case hl_get L headers ''x-forwarded-for'' of
               None \<Rightarrow> remote_ip
             | Some v \<Rightarrow>
                 (case value_to_str L v of
                    None \<Rightarrow> None
                  | Some xff \<Rightarrow>
                      (case xff_scan (is_trusted contains trusted_proxies) None (rev (xff_entries xff)) of
                         Inl ip \<Rightarrow> Some ip
                       | Inr (Some ip) \<Rightarrow> Some ip
                       | Inr None \<Rightarrow> remote_ip))))"

section \<open>Requests\<close>

text \<open>A \<open>Uri\<close> is its text and the parts of it the code reads.\<close>

record uri =
  uri_text :: string
  uri_authority :: "string option"
  uri_path :: string
  uri_query :: "string option"

record 'h request =
  proto :: string
  req_method :: string
  authority :: "string option"
  remote_ip :: "ip_addr option"
  remote_port :: "16 word option"
  trusted_ip :: "ip_addr option"
  headers :: 'h
  req_uri :: uri
  path :: string
  query :: "(string \<times> string) list"

definition opt_field :: "string \<Rightarrow> nu_value option \<Rightarrow> nu_record" where
  "opt_field k v = (case v of None \<Rightarrow> [] | Some x \<Rightarrow> [(k, x)])"

text \<open>\<open>request_to_value\<close>; \<open>show_ip\<close> is the display of an address.\<close>

definition request_to_value :: "'h header_lib \<Rightarrow> (ip_addr \<Rightarrow> string) \<Rightarrow> 'h request \<Rightarrow> nu_value" where
  "request_to_value L show_ip r =
     VRecord
       ([(''proto'', VString (proto r)), (''method'', VString (req_method r)),
         (''uri'', VString (uri_text (req_uri r))), (''path'', VString (path r))] @
        opt_field ''authority'' (map_option VString (authority r)) @
        opt_field ''remote_ip'' (map_option (\<lambda>ip. VString (show_ip ip)) (remote_ip r)) @
        opt_field ''remote_port'' (map_option (\<lambda>p. VInt (ucast p)) (remote_port r)) @
        opt_field ''trusted_ip'' (map_option (\<lambda>ip. VString (show_ip ip)) (trusted_ip r)) @
        [(''headers'', VRecord (map (\<lambda>(k, v). (k, VString (case value_to_str L v of Some s \<Rightarrow> s | None \<Rightarrow> [])))
            (hl_iter L (headers r)))),
         (''query'', VRecord (map (\<lambda>(k, v). (k, VString v)) (query r)))])"

section \<open>Laws\<close>

lemma xff_scan_spec:
  "xff_scan trusted leftmost es =
     (let ips = List.map_filter parse_ip es in
      case find (\<lambda>ip. \<not> trusted ip) ips of
        Some ip \<Rightarrow> Inl ip
      | None \<Rightarrow> Inr (if ips = [] then leftmost else Some (last ips)))"
  by (induction es arbitrary: leftmost) (auto simp: map_filter_simps Let_def split: option.splits)

text \<open>The addresses an \<open>X-Forwarded-For\<close> value lists, left to right.\<close>

definition xff_ips :: "string \<Rightarrow> ip_addr list" where
  "xff_ips xff = List.map_filter parse_ip (xff_entries xff)"

lemma map_filter_rev: "List.map_filter f (rev xs) = rev (List.map_filter f xs)"
  by (simp add: map_filter_def rev_map rev_filter)

lemma xff_ips_append: "xff_ips (a @ CHR '','' # b) = xff_ips a @ xff_ips b"
  by (simp add: xff_ips_def xff_entries_def map_filter_def)

lemma find_rev_append: "find P (rev (xs @ ys)) = (case find P (rev ys) of Some y \<Rightarrow> Some y | None \<Rightarrow> find P (rev xs))"
proof -
  have "find P (zs @ ws) = (case find P zs of Some y \<Rightarrow> Some y | None \<Rightarrow> find P ws)" for zs ws
    by (induction zs) auto
  then show ?thesis by simp
qed

text \<open>
  What the function computes when it consults the header: the rightmost listed address that is
  not a trusted proxy, else the leftmost listed address, else the peer's own.
\<close>

definition client_ip :: "(ip_addr \<Rightarrow> bool) \<Rightarrow> ip_addr option \<Rightarrow> ip_addr list \<Rightarrow> ip_addr option" where
  "client_ip trusted peer ips =
     (case find (\<lambda>ip. \<not> trusted ip) (rev ips) of
        Some ip \<Rightarrow> Some ip
      | None \<Rightarrow> (case ips of [] \<Rightarrow> peer | ip # _ \<Rightarrow> Some ip))"

lemma resolve_trusted_ip_cases:
  "resolve_trusted_ip L contains h peer [] = peer"
  "proxies \<noteq> [] \<Longrightarrow> \<not> is_trusted contains proxies ip \<Longrightarrow>
    resolve_trusted_ip L contains h (Some ip) proxies = Some ip"
  by (simp_all add: resolve_trusted_ip_def)

definition consults_header :: "('net \<Rightarrow> ip_addr \<Rightarrow> bool) \<Rightarrow> 'net list \<Rightarrow> ip_addr option \<Rightarrow> bool" where
  "consults_header contains proxies peer \<longleftrightarrow>
     proxies \<noteq> [] \<and> (case peer of None \<Rightarrow> True | Some ip \<Rightarrow> is_trusted contains proxies ip)"

lemma resolve_trusted_ip_header:
  assumes "consults_header contains proxies peer"
  shows "resolve_trusted_ip L contains h peer proxies =
    (case hl_get L h ''x-forwarded-for'' of
       None \<Rightarrow> peer
     | Some v \<Rightarrow> (case value_to_str L v of
         None \<Rightarrow> None
       | Some xff \<Rightarrow> client_ip (is_trusted contains proxies) peer (xff_ips xff)))"
  using assms
  by (cases "xff_ips (the (value_to_str L (the (hl_get L h ''x-forwarded-for''))))")
    (auto simp: consults_header_def resolve_trusted_ip_def xff_scan_spec client_ip_def xff_ips_def
      map_filter_rev Let_def split: option.splits list.splits)

lemma resolve_trusted_ip_no_header:
  "\<not> consults_header contains proxies peer \<Longrightarrow> resolve_trusted_ip L contains h peer proxies = peer"
  by (auto simp: consults_header_def resolve_trusted_ip_def split: option.splits)

lemma client_ip_suffix:
  assumes "find (\<lambda>ip. \<not> trusted ip) (rev ys) = Some c"
  shows "client_ip trusted peer (xs @ ys) = Some c"
  using assms by (simp add: client_ip_def find_rev_append del: rev_append)

section \<open>Properties\<close>

text \<open>
  Networks for the examples: a base address and the length of its prefix.
\<close>

fun net_contains :: "ip_addr \<times> nat \<Rightarrow> ip_addr \<Rightarrow> bool" where
  "net_contains (V4 a, n) (V4 b) = (drop_bit (32 - n) a = drop_bit (32 - n) b)"
| "net_contains (V6 a, n) (V6 b) = (drop_bit (128 - n) a = drop_bit (128 - n) b)"
| "net_contains _ _ = False"

text \<open>
  C1. Behind trusted proxies the client's address cannot be forged: when the part of
  \<open>X-Forwarded-For\<close> that the trusted chain appended names an address that is not a trusted proxy,
  the rightmost such address is the answer, whatever the client had put in front of it.
\<close>

theorem xff_spoof_resistant:
  assumes "consults_header contains proxies peer"
    and "hl_get L h ''x-forwarded-for'' = Some v" "value_to_str L v = Some (forged @ CHR '','' # appended)"
    and "find (\<lambda>ip. \<not> is_trusted contains proxies ip) (rev (xff_ips appended)) = Some client"
  shows "resolve_trusted_ip L contains h peer proxies = Some client"
  using assms by (simp add: resolve_trusted_ip_header xff_ips_append client_ip_suffix)

theorem xff_spoof_resistant_witness:
  "resolve_trusted_ip alist_header_lib net_contains
      [(''x-forwarded-for'', ''1.2.3.4, 10.0.0.9,203.0.113.7, 10.0.0.2'')] (Some (V4 0x0A000001)) [(V4 0x0A000000, 8)] =
    Some (V4 0xCB007107)"
proof -
  have a: "consults_header net_contains [(V4 0x0A000000, 8)] (Some (V4 0x0A000001))" by code_simp
  have b: "hl_get alist_header_lib [(''x-forwarded-for'', ''1.2.3.4, 10.0.0.9,203.0.113.7, 10.0.0.2'')] ''x-forwarded-for'' =
      Some ''1.2.3.4, 10.0.0.9,203.0.113.7, 10.0.0.2''" by (simp add: hl_get_def alist_header_lib_def)
  have c: "value_to_str alist_header_lib ''1.2.3.4, 10.0.0.9,203.0.113.7, 10.0.0.2'' =
      Some (''1.2.3.4, 10.0.0.9'' @ CHR '','' # ''203.0.113.7, 10.0.0.2'')" by code_simp
  have d: "find (\<lambda>ip. \<not> is_trusted net_contains [(V4 0x0A000000, 8)] ip) (rev (xff_ips ''203.0.113.7, 10.0.0.2'')) =
      Some (V4 0xCB007107)" by code_simp
  from xff_spoof_resistant [OF a b c d] show ?thesis .
qed

text \<open>
  C35. The full rule: without trusted proxies, or when the peer is known and not one of them, the
  peer's address; otherwise, with the header, the rightmost listed address that is not trusted,
  else the leftmost listed, else the peer's. A header that is not visible ASCII gives no address
  at all.
\<close>

theorem resolve_trusted_ip_rule:
  "resolve_trusted_ip L contains h peer proxies =
    (if consults_header contains proxies peer then
       (case hl_get L h ''x-forwarded-for'' of
          None \<Rightarrow> peer
        | Some v \<Rightarrow> (case value_to_str L v of
            None \<Rightarrow> None
          | Some xff \<Rightarrow> client_ip (is_trusted contains proxies) peer (xff_ips xff)))
     else peer)"
  by (simp add: resolve_trusted_ip_header resolve_trusted_ip_no_header)

text \<open>
  The record a script gets of a request has each column once, the optional ones exactly when
  the request has them, and the ones a script routes on (method, path, query, headers) always.
\<close>

theorem request_record_columns:
  "\<exists>r. request_to_value L show_ip req = VRecord r \<and> distinct (map fst r) \<and>
    rec_get r ''method'' = Some (VString (req_method req)) \<and> rec_get r ''path'' = Some (VString (path req)) \<and>
    rec_get r ''uri'' = Some (VString (uri_text (req_uri req))) \<and> rec_get r ''proto'' = Some (VString (proto req)) \<and>
    rec_get r ''authority'' = map_option VString (authority req) \<and>
    rec_get r ''remote_ip'' = map_option (\<lambda>ip. VString (show_ip ip)) (remote_ip req) \<and>
    rec_get r ''remote_port'' = map_option (\<lambda>p. VInt (ucast p)) (remote_port req) \<and>
    rec_get r ''trusted_ip'' = map_option (\<lambda>ip. VString (show_ip ip)) (trusted_ip req) \<and>
    rec_get r ''query'' = Some (VRecord (map (\<lambda>(k, v). (k, VString v)) (query req)))"
  by (simp add: request_to_value_def opt_field_def rec_get_def split: option.split)

end
