(* ===== verification/Response.thy ===== *)
theory Response
  imports Nu_Value
begin

text \<open>
  Responses (\<open>src/response.rs\<close>): the metadata a script attaches to its result, the special
  responses of \<open>.static\<close> and \<open>.reverse-proxy\<close>, and the conversion of values to JSON and to bytes.
\<close>

datatype header_val = Single string | Multiple "string list"

type_synonym header_table = "(string \<times> header_val) list"

record http_response_meta =
  meta_status :: "16 word option"
  meta_headers :: header_table

definition default_response_meta :: http_response_meta where
  "default_response_meta = \<lparr>meta_status = None, meta_headers = []\<rparr>"

record static_params =
  st_root :: string
  st_path :: string
  st_fallback :: "string option"

record proxy_params =
  px_target_url :: string
  px_headers :: header_table
  px_preserve_host :: bool
  px_strip_prefix :: "string option"
  px_request_body :: bytes
  px_query :: "(string \<times> string) list option"

datatype response_body_type = Normal | Static static_params | ReverseProxy proxy_params

record response =
  resp_status :: "16 word"
  resp_headers :: header_table
  body_type :: response_body_type

text \<open>The body as it reaches the handler; a stream is the chunks its channel delivers.\<close>

datatype response_transport = TEmpty | TFull bytes | TStream "bytes list"

section \<open>Values as JSON\<close>

text \<open>\<open>value_to_json\<close>: the variants it has no case for are a \<open>todo!()\<close>, which panics.\<close>

fun value_to_json :: "nu_value \<Rightarrow> (string, json) outcome"
  and values_to_json :: "nu_value list \<Rightarrow> (string, json list) outcome"
  and fields_to_json :: "(string \<Rightarrow> json option) \<Rightarrow> nu_record \<Rightarrow> (string, string \<Rightarrow> json option) outcome"
where
  "value_to_json VNothing = Ok JNull"
| "value_to_json (VBool b) = Ok (JBool b)"
| "value_to_json (VInt i) = Ok (JInt i)"
| "value_to_json (VFloat f) = Ok (json_of_f64 f)"
| "value_to_json (VString s) = Ok (JString s)"
| "value_to_json (VList vs) = obind (values_to_json vs) (\<lambda>js. Ok (JArray js))"
| "value_to_json (VRecord r) = obind (fields_to_json Map.empty r) (\<lambda>m. Ok (JObject m))"
| "value_to_json (VBinary b) = Panic ''not yet implemented''"
| "value_to_json (VError e) = Panic ''not yet implemented''"
| "value_to_json (VCustom c) = Panic ''not yet implemented''"
| "value_to_json (VOther n i) = Panic ''not yet implemented''"
| "values_to_json [] = Ok []"
| "values_to_json (v # vs) = obind (value_to_json v) (\<lambda>j. obind (values_to_json vs) (\<lambda>js. Ok (j # js)))"
| "fields_to_json m [] = Ok m"
| "fields_to_json m ((k, v) # fs) = obind (value_to_json v) (\<lambda>j. fields_to_json (m(k \<mapsto> j)) fs)"

section \<open>Metadata\<close>

definition header_val_of :: "nu_value \<Rightarrow> header_val option" where
  "header_val_of v =
     (case v of
        VString s \<Rightarrow> Some (Single s)
      | VList vals \<Rightarrow> Some (Multiple (List.map_filter as_str vals))
      | _ \<Rightarrow> None)"

definition headers_step :: "header_table \<Rightarrow> string \<times> nu_value \<Rightarrow> header_table" where
  "headers_step m e = (case header_val_of (snd e) of Some hv \<Rightarrow> map_insert (fst e) hv m | None \<Rightarrow> m)"

definition headers_of_record :: "nu_record \<Rightarrow> header_table" where
  "headers_of_record r = foldl headers_step [] r"

definition extract_http_response_meta :: "metadata option \<Rightarrow> http_response_meta" where
  "extract_http_response_meta metadata =
     (case metadata of
        None \<Rightarrow> default_response_meta
      | Some meta \<Rightarrow>
          (case rec_get (custom meta) ''http.response'' of
             None \<Rightarrow> default_response_meta
           | Some http_response \<Rightarrow>
               (case as_record http_response of
                  None \<Rightarrow> default_response_meta
                | Some record \<Rightarrow>
                    \<lparr>meta_status = map_option ucast (Option.bind (rec_get record ''status'') as_int),
                     meta_headers =
                       (case Option.bind (rec_get record ''headers'') as_record of
                          Some hr \<Rightarrow> headers_of_record hr
                        | None \<Rightarrow> [])\<rparr>)))"

section \<open>Values as bytes\<close>

text \<open>
  \<open>value_to_bytes\<close>; \<open>show_f64\<close> is the display of a float, \<open>json_str\<close> serde_json's serialiser.
\<close>

definition value_to_bytes :: "(f64 \<Rightarrow> string) \<Rightarrow> (json \<Rightarrow> string option) \<Rightarrow> nu_value \<Rightarrow> (string, bytes) outcome" where
  "value_to_bytes show_f64 json_str value =
     (case value of
        VNothing \<Rightarrow> Ok []
      | VString s \<Rightarrow> Ok s
      | VInt i \<Rightarrow> Ok (int_str (sint i))
      | VFloat f \<Rightarrow> Ok (show_f64 f)
      | VBinary b \<Rightarrow> Ok b
      | VBool b \<Rightarrow> Ok (bool_str b)
      | VRecord r \<Rightarrow>
          (case rec_get r ''__html'' of
             Some (VString html) \<Rightarrow> Ok html
           | Some _ \<Rightarrow> Ok []
           | None \<Rightarrow> obind (value_to_json (VRecord r))
               (\<lambda>j. Ok (case json_str j of Some s \<Rightarrow> s | None \<Rightarrow> [])))
      | VList vs \<Rightarrow> obind (value_to_json (VList vs))
          (\<lambda>j. Ok (case json_str j of Some s \<Rightarrow> s | None \<Rightarrow> []))
      | _ \<Rightarrow> Panic ''not yet implemented: value_to_bytes'')"

section \<open>Laws\<close>

text \<open>The values that have a JSON form here: no binary, error, custom or other value inside.\<close>

fun jsonable :: "nu_value \<Rightarrow> bool" where
  "jsonable (VList vs) = (\<forall>v \<in> set vs. jsonable v)"
| "jsonable (VRecord r) = (\<forall>e \<in> set r. jsonable (snd e))"
| "jsonable (VBinary b) = False"
| "jsonable (VError e) = False"
| "jsonable (VCustom c) = False"
| "jsonable (VOther n i) = False"
| "jsonable _ = True"

lemma value_to_json_not_Err [simp]:
  "value_to_json v \<noteq> Err e" "values_to_json vs \<noteq> Err e" "fields_to_json m fs \<noteq> Err e"
  by (induction v and vs and m fs rule: value_to_json_values_to_json_fields_to_json.induct)
    (auto simp: obind_Err_iff fun_upd_def)

lemma value_to_json_panics:
  "is_panic (value_to_json v) \<longleftrightarrow> \<not> jsonable v"
  "is_panic (values_to_json vs) \<longleftrightarrow> \<not> (\<forall>v \<in> set vs. jsonable v)"
  "is_panic (fields_to_json m fs) \<longleftrightarrow> \<not> (\<forall>e \<in> set fs. jsonable (snd e))"
proof (induction v and vs and m fs rule: value_to_json_values_to_json_fields_to_json.induct)
  case (13 v vs)
  then show ?case by (cases "value_to_json v") auto
next
  case (15 m k v fs)
  then show ?case by (cases "value_to_json v") (auto simp: fun_upd_def)
qed auto

lemma value_to_json_Ok: "jsonable v \<longleftrightarrow> (\<exists>j. value_to_json v = Ok j)"
  using value_to_json_panics(1) [of v] by (cases "value_to_json v") auto

lemma map_ok_headers_of_record: "map_ok (headers_of_record r)"
proof -
  have "map_ok m \<Longrightarrow> map_ok (foldl headers_step m r)" for m
    by (induction r arbitrary: m) (auto simp: headers_step_def split: option.splits)
  then show ?thesis by (simp add: headers_of_record_def)
qed

lemma map_of_headers_of_record:
  assumes "distinct (map fst r)"
  shows "map_of (headers_of_record r) k = Option.bind (map_of r k) header_val_of"
proof -
  have "distinct (map fst r) \<Longrightarrow>
      map_of (foldl headers_step m r) k =
        (case Option.bind (map_of r k) header_val_of of Some hv \<Rightarrow> Some hv | None \<Rightarrow> map_of m k)" for m
  proof (induction r arbitrary: m)
    case (Cons e r)
    then show ?case
      by (cases e) (auto simp: headers_step_def map_of_eq_None_iff [THEN iffD2]
        split: option.splits bind_splits)
  qed simp
  then show ?thesis using assms by (simp add: headers_of_record_def split: option.splits)
qed

lemma map_ok_extract: "map_ok (meta_headers (extract_http_response_meta md))"
  by (auto simp: extract_http_response_meta_def default_response_meta_def map_ok_headers_of_record
    split: option.splits)

lemma value_to_bytes_not_Err [simp]: "value_to_bytes sf js v \<noteq> Err e"
  by (auto simp: value_to_bytes_def obind_Err_iff split: nu_value.splits option.splits)

lemma value_to_bytes_panics:
  "is_panic (value_to_bytes sf js v) \<longleftrightarrow>
     (case v of
        VList vs \<Rightarrow> \<not> jsonable v
      | VRecord r \<Rightarrow> rec_get r ''__html'' = None \<and> \<not> jsonable v
      | VError e \<Rightarrow> True | VCustom c \<Rightarrow> True | VOther n i \<Rightarrow> True | _ \<Rightarrow> False)"
  by (auto simp: value_to_bytes_def value_to_json_panics simp del: value_to_json.simps
    split: nu_value.splits option.splits)

section \<open>Properties\<close>

text \<open>
  C39. Converting a value to JSON never returns an error, and panics exactly when the value holds,
  at any depth, something it has no case for: a binary, an error, a custom value, a date, a
  duration, a file size, a range and so on.
\<close>

theorem value_to_json_panics_iff:
  "(\<exists>j. value_to_json v = Ok j) = jsonable v \<and> is_panic (value_to_json v) = (\<not> jsonable v)"
  using value_to_json_Ok value_to_json_panics(1) by blast

text \<open>
  The headers a script attaches are read entry by entry: a string becomes one value, a list its
  strings, anything else is left out; the status is the low 16 bits of the integer given.
\<close>

theorem extract_meta_entries:
  assumes "rec_get (custom md) ''http.response'' = Some (VRecord r)" "rec_get r ''headers'' = Some (VRecord hr)"
    and "distinct (map fst hr)"
  shows "map_of (meta_headers (extract_http_response_meta (Some md))) k = Option.bind (map_of hr k) header_val_of \<and>
    meta_status (extract_http_response_meta (Some md)) = map_option ucast (Option.bind (rec_get r ''status'') as_int)"
  using assms by (simp add: extract_http_response_meta_def map_of_headers_of_record)

theorem extract_meta_entries_witness:
  "let md = \<lparr>content_type = None, custom = [(''http.response'', VRecord
        [(''status'', VInt 65936), (''headers'', VRecord [(''a'', VString ''1''), (''b'', VList [VInt 1, VString ''2'']), (''c'', VInt 3)])])]\<rparr>;
      m = extract_http_response_meta (Some md)
   in map_of (meta_headers m) ''a'' = Some (Single ''1'') \<and> map_of (meta_headers m) ''b'' = Some (Multiple [''2'']) \<and>
      map_of (meta_headers m) ''c'' = None \<and> meta_status m = Some 400"
proof -
  let ?hr = "[(''a'', VString ''1''), (''b'', VList [VInt 1, VString ''2'']), (''c'', VInt 3)]"
  let ?r = "[(''status'', VInt 65936), (''headers'', VRecord ?hr)]"
  let ?m = "extract_http_response_meta (Some \<lparr>content_type = None, custom = [(''http.response'', VRecord ?r)]\<rparr>)"
  have "map_of (meta_headers ?m) k = Option.bind (map_of ?hr k) header_val_of \<and>
      meta_status ?m = map_option ucast (Option.bind (rec_get ?r ''status'') as_int)" for k
    by (rule extract_meta_entries) (simp_all add: rec_get_def)
  from this [of "''a''"] this [of "''b''"] this [of "''c''"] show ?thesis
    by (simp add: Let_def rec_get_def header_val_of_def map_filter_simps)
qed

end
