(* ===== verification/Special_Response.thy ===== *)
theory Special_Response
  imports Response
begin

text \<open>
  The commands \<open>.static\<close> and \<open>.reverse-proxy\<close> (\<open>src/commands.rs\<close>) and the thread-local sender
  \<open>RESPONSE_TX\<close> they answer through. The sender is taken by the first command that runs; a later
  one finds the slot empty and does nothing.
\<close>

section \<open>One-shot channels\<close>

text \<open>A channel as its receiver will see it: nothing yet, a value, or the sender dropped.\<close>

datatype 'a oneshot = Waiting | Sent 'a | Dropped

text \<open>
  \<open>slot_tx\<close>: whether the thread-local holds the sender; \<open>slot_rx\<close>: whether the receiver is still
  there; \<open>slot_chan\<close>: the channel.
\<close>

record response_slot =
  slot_tx :: bool
  slot_rx :: bool
  slot_chan :: "response oneshot"

definition send_response :: "response \<Rightarrow> response_slot \<Rightarrow> (shell_error, unit) outcome \<times> response_slot" where
  "send_response r s =
     (if slot_tx s then
        if slot_rx s then (Ok (), s\<lparr>slot_tx := False, slot_chan := Sent r\<rparr>)
        else (Err (Generic ''Failed to send response'' ''Channel closed''),
              s\<lparr>slot_tx := False, slot_chan := Dropped\<rparr>)
      else (Ok (), s))"

text \<open>\<open>let _ = tx.borrow_mut().take()\<close>: a sender still there is dropped.\<close>

definition clear_slot :: "response_slot \<Rightarrow> response_slot" where
  "clear_slot s = (if slot_tx s then s\<lparr>slot_tx := False, slot_chan := Dropped\<rparr> else s)"

section \<open>.static\<close>

definition static_response :: "string \<Rightarrow> string \<Rightarrow> string option \<Rightarrow> response" where
  "static_response root path fallback =
     \<lparr>resp_status = 200, resp_headers = [],
      body_type = Static \<lparr>st_root = root, st_path = path, st_fallback = fallback\<rparr>\<rparr>"

definition static_run :: "string \<Rightarrow> string \<Rightarrow> string option \<Rightarrow> response_slot \<Rightarrow>
    (shell_error, pipeline_data) outcome \<times> response_slot" where
  "static_run root path fallback s =
     (case send_response (static_response root path fallback) s of
        (res, s') \<Rightarrow> (obind res (\<lambda>_. Ok PEmpty), s'))"

section \<open>.reverse-proxy\<close>

text \<open>The reads of the input stream up to its end or its first error, which is ignored.\<close>

fun collect_reads :: "read_result list \<Rightarrow> bytes" where
  "collect_reads [] = []"
| "collect_reads (ReadOk b # rs) = (if b = [] then [] else b @ collect_reads rs)"
| "collect_reads (ReadErr e # rs) = []"

definition proxy_body :: "(f64 \<Rightarrow> string) \<Rightarrow> (json \<Rightarrow> string option) \<Rightarrow> pipeline_data \<Rightarrow> (shell_error, bytes) outcome" where
  "proxy_body show_f64 json_str input =
     (case input of
        PEmpty \<Rightarrow> Ok []
      | PValue v _ \<Rightarrow> (case value_to_bytes show_f64 json_str v of Ok b \<Rightarrow> Ok b | Err e \<Rightarrow> Ok [] | Panic m \<Rightarrow> Panic m)
      | PByteStream stream _ \<Rightarrow> Ok (case stream of Some rs \<Rightarrow> collect_reads rs | None \<Rightarrow> [])
      | PListStream vs _ \<Rightarrow>
          (case values_to_json vs of
             Ok js \<Rightarrow> Ok (case json_str (JArray js) of Some s \<Rightarrow> s | None \<Rightarrow> [])
           | Err e \<Rightarrow> Ok []
           | Panic m \<Rightarrow> Panic m))"

definition query_step :: "(string \<times> string) list \<Rightarrow> string \<times> nu_value \<Rightarrow> (string \<times> string) list" where
  "query_step m e = (case as_str (snd e) of Some s \<Rightarrow> map_insert (fst e) s m | None \<Rightarrow> m)"

record proxy_config =
  pc_headers :: header_table
  pc_preserve_host :: bool
  pc_strip_prefix :: "string option"
  pc_query :: "(string \<times> string) list option"

definition default_proxy_config :: proxy_config where
  "default_proxy_config = \<lparr>pc_headers = [], pc_preserve_host = True, pc_strip_prefix = None, pc_query = None\<rparr>"

text \<open>The optional second argument; anything that is not of the expected type is ignored.\<close>

definition parse_proxy_config :: "nu_value option \<Rightarrow> proxy_config" where
  "parse_proxy_config config =
     (case Option.bind config as_record of
        None \<Rightarrow> default_proxy_config
      | Some record \<Rightarrow>
          \<lparr>pc_headers = (case Option.bind (rec_get record ''headers'') as_record of
             Some hr \<Rightarrow> headers_of_record hr | None \<Rightarrow> []),
           pc_preserve_host = (case Option.bind (rec_get record ''preserve_host'') as_bool of
             Some ph \<Rightarrow> ph | None \<Rightarrow> True),
           pc_strip_prefix = Option.bind (rec_get record ''strip_prefix'') as_str,
           pc_query = map_option (foldl query_step []) (Option.bind (rec_get record ''query'') as_record)\<rparr>)"

definition proxy_response :: "string \<Rightarrow> bytes \<Rightarrow> proxy_config \<Rightarrow> response" where
  "proxy_response target_url request_body cfg =
     \<lparr>resp_status = 200, resp_headers = [],
      body_type = ReverseProxy
        \<lparr>px_target_url = target_url, px_headers = pc_headers cfg, px_preserve_host = pc_preserve_host cfg,
         px_strip_prefix = pc_strip_prefix cfg, px_request_body = request_body, px_query = pc_query cfg\<rparr>\<rparr>"

definition reverse_proxy_run :: "(f64 \<Rightarrow> string) \<Rightarrow> (json \<Rightarrow> string option) \<Rightarrow> string \<Rightarrow> nu_value option \<Rightarrow>
    pipeline_data \<Rightarrow> response_slot \<Rightarrow> (shell_error, pipeline_data) outcome \<times> response_slot" where
  "reverse_proxy_run show_f64 json_str target_url config input s =
     (case proxy_body show_f64 json_str input of
        Err e \<Rightarrow> (Err e, s)
      | Panic m \<Rightarrow> (Panic m, s)
      | Ok request_body \<Rightarrow>
          (case send_response (proxy_response target_url request_body (parse_proxy_config config)) s of
             (res, s') \<Rightarrow> (obind res (\<lambda>_. Ok PEmpty), s')))"

section \<open>The slot while a script runs\<close>

text \<open>What a script can do to the slot: its commands send responses, in some order.\<close>

definition send_all :: "response list \<Rightarrow> response_slot \<Rightarrow> response_slot" where
  "send_all rs s = foldl (\<lambda>s r. snd (send_response r s)) s rs"

text \<open>The slot as the worker sets it up, for a receiver that is still there.\<close>

definition armed :: response_slot where
  "armed = \<lparr>slot_tx = True, slot_rx = True, slot_chan = Waiting\<rparr>"

lemma send_all_taken: "\<not> slot_tx s \<Longrightarrow> send_all rs s = s"
  by (induction rs) (simp_all add: send_all_def send_response_def)

lemma send_all_Cons: "send_all (r # rs) s = send_all rs (snd (send_response r s))"
  by (simp add: send_all_def)

lemma send_all_append: "send_all (rs @ rs') s = send_all rs' (send_all rs s)"
  by (simp add: send_all_def)

lemma send_all_armed:
  "send_all rs armed =
    (case rs of [] \<Rightarrow> armed | r # _ \<Rightarrow> \<lparr>slot_tx = False, slot_rx = True, slot_chan = Sent r\<rparr>)"
  by (cases rs) (simp_all add: send_all_Cons send_response_def send_all_taken armed_def send_all_def [of "[]"])

lemma clear_slot_chan: "slot_chan s = Waiting \<Longrightarrow> slot_tx s \<Longrightarrow> slot_chan (clear_slot s) = Dropped"
  by (simp add: clear_slot_def)

lemma clear_slot_armed: "slot_chan (clear_slot (send_all rs armed)) =
    (case rs of [] \<Rightarrow> Dropped | r # _ \<Rightarrow> Sent r)"
  by (cases rs) (simp_all add: send_all_armed clear_slot_def, simp add: armed_def)

text \<open>Each command sends at most one response: its step is a \<open>send_all\<close>.\<close>

lemma static_run_sends:
  "snd (static_run root path fallback s) = send_all [static_response root path fallback] s"
  by (simp add: static_run_def send_all_def split: prod.splits)

lemma reverse_proxy_run_sends:
  "snd (reverse_proxy_run sf js url config input s) =
    (case proxy_body sf js input of
       Ok b \<Rightarrow> send_all [proxy_response url b (parse_proxy_config config)] s
     | _ \<Rightarrow> s)"
  by (simp add: reverse_proxy_run_def send_all_def split: prod.splits outcome.splits)

lemma map_ok_query: "map_ok m \<Longrightarrow> map_ok (foldl query_step m r)"
  by (induction r arbitrary: m) (auto simp: query_step_def split: option.splits)

text \<open>Reading a body that arrives whole, whatever the pieces.\<close>

lemma collect_reads_pieces:
  assumes "\<forall>b\<in>set bs. b \<noteq> []"
  shows "collect_reads (map ReadOk bs) = concat bs" "collect_reads (map ReadOk bs @ ReadOk [] # rs) = concat bs"
    "collect_reads (map ReadOk bs @ ReadErr e # rs) = concat bs"
  using assms by (induction bs) auto

end
