(* ===== verification/Worker.thy ===== *)
theory Worker
  imports Request Special_Response
begin

text \<open>
  Evaluating one request (\<open>src/worker.rs\<close>): a thread runs the script's closure, decides the content
  type, hands the body to the handler through a one-shot channel and, for a stream, feeds the
  chunks one by one. The engine is an argument: what a run of the closure returns and what its
  commands did to the response slot.
\<close>

type_synonym pipeline_result = "string option \<times> http_response_meta \<times> response_transport"

text \<open>
  What the thread uses of the outside: running the closure on the request and its body, the text of
  a shell error (\<open>format_cli_error\<close>), the display of floats and the JSON serialiser.
\<close>

record script_engine =
  en_run :: "nu_value \<Rightarrow> pipeline_data \<Rightarrow> response_slot \<Rightarrow> (string, pipeline_data) outcome \<times> response_slot"
  en_format_error :: "shell_error \<Rightarrow> string"
  en_json_str :: "json \<Rightarrow> string option"
  en_show_f64 :: "f64 \<Rightarrow> string"

text \<open>The channels, the log and the job table as the thread changes them.\<close>

record worker =
  wk_slot :: response_slot
  wk_body :: "pipeline_result oneshot"
  wk_chunks :: "bytes list"
  wk_log :: "string list"
  wk_jobs :: "nat set"

section \<open>Content type\<close>

fun is_jsonl_record :: "nu_value \<Rightarrow> bool" where
  "is_jsonl_record (VRecord val) = (rec_get val ''__html'' = None)"
| "is_jsonl_record _ = False"

definition inferred_content_type :: "pipeline_data \<Rightarrow> string option" where
  "inferred_content_type output =
     (case output of
        PValue v meta \<Rightarrow>
          (case v of
             VRecord val \<Rightarrow>
               if meta_content_type meta = None
               then Some (if rec_get val ''__html'' \<noteq> None then ''text/html; charset=utf-8'' else ''application/json'')
               else meta_content_type meta
           | VList vs \<Rightarrow>
               if meta_content_type meta = None then Some ''application/json'' else meta_content_type meta
           | VBinary b \<Rightarrow>
               if meta_content_type meta = None then Some ''application/octet-stream'' else meta_content_type meta
           | _ \<Rightarrow> meta_content_type meta)
      | PListStream vs meta \<Rightarrow> meta_content_type meta
      | _ \<Rightarrow> None)"

section \<open>Sending the body\<close>

definition send_body :: "pipeline_result \<Rightarrow> worker \<Rightarrow> worker" where
  "send_body p w = w\<lparr>wk_body := Sent p\<rparr>"

definition log_error :: "string \<Rightarrow> worker \<Rightarrow> worker" where
  "log_error e w = w\<lparr>wk_log := wk_log w @ [e]\<rparr>"

text \<open>
  \<open>stream_tx.blocking_send\<close>: \<open>accepts n\<close> tells whether the receiver is still there for the chunk
  after the first \<open>n\<close>.
\<close>

definition send_chunk :: "(nat \<Rightarrow> bool) \<Rightarrow> bytes \<Rightarrow> worker \<Rightarrow> bool \<times> worker" where
  "send_chunk accepts b w =
     (if accepts (length (wk_chunks w)) then (True, w\<lparr>wk_chunks := wk_chunks w @ [b]\<rparr>) else (False, w))"

definition stream_bytes :: "script_engine \<Rightarrow> bool \<Rightarrow> nu_value \<Rightarrow> (string, bytes) outcome" where
  "stream_bytes E use_jsonl value =
     (if use_jsonl then
        obind (value_to_json value) (\<lambda>j. Ok ((case en_json_str E j of Some s \<Rightarrow> s | None \<Rightarrow> []) @ [newline]))
      else value_to_bytes (en_show_f64 E) (en_json_str E) value)"

fun as_error :: "nu_value \<Rightarrow> shell_error option" where
  "as_error (VError error) = Some error"
| "as_error _ = None"

text \<open>
  The first value and the remaining ones go the same way: an error value ends the stream after it
  is logged, a gone receiver ends it silently.
\<close>

fun stream_values :: "script_engine \<Rightarrow> (nat \<Rightarrow> bool) \<Rightarrow> bool \<Rightarrow> nu_value list \<Rightarrow> worker \<Rightarrow>
    (string, unit) outcome \<times> worker" where
  "stream_values E accepts use_jsonl [] w = (Ok (), w)"
| "stream_values E accepts use_jsonl (v # vs) w =
     (case as_error v of
        Some error \<Rightarrow> (Ok (), log_error (en_format_error E error) w)
      | None \<Rightarrow>
          (case stream_bytes E use_jsonl v of
             Err e \<Rightarrow> (Err e, w)
           | Panic m \<Rightarrow> (Panic m, w)
           | Ok b \<Rightarrow>
               (case send_chunk accepts b w of
                  (sent, w') \<Rightarrow> if sent then stream_values E accepts use_jsonl vs w' else (Ok (), w'))))"

fun stream_reads :: "script_engine \<Rightarrow> (nat \<Rightarrow> bool) \<Rightarrow> read_result list \<Rightarrow> worker \<Rightarrow> (string, unit) outcome \<times> worker" where
  "stream_reads E accepts [] w = (Ok (), w)"
| "stream_reads E accepts (ReadOk b # rs) w =
     (if b = [] then (Ok (), w)
      else (case send_chunk accepts b w of
              (sent, w') \<Rightarrow> if sent then stream_reads E accepts rs w' else (Ok (), w')))"
| "stream_reads E accepts (ReadErr (IoShell e) # rs) w = (Ok (), log_error (en_format_error E e) w)"
| "stream_reads E accepts (ReadErr (IoOther s) # rs) w = (Err s, w)"

section \<open>Evaluating the closure\<close>

text \<open>
  \<open>inner\<close>. The body sender is its own: if it is dropped unused, by an error or a panic, the channel
  closes. A panic of the closure also leaves the slot set until the thread ends.
\<close>

definition drop_body :: "worker \<Rightarrow> worker" where
  "drop_body w = (if wk_body w = Waiting then w\<lparr>wk_body := Dropped\<rparr> else w)"

definition send_output :: "script_engine \<Rightarrow> (nat \<Rightarrow> bool) \<Rightarrow> pipeline_data \<Rightarrow> worker \<Rightarrow> (string, unit) outcome \<times> worker" where
  "send_output E accepts output w =
     (case output of
        PEmpty \<Rightarrow> (Ok (), send_body (inferred_content_type output, default_response_meta, TEmpty) w)
      | PValue v meta \<Rightarrow>
          (case v of
             VNothing \<Rightarrow>
               (Ok (), send_body (inferred_content_type output, extract_http_response_meta meta, TEmpty) w)
           | VError error \<Rightarrow> (Err (en_format_error E error), w)
           | _ \<Rightarrow>
               (case value_to_bytes (en_show_f64 E) (en_json_str E) v of
                  Err e \<Rightarrow> (Err e, w)
                | Panic m \<Rightarrow> (Panic m, w)
                | Ok b \<Rightarrow>
                    (Ok (), send_body (inferred_content_type output, extract_http_response_meta meta, TFull b) w)))
      | PListStream vs meta \<Rightarrow>
          let use_jsonl = (case vs of [] \<Rightarrow> False | v # _ \<Rightarrow> is_jsonl_record v);
              ct = (if use_jsonl then Some ''application/x-ndjson'' else inferred_content_type output)
          in stream_values E accepts use_jsonl vs
               (send_body (ct, extract_http_response_meta meta, TStream []) w)
      | PByteStream stream meta \<Rightarrow>
          let ct = (case meta_content_type meta of Some c \<Rightarrow> Some c | None \<Rightarrow> Some ''application/octet-stream'');
              w' = send_body (ct, extract_http_response_meta meta, TStream []) w
          in (case stream of
                None \<Rightarrow> (Err ''ByteStream has no reader'', w')
              | Some reads \<Rightarrow> stream_reads E accepts reads w'))"

definition inner :: "script_engine \<Rightarrow> (nat \<Rightarrow> bool) \<Rightarrow> nu_value \<Rightarrow> byte_stream \<Rightarrow> worker \<Rightarrow>
    (string, unit) outcome \<times> worker" where
  "inner E accepts request stream w =
     (case en_run E request (PByteStream stream None) ((wk_slot w)\<lparr>slot_tx := True\<rparr>) of
        (Panic m, s) \<Rightarrow> (Panic m, drop_body (w\<lparr>wk_slot := s\<rparr>))
      | (Err e, s) \<Rightarrow> (Err e, drop_body (w\<lparr>wk_slot := clear_slot s\<rparr>))
      | (Ok output, s) \<Rightarrow>
          (case send_output E accepts output (w\<lparr>wk_slot := clear_slot s\<rparr>) of
             (res, w') \<Rightarrow> (res, drop_body w')))"

section \<open>The thread\<close>

text \<open>
  \<open>job_thread\<close> is the body of the spawned thread. \<open>meta_tx_opt\<close> and \<open>body_tx_opt\<close> hold the senders
  until they are taken for the call of \<open>inner\<close>; the pair of flags tells which are left.
\<close>

record senders =
  meta_tx_opt :: bool
  body_tx_opt :: bool

definition panic_text :: string where
  "panic_text = ''panic: Any { .. }''"

definition error_result :: "string \<Rightarrow> pipeline_result" where
  "error_result err =
     (Some ''text/plain; charset=utf-8'', \<lparr>meta_status = Some 500, meta_headers = []\<rparr>, TFull (''Script error: '' @ err))"

definition report_error :: "string \<Rightarrow> senders \<Rightarrow> worker \<Rightarrow> worker" where
  "report_error err tx w =
     (let w1 = log_error err w;
          w2 = (if meta_tx_opt tx then w1\<lparr>wk_slot := clear_slot (wk_slot w1)\<rparr> else w1)
      in if body_tx_opt tx then send_body (error_result err) w2 else w2)"

definition job_thread :: "script_engine \<Rightarrow> (nat \<Rightarrow> bool) \<Rightarrow> nu_value \<Rightarrow> byte_stream \<Rightarrow> nat \<Rightarrow> worker \<Rightarrow> worker" where
  "job_thread E accepts request stream job_id w =
     (let tx = \<lparr>meta_tx_opt = True, body_tx_opt = True\<rparr>;
          taken = tx\<lparr>meta_tx_opt := False, body_tx_opt := False\<rparr>
      in case inner E accepts request stream w of
           (result, w1) \<Rightarrow>
             let w2 = (case result of
                         Ok _ \<Rightarrow> w1
                       | Err e \<Rightarrow> report_error e taken w1
                       | Panic m \<Rightarrow> report_error panic_text taken w1)
             in w2\<lparr>wk_jobs := wk_jobs w2 - {job_id}, wk_slot := clear_slot (wk_slot w2)\<rparr>)"

definition spawn_eval_thread :: "script_engine \<Rightarrow> (nat \<Rightarrow> bool) \<Rightarrow> nu_value \<Rightarrow> byte_stream \<Rightarrow> nat \<Rightarrow> nat set \<Rightarrow> worker" where
  "spawn_eval_thread E accepts request stream job_id jobs =
     job_thread E accepts request stream job_id
       \<lparr>wk_slot = \<lparr>slot_tx = False, slot_rx = True, slot_chan = Waiting\<rparr>, wk_body = Waiting, wk_chunks = [],
        wk_log = [], wk_jobs = insert job_id jobs\<rparr>"

text \<open>What the two receivers get in the end; the chunks are those of the stream's channel.\<close>

definition received_meta :: "worker \<Rightarrow> response option" where
  "received_meta w = (case slot_chan (wk_slot w) of Sent r \<Rightarrow> Some r | _ \<Rightarrow> None)"

definition received_body :: "worker \<Rightarrow> pipeline_result option" where
  "received_body w =
     (case wk_body w of
        Sent (ct, meta, body) \<Rightarrow> Some (ct, meta, case body of TStream _ \<Rightarrow> TStream (wk_chunks w) | b \<Rightarrow> b)
      | _ \<Rightarrow> None)"

section \<open>Laws\<close>

lemma send_chunk_simps:
  "wk_slot (snd (send_chunk accepts b w)) = wk_slot w" "wk_body (snd (send_chunk accepts b w)) = wk_body w"
  "wk_log (snd (send_chunk accepts b w)) = wk_log w" "wk_jobs (snd (send_chunk accepts b w)) = wk_jobs w"
  by (simp_all add: send_chunk_def)

lemma stream_values_frame:
  "wk_slot (snd (stream_values E accepts j vs w)) = wk_slot w"
  "wk_body (snd (stream_values E accepts j vs w)) = wk_body w"
  "wk_jobs (snd (stream_values E accepts j vs w)) = wk_jobs w"
  by (induction vs arbitrary: w)
    (simp_all add: log_error_def send_chunk_def split: option.splits outcome.splits)

lemma stream_reads_frame:
  "wk_slot (snd (stream_reads E accepts rs w)) = wk_slot w"
  "wk_body (snd (stream_reads E accepts rs w)) = wk_body w"
  "wk_jobs (snd (stream_reads E accepts rs w)) = wk_jobs w"
  by (induction E accepts rs w rule: stream_reads.induct) (simp_all add: log_error_def send_chunk_def)

lemma send_output_frame:
  "wk_slot (snd (send_output E accepts output w)) = wk_slot w"
  "wk_jobs (snd (send_output E accepts output w)) = wk_jobs w"
  by (simp_all add: send_output_def send_body_def Let_def stream_values_frame stream_reads_frame
    split: pipeline_data.split nu_value.split outcome.split option.split)

lemma drop_body_simps [simp]:
  "wk_slot (drop_body w) = wk_slot w" "wk_jobs (drop_body w) = wk_jobs w"
  "wk_chunks (drop_body w) = wk_chunks w" "wk_log (drop_body w) = wk_log w"
  "wk_body (drop_body w) = (if wk_body w = Waiting then Dropped else wk_body w)"
  by (simp_all add: drop_body_def)

lemma report_error_taken:
  "report_error err \<lparr>meta_tx_opt = False, body_tx_opt = False\<rparr> w = log_error err w"
  by (simp add: report_error_def)

lemma clear_slot_idem [simp]: "clear_slot (clear_slot s) = clear_slot s"
  by (simp add: clear_slot_def)

lemma inner_frame:
  "clear_slot (wk_slot (snd (inner E accepts request stream w))) =
    clear_slot (snd (en_run E request (PByteStream stream None) ((wk_slot w)\<lparr>slot_tx := True\<rparr>)))"
  "wk_jobs (snd (inner E accepts request stream w)) = wk_jobs w"
  by (simp_all add: inner_def send_output_frame split: prod.split outcome.split)
    (metis (no_types, lifting) clear_slot_idem select_convs(1) send_output_frame snd_conv surjective
      update_convs(1) worker.select_convs worker.surjective worker.update_convs)+

text \<open>How the thread ends, in terms of \<open>inner\<close>: the error branch finds no sender left.\<close>

definition thread_log :: "(string, unit) outcome \<Rightarrow> string list" where
  "thread_log res = (case res of Ok _ \<Rightarrow> [] | Err e \<Rightarrow> [e] | Panic m \<Rightarrow> [panic_text])"

lemma job_thread_eq:
  "job_thread E accepts request stream job_id w =
    (case inner E accepts request stream w of
       (res, w1) \<Rightarrow> w1\<lparr>wk_log := wk_log w1 @ thread_log res, wk_jobs := wk_jobs w1 - {job_id},
         wk_slot := clear_slot (wk_slot w1)\<rparr>)"
  by (simp add: job_thread_def report_error_taken log_error_def thread_log_def Let_def split: prod.split outcome.split)

definition fresh_worker :: "nat \<Rightarrow> nat set \<Rightarrow> worker" where
  "fresh_worker job_id jobs =
     \<lparr>wk_slot = \<lparr>slot_tx = False, slot_rx = True, slot_chan = Waiting\<rparr>, wk_body = Waiting, wk_chunks = [],
      wk_log = [], wk_jobs = insert job_id jobs\<rparr>"

lemma spawn_slot:
  "slot_chan (wk_slot (spawn_eval_thread E accepts request stream job_id jobs)) =
    slot_chan (clear_slot (snd (en_run E request (PByteStream stream None) armed)))"
  using inner_frame(1) [of E accepts request stream "fresh_worker job_id jobs"]
  by (cases "inner E accepts request stream (fresh_worker job_id jobs)")
    (simp add: spawn_eval_thread_def job_thread_eq fresh_worker_def armed_def)

lemma spawn_jobs:
  "wk_jobs (spawn_eval_thread E accepts request stream job_id jobs) = jobs - {job_id}"
  using inner_frame(2) [of E accepts request stream "fresh_worker job_id jobs"]
  by (cases "inner E accepts request stream (fresh_worker job_id jobs)")
    (simp add: spawn_eval_thread_def job_thread_eq fresh_worker_def)

text \<open>The chunks a stream of values delivers, when nobody hangs up.\<close>

fun stream_outputs :: "script_engine \<Rightarrow> bool \<Rightarrow> nu_value list \<Rightarrow> bytes list" where
  "stream_outputs E use_jsonl [] = []"
| "stream_outputs E use_jsonl (v # vs) =
     (case as_error v of
        Some e \<Rightarrow> []
      | None \<Rightarrow> (case stream_bytes E use_jsonl v of Ok b \<Rightarrow> b # stream_outputs E use_jsonl vs | _ \<Rightarrow> []))"

text \<open>The text of one line, and the lines of a stream of records.\<close>

definition json_line :: "script_engine \<Rightarrow> nu_value \<Rightarrow> string" where
  "json_line E v =
     (case value_to_json v of Ok j \<Rightarrow> (case en_json_str E j of Some s \<Rightarrow> s | None \<Rightarrow> []) | _ \<Rightarrow> [])"

lemma as_error_not_jsonable: "as_error v = Some e \<Longrightarrow> \<not> jsonable v"
  by (cases v) auto

lemma stream_outputs_jsonl:
  "stream_outputs E True vs = map (\<lambda>v. json_line E v @ [newline]) (takeWhile jsonable vs)"
proof (induction vs)
  case (Cons v vs)
  then show ?case using value_to_json_panics(1) [of v] as_error_not_jsonable [of v]
    by (cases "value_to_json v"; cases "as_error v") (simp_all add: stream_bytes_def json_line_def)
qed simp

lemma json_line_no_newline:
  "(\<And>j s. en_json_str E j = Some s \<Longrightarrow> newline \<notin> set s) \<Longrightarrow> newline \<notin> set (json_line E v)"
  by (auto simp: json_line_def split: outcome.splits option.splits)

lemma stream_values_chunks:
  "length (wk_chunks w) \<le> k \<Longrightarrow>
    wk_chunks (snd (stream_values E (\<lambda>n. n < k) j vs w)) =
      wk_chunks w @ take (k - length (wk_chunks w)) (stream_outputs E j vs)"
proof (induction vs arbitrary: w)
  case (Cons v vs)
  then show ?case
    by (cases "k - length (wk_chunks w)")
      (auto simp: log_error_def send_chunk_def diff_Suc split: option.splits outcome.splits)
qed simp

lemma stream_reads_chunks:
  "concat (wk_chunks (snd (stream_reads E (\<lambda>n. True) rs w))) = concat (wk_chunks w) @ collect_reads rs"
  by (induction E "\<lambda>n::nat. True" rs w rule: stream_reads.induct) (simp_all add: log_error_def send_chunk_def)

lemma send_output_body:
  "wk_body (snd (send_output E accepts (PListStream vs meta) w)) =
    Sent (if vs \<noteq> [] \<and> is_jsonl_record (hd vs) then Some ''application/x-ndjson'' else meta_content_type meta,
      extract_http_response_meta meta, TStream [])"
  by (cases vs)
    (simp_all add: send_output_def Let_def stream_values_frame send_body_def inferred_content_type_def
      del: stream_values.simps)

lemma spawn_eval_thread_Ok:
  assumes "fst (en_run E request (PByteStream stream None) armed) = Ok output"
    and "send_output E accepts output ((fresh_worker job_id jobs)
      \<lparr>wk_slot := clear_slot (snd (en_run E request (PByteStream stream None) armed))\<rparr>) = (res, w)"
  shows "wk_body (spawn_eval_thread E accepts request stream job_id jobs) =
      (if wk_body w = Waiting then Dropped else wk_body w)"
    "wk_chunks (spawn_eval_thread E accepts request stream job_id jobs) = wk_chunks w"
    "wk_log (spawn_eval_thread E accepts request stream job_id jobs) = wk_log w @ thread_log res"
  using assms
  by (cases "en_run E request (PByteStream stream None) armed";
      simp add: spawn_eval_thread_def job_thread_eq inner_def fresh_worker_def armed_def)+

lemma byte_stream_handed_over:
  assumes "fst (en_run E request (PByteStream stream None) armed) = Ok (PByteStream (Some reads) meta)"
  shows "\<exists>chunks. received_body (spawn_eval_thread E (\<lambda>n. True) request stream job_id jobs) =
      Some (Some (case meta_content_type meta of Some c \<Rightarrow> c | None \<Rightarrow> ''application/octet-stream''),
        extract_http_response_meta meta, TStream chunks) \<and>
    concat chunks = collect_reads reads"
proof -
  obtain res w where out: "send_output E (\<lambda>n. True) (PByteStream (Some reads) meta) ((fresh_worker job_id jobs)
      \<lparr>wk_slot := clear_slot (snd (en_run E request (PByteStream stream None) armed))\<rparr>) = (res, w)" by fastforce
  have "concat (wk_chunks w) = collect_reads reads"
    using arg_cong [OF out, of "\<lambda>p. concat (wk_chunks (snd p))"]
    by (simp add: send_output_def send_body_def fresh_worker_def stream_reads_chunks Let_def)
  moreover have "wk_body w = Sent (Some (case meta_content_type meta of Some c \<Rightarrow> c | None \<Rightarrow> ''application/octet-stream''),
      extract_http_response_meta meta, TStream [])"
    using arg_cong [OF out, of "\<lambda>p. wk_body (snd p)"]
    by (cases "meta_content_type meta") (simp_all add: send_output_def send_body_def Let_def stream_reads_frame)
  ultimately show ?thesis using spawn_eval_thread_Ok [OF assms(1) out] by (simp add: received_body_def)
qed

text \<open>An engine for the examples; its serialiser knows strings and one-column records.\<close>

fun string_json :: "json \<Rightarrow> string option" where
  "string_json (JString s) = Some (''\"'' @ s @ ''\"'')"
| "string_json (JArray js) = Some ''[]''"
| "string_json (JObject m) = (case m ''a'' of Some (JString s) \<Rightarrow> Some (''{a:'' @ s @ ''}'') | _ \<Rightarrow> Some ''{}'')"
| "string_json j = Some ''null''"

definition test_engine :: "response list \<Rightarrow> (string, pipeline_data) outcome \<Rightarrow> script_engine" where
  "test_engine rs output = \<lparr>en_run = (\<lambda>request input s. (output, send_all rs s)),
     en_format_error = type_name \<circ> VError, en_json_str = map_option (filter (\<lambda>c. c \<noteq> newline)) \<circ> string_json, en_show_f64 = (\<lambda>f. ''0'')\<rparr>"

section \<open>Properties\<close>

text \<open>
  If a script's commands answered through the response slot, the handler gets the first of the
  answers and no other; if none did, it learns that there is none. This holds however the script
  ends: with a value, an error or a panic.
\<close>

theorem special_response_first:
  assumes "snd (en_run E request (PByteStream stream None) armed) = send_all rs armed"
  shows "received_meta (spawn_eval_thread E accepts request stream job_id jobs) =
    (case rs of [] \<Rightarrow> None | r # _ \<Rightarrow> Some r)"
  by (simp add: received_meta_def spawn_slot assms clear_slot_armed split: list.split)

theorem special_response_first_witness:
  "received_meta (spawn_eval_thread (test_engine [static_response ''/a'' ''b'' None, static_response ''/c'' ''d'' None] (Err ''x''))
      (\<lambda>n. True) VNothing None 1 {}) = Some (static_response ''/a'' ''b'' None)"
  by (subst special_response_first [of _ _ _ "[static_response ''/a'' ''b'' None, static_response ''/c'' ''d'' None]"])
    (simp_all add: test_engine_def)

text \<open>
  When the closure fails or panics, the handler gets no body at all and the error is logged
  once. The branch that would send the 500 response with the text of the error never runs: the
  sender it needs was moved into the evaluation.
\<close>

theorem failed_script_sends_nothing:
  assumes "fst (en_run E request (PByteStream stream None) armed) = res" "\<And>output. res \<noteq> Ok output"
  shows "received_body (spawn_eval_thread E accepts request stream job_id jobs) = None \<and>
    wk_log (spawn_eval_thread E accepts request stream job_id jobs) =
      [case res of Err e \<Rightarrow> e | _ \<Rightarrow> ''panic: Any { .. }'']"
  using assms
  by (cases "en_run E request (PByteStream stream None) armed"; cases res)
    (auto simp: spawn_eval_thread_def job_thread_eq inner_def received_body_def armed_def thread_log_def panic_text_def)

theorem failed_script_sends_nothing_witness:
  "let w = spawn_eval_thread (test_engine [] (Err ''boom'')) (\<lambda>n. True) VNothing None 1 {}
   in received_body w = None \<and> wk_log w = [''boom'']"
  unfolding Let_def
  using failed_script_sends_nothing [of "test_engine [] (Err ''boom'')" VNothing None "Err ''boom''"]
  by (simp add: test_engine_def)

text \<open>
  C31. A list stream that starts with a record without \<open>__html\<close> is sent as JSON lines, whatever
  content type its metadata had: one line for each value, in order, up to the first error value
  (which is logged) or the first that has no JSON form, as far as the client keeps reading
  (\<open>k\<close> chunks); the lines of the bytes sent are the serialised values.
\<close>

theorem record_stream_is_ndjson:
  assumes "fst (en_run E request (PByteStream stream None) armed) = Ok (PListStream vs meta)"
    and "vs \<noteq> []" "is_jsonl_record (hd vs)"
    and "\<And>j s. en_json_str E j = Some s \<Longrightarrow> newline \<notin> set s"
  shows "\<exists>chunks. received_body (spawn_eval_thread E (\<lambda>n. n < k) request stream job_id jobs) =
      Some (Some ''application/x-ndjson'', extract_http_response_meta meta, TStream chunks) \<and>
    split_on newline (concat chunks) = take k (map (json_line E) (takeWhile jsonable vs)) @ [[]]"
proof -
  obtain res w where out: "send_output E (\<lambda>n. n < k) (PListStream vs meta) ((fresh_worker job_id jobs)
      \<lparr>wk_slot := clear_slot (snd (en_run E request (PByteStream stream None) armed))\<rparr>) = (res, w)" by fastforce
  have "(case vs of [] \<Rightarrow> False | v # _ \<Rightarrow> is_jsonl_record v)" using assms(2,3) by (cases vs) auto
  then have chunks: "wk_chunks w = take k (stream_outputs E True vs)"
    using arg_cong [OF out, of "\<lambda>p. wk_chunks (snd p)"]
    by (simp add: send_output_def send_body_def fresh_worker_def stream_values_chunks)
  have "split_on newline (concat (wk_chunks w)) = take k (map (json_line E) (takeWhile jsonable vs)) @ [[]]"
    using assms(4)
    by (simp add: chunks stream_outputs_jsonl take_map split_on_terminated json_line_no_newline)
  moreover have "wk_body w = Sent (Some ''application/x-ndjson'', extract_http_response_meta meta, TStream [])"
    using arg_cong [OF out, of "\<lambda>p. wk_body (snd p)"] assms(2,3) by (simp add: send_output_body)
  ultimately show ?thesis using spawn_eval_thread_Ok [OF assms(1) out] by (simp add: received_body_def)
qed

theorem record_stream_is_ndjson_witness:
  "\<exists>chunks. received_body (spawn_eval_thread (test_engine [] (Ok (PListStream
        [VRecord [(''a'', VString ''x'')], VString ''y'', VBinary ''z'', VNothing] (Some default_metadata))))
      (\<lambda>n. n < 9) VNothing None 1 {}) =
      Some (Some ''application/x-ndjson'', default_response_meta, TStream chunks) \<and>
    split_on newline (concat chunks) = [''{a:x}'', ''\"y\"'', []]"
proof -
  let ?vs = "[VRecord [(''a'', VString ''x'')], VString ''y'', VBinary ''z'', VNothing]"
  let ?E = "test_engine [] (Ok (PListStream ?vs (Some default_metadata)))"
  have "fst (en_run ?E VNothing (PByteStream None None) armed) = Ok (PListStream ?vs (Some default_metadata))"
    by (simp add: test_engine_def)
  moreover have "is_jsonl_record (hd ?vs)" by (simp add: rec_get_def)
  moreover have "newline \<notin> set s" if "en_json_str ?E j = Some s" for j s
    using that by (auto simp: test_engine_def)
  moreover have "map (json_line ?E) (takeWhile jsonable ?vs) = [''{a:x}'', ''\"y\"'']" by code_simp
  moreover have "extract_http_response_meta (Some default_metadata) = default_response_meta" by code_simp
  ultimately show ?thesis
    using record_stream_is_ndjson [of ?E VNothing None ?vs "Some default_metadata" 9 1 "{}"] by simp
qed

text \<open>
  A byte stream is relayed whole and in order: the chunks of the body are the reads, up to the
  end or the first error, and the content type is the one of its metadata or
  \<open>application/octet-stream\<close>.
\<close>

theorem byte_stream_relayed:
  assumes "fst (en_run E request (PByteStream stream None) armed) = Ok (PByteStream (Some reads) meta)"
  shows "\<exists>chunks. received_body (spawn_eval_thread E (\<lambda>n. True) request stream job_id jobs) =
      Some (Some (case meta_content_type meta of Some c \<Rightarrow> c | None \<Rightarrow> ''application/octet-stream''),
        extract_http_response_meta meta, TStream chunks) \<and>
    concat chunks = collect_reads reads"
  using assms by (rule byte_stream_handed_over)

theorem byte_stream_relayed_witness:
  "\<exists>chunks. received_body (spawn_eval_thread (test_engine [] (Ok (PByteStream
        (Some [ReadOk ''ab'', ReadOk ''c'', ReadErr (IoOther ''e''), ReadOk ''d'']) None))) (\<lambda>n. True) VNothing None 1 {}) =
      Some (Some ''application/octet-stream'', default_response_meta, TStream chunks) \<and> concat chunks = ''abc''"
proof -
  let ?reads = "[ReadOk ''ab'', ReadOk ''c'', ReadErr (IoOther ''e''), ReadOk ''d'']"
  let ?E = "test_engine [] (Ok (PByteStream (Some ?reads) None))"
  have "fst (en_run ?E VNothing (PByteStream None None) armed) = Ok (PByteStream (Some ?reads) None)"
    by (simp add: test_engine_def)
  from byte_stream_relayed [OF this, of 1 "{}"] show ?thesis
    by (simp add: extract_http_response_meta_def)
qed

text \<open>
  A single value is sent whole, with the content type of the table in the source: that of its
  metadata; else by its shape. Nothing is logged, and the job is off the table.
\<close>

theorem value_body_sent:
  assumes "fst (en_run E request (PByteStream stream None) armed) = Ok (PValue v meta)"
    and "v \<noteq> VNothing" "as_error v = None" "value_to_bytes (en_show_f64 E) (en_json_str E) v = Ok b"
  shows "let w = spawn_eval_thread E accepts request stream job_id jobs in
    received_body w = Some
      (case meta_content_type meta of
         Some c \<Rightarrow> Some c
       | None \<Rightarrow>
           (case v of
              VRecord r \<Rightarrow> Some (if rec_get r ''__html'' = None then ''application/json'' else ''text/html; charset=utf-8'')
            | VList vs \<Rightarrow> Some ''application/json''
            | VBinary b \<Rightarrow> Some ''application/octet-stream''
            | _ \<Rightarrow> None),
       extract_http_response_meta meta, TFull b) \<and>
    wk_log w = [] \<and> job_id \<notin> wk_jobs w"
proof -
  have "send_output E accepts (PValue v meta) u =
      (Ok (), send_body (inferred_content_type (PValue v meta), extract_http_response_meta meta, TFull b) u)" for u
    using assms(2-4) by (cases v) (simp_all add: send_output_def)
  then show ?thesis
    using spawn_eval_thread_Ok [OF assms(1), of accepts job_id jobs]
    by (cases v)
      (simp_all add: received_body_def send_body_def fresh_worker_def thread_log_def spawn_jobs
        inferred_content_type_def Let_def split: option.split)
qed

theorem value_body_sent_witness:
  "received_body (spawn_eval_thread (test_engine [] (Ok (PValue (VRecord [(''__html'', VString ''<p>'')]) None)))
      (\<lambda>n. True) VNothing None 1 {}) =
    Some (Some ''text/html; charset=utf-8'', default_response_meta, TFull ''<p>'')"
  using value_body_sent [of "test_engine [] (Ok (PValue (VRecord [(''__html'', VString ''<p>'')]) None))" VNothing None
      "VRecord [(''__html'', VString ''<p>'')]" None "''<p>''" "\<lambda>n. True" 1 "{}"]
  by (simp add: test_engine_def value_to_bytes_def rec_get_def extract_http_response_meta_def Let_def)

end
