(* ===== verification/Markdown.thy ===== *)
theory Markdown
  imports Nu_Value
begin

text \<open>
  Markdown and highlighting: the commands \<open>.md\<close>, \<open>.highlight\<close>, \<open>.highlight theme\<close> and \<open>.highlight lang\<close>
  (\<open>src/commands.rs\<close>). The Markdown parser and the HTML writer are pulldown\_cmark's, the highlighter
  syntect's, the escaping of the language v\_htmlescape's: arguments. What the program adds is the map
  over the parser's events, with the code block it is in as its state.
\<close>

section \<open>Highlighting\<close>

text \<open>
  \<open>hl_lines\<close>: syntect's \<open>LinesWithEndings\<close>; \<open>hl_html\<close>: what the generator for a syntax is finalised to
  after it was fed these lines, each whether it parsed or not.
\<close>

record 's syntax_set =
  find_syntax_by_token :: "string \<Rightarrow> 's option"
  find_syntax_by_extension :: "string \<Rightarrow> 's option"
  find_syntax_plain_text :: 's
  hl_lines :: "string \<Rightarrow> string list"
  hl_html :: "'s \<Rightarrow> string list \<Rightarrow> string"
  syntaxes :: "'s list"
  syntax_name :: "'s \<Rightarrow> string"
  syntax_extensions :: "'s \<Rightarrow> string list"

definition highlight_syntax :: "'s syntax_set \<Rightarrow> string option \<Rightarrow> 's" where
  "highlight_syntax S lang =
     (case (case lang of
              Some l \<Rightarrow> (case find_syntax_by_token S l of Some x \<Rightarrow> Some x | None \<Rightarrow> find_syntax_by_extension S l)
            | None \<Rightarrow> None) of
        Some x \<Rightarrow> x
      | None \<Rightarrow> find_syntax_plain_text S)"

definition highlight :: "'s syntax_set \<Rightarrow> string \<Rightarrow> string option \<Rightarrow> string" where
  "highlight S code lang = hl_html S (highlight_syntax S lang) (hl_lines S code)"

definition list_syntaxes :: "'s syntax_set \<Rightarrow> (string \<times> string list) list" where
  "list_syntaxes S = map (\<lambda>s. (syntax_name S s, syntax_extensions S s)) (syntaxes S)"

text \<open>What nushell computes of the input: the conversions of pipeline data, and the name of a type.\<close>

record nu_input =
  ni_into_value :: "pipeline_data \<Rightarrow> (shell_error, nu_value) outcome"
  ni_into_string :: "byte_stream \<Rightarrow> (shell_error, string) outcome"
  ni_as_str_error :: "nu_value \<Rightarrow> shell_error"
  ni_type :: "nu_value \<Rightarrow> string"

definition html_record :: "string \<Rightarrow> pipeline_data" where
  "html_record html = PValue (VRecord [(''__html'', VString html)]) None"

definition highlight_run :: "'s syntax_set \<Rightarrow> nu_input \<Rightarrow> string \<Rightarrow> pipeline_data \<Rightarrow> (shell_error, pipeline_data) outcome" where
  "highlight_run S N lang input =
     obind (case input of
              PValue v _ \<Rightarrow> (case v of VString s \<Rightarrow> Ok s | _ \<Rightarrow> Err (TypeMismatch ''expected string input''))
            | PByteStream stream _ \<Rightarrow> ni_into_string N stream
            | _ \<Rightarrow> Err (TypeMismatch ''expected string input'')) (\<lambda>code.
       Ok (html_record (highlight S code (Some lang))))"

definition highlight_lang_run :: "'s syntax_set \<Rightarrow> (shell_error, pipeline_data) outcome" where
  "highlight_lang_run S =
     Ok (PValue (VList (map (\<lambda>(name, exts). VRecord [(''name'', VString name), (''extensions'', VList (map VString exts))])
       (list_syntaxes S))) None)"

text \<open>The themes of syntect: their names, the theme of a name, and its style sheet.\<close>

record 't theme_assets =
  ta_themes :: "string list"
  ta_get_theme :: "string \<Rightarrow> 't"
  ta_css :: "'t \<Rightarrow> string + string"

definition highlight_theme_run :: "'t theme_assets \<Rightarrow> string option \<Rightarrow> (shell_error, pipeline_data) outcome" where
  "highlight_theme_run T name =
     (case name of
        None \<Rightarrow> Ok (PValue (VList (map VString (ta_themes T))) None)
      | Some theme_name \<Rightarrow>
          (case ta_css T (ta_get_theme T theme_name) of
             Inr css \<Rightarrow> Ok (PValue (VString css) None)
           | Inl e \<Rightarrow> Err (Generic (''Failed to generate CSS: '' @ e) e)))"

section \<open>Markdown events\<close>

text \<open>
  The events the map distinguishes; \<open>MOther\<close> stands for all others (tags, inline code, breaks, ...).
\<close>

datatype code_block_kind = Fenced string | Indented

datatype md_event =
    StartCode code_block_kind
  | EndCode
  | MText string
  | MHtml string
  | MInlineHtml string
  | MOther nat

text \<open>
  \<open>str::split_whitespace().next()\<close>: \<open>ws_length\<close> is the number of bytes of the white space character
  at the front of a string, zero for any other character.
\<close>

definition ws_two :: "nat \<Rightarrow> nat \<Rightarrow> bool" where
  "ws_two a b \<longleftrightarrow> a = 194 \<and> (b = 133 \<or> b = 160)"

definition ws_three :: "nat \<Rightarrow> nat \<Rightarrow> nat \<Rightarrow> bool" where
  "ws_three a b c \<longleftrightarrow>
     a = 225 \<and> b = 154 \<and> c = 128 \<or>
     a = 226 \<and> b = 128 \<and> (128 \<le> c \<and> c \<le> 138 \<or> c = 168 \<or> c = 169 \<or> c = 175) \<or>
     a = 226 \<and> b = 129 \<and> c = 159 \<or>
     a = 227 \<and> b = 128 \<and> c = 128"

definition ws_length :: "string \<Rightarrow> nat" where
  "ws_length s =
     (case map byte_of (take 3 s) of
        a # bs \<Rightarrow>
          if a = 32 \<or> 9 \<le> a \<and> a \<le> 13 then 1
          else (case bs of
                  b # cs \<Rightarrow>
                    if ws_two a b then 2
                    else (case cs of c # _ \<Rightarrow> if ws_three a b c then 3 else 0 | [] \<Rightarrow> 0)
                | [] \<Rightarrow> 0)
      | [] \<Rightarrow> 0)"

lemma ws_length_le: "ws_length s \<le> length s"
  by (cases s; cases "tl s"; cases "tl (tl s)") (auto simp: ws_length_def)

function skip_ws :: "string \<Rightarrow> string" where
  "skip_ws s = (if ws_length s = 0 then s else skip_ws (drop (ws_length s) s))"
  by auto
termination
proof (relation "measure length")
  fix s assume "ws_length s \<noteq> 0"
  then show "(drop (ws_length s) s, s) \<in> measure length" using ws_length_le [of s] by simp
qed simp

declare skip_ws.simps [simp del]

fun until_ws :: "string \<Rightarrow> string" where
  "until_ws [] = []"
| "until_ws (c # s) = (if ws_length (c # s) = 0 then c # until_ws s else [])"

text \<open>The first word, empty when there is none.\<close>

definition first_word :: "string \<Rightarrow> string" where
  "first_word s = until_ws (skip_ws s)"

definition code_lang :: "code_block_kind \<Rightarrow> string option" where
  "code_lang kind =
     (case kind of
        Fenced info \<Rightarrow> (let lang = first_word info in if lang = [] then None else Some lang)
      | Indented \<Rightarrow> None)"

record md_state =
  in_code_block :: bool
  current_code :: string
  current_lang :: "string option"

definition md_start :: md_state where
  "md_start = \<lparr>in_code_block = False, current_code = [], current_lang = None\<rparr>"

definition code_html :: "'s syntax_set \<Rightarrow> (string \<Rightarrow> string) \<Rightarrow> string \<Rightarrow> string option \<Rightarrow> string" where
  "code_html S escape code lang =
     ''<pre><code'' @
     (case lang of Some l \<Rightarrow> '' class='' @ [CHR 0x22] @ ''language-'' @ escape l @ [CHR 0x22] | None \<Rightarrow> []) @
     ''>'' @ highlight S code lang @ ''</code></pre>''"

text \<open>The closure mapped over the events.\<close>

definition md_event_step :: "'s syntax_set \<Rightarrow> (string \<Rightarrow> string) \<Rightarrow> bool \<Rightarrow> md_event \<Rightarrow> md_state \<Rightarrow> md_event \<times> md_state" where
  "md_event_step S escape trusted event st =
     (case event of
        StartCode kind \<Rightarrow>
          (MText [], \<lparr>in_code_block = True, current_code = [], current_lang = code_lang kind\<rparr>)
      | EndCode \<Rightarrow>
          (MHtml (code_html S escape (current_code st) (current_lang st)), st\<lparr>in_code_block := False\<rparr>)
      | MText text \<Rightarrow>
          if in_code_block st then (MText [], st\<lparr>current_code := current_code st @ text\<rparr>)
          else (MText text, st)
      | MHtml html \<Rightarrow> (if trusted then MHtml html else MText html, st)
      | MInlineHtml html \<Rightarrow> (if trusted then MInlineHtml html else MText html, st)
      | e \<Rightarrow> (e, st))"

fun md_map :: "'s syntax_set \<Rightarrow> (string \<Rightarrow> string) \<Rightarrow> bool \<Rightarrow> md_event list \<Rightarrow> md_state \<Rightarrow> md_event list" where
  "md_map S escape trusted [] st = []"
| "md_map S escape trusted (e # es) st =
     (case md_event_step S escape trusted e st of (e', st') \<Rightarrow> e' # md_map S escape trusted es st')"

text \<open>A string is untrusted Markdown, a record with \<open>__html\<close> trusted Markdown.\<close>

definition md_source :: "nu_input \<Rightarrow> nu_value \<Rightarrow> (shell_error, string \<times> bool) outcome" where
  "md_source N v =
     (case v of
        VString s \<Rightarrow> Ok (s, False)
      | VRecord r \<Rightarrow>
          (case rec_get r ''__html'' of
             Some html_val \<Rightarrow>
               obind (of_option (ni_as_str_error N html_val) (as_str html_val)) (\<lambda>s. Ok (s, True))
           | None \<Rightarrow> Err (TypeMismatch ''expected string or {__html: ...}''))
      | other \<Rightarrow> Err (TypeMismatch (''expected string or {__html: ...}, got '' @ ni_type N other)))"

text \<open>The extensions of Markdown the parser is asked for, in the order they are set.\<close>

datatype md_option = Enable_Tables | Enable_Strikethrough | Enable_Tasklists | Enable_Footnotes
  | Enable_Heading_Attributes | Enable_Gfm | Enable_Definition_List

definition md_options :: "md_option list" where
  "md_options = [Enable_Tables, Enable_Strikethrough, Enable_Tasklists, Enable_Footnotes, Enable_Heading_Attributes,
     Enable_Gfm, Enable_Definition_List]"

record 's markdown =
  mk_syntax :: "'s syntax_set"
  mk_escape :: "string \<Rightarrow> string"
  mk_parse :: "md_option list \<Rightarrow> string \<Rightarrow> md_event list"
  mk_push_html :: "md_event list \<Rightarrow> string"

definition md_run :: "'s markdown \<Rightarrow> nu_input \<Rightarrow> pipeline_data \<Rightarrow> (shell_error, pipeline_data) outcome" where
  "md_run K N input =
     obind (ni_into_value N input) (\<lambda>v.
     obind (md_source N v) (\<lambda>(markdown, trusted).
       Ok (html_record (mk_push_html K
         (md_map (mk_syntax K) (mk_escape K) trusted (mk_parse K md_options markdown) md_start)))))"

section \<open>Laws\<close>

lemma md_map_Cons:
  "md_map S escape trusted (e # es) st =
    fst (md_event_step S escape trusted e st) # md_map S escape trusted es (snd (md_event_step S escape trusted e st))"
  by (simp split: prod.split)

lemma md_map_append_texts:
  "in_code_block st \<Longrightarrow>
    md_map S escape trusted (map MText ts @ es) st =
      map (\<lambda>_. MText []) ts @ md_map S escape trusted es (st\<lparr>current_code := current_code st @ concat ts\<rparr>)"
  by (induction ts arbitrary: st) (simp_all add: md_event_step_def)

text \<open>The events of a document as plain events and code blocks, and what becomes of each.\<close>

datatype md_segment = Plain md_event | Block code_block_kind "string list"

fun seg_events :: "md_segment \<Rightarrow> md_event list" where
  "seg_events (Plain e) = [e]"
| "seg_events (Block kind ts) = StartCode kind # map MText ts @ [EndCode]"

fun plain_event :: "md_event \<Rightarrow> bool" where
  "plain_event (StartCode kind) = False"
| "plain_event EndCode = False"
| "plain_event _ = True"

fun seg_ok :: "md_segment \<Rightarrow> bool" where
  "seg_ok (Plain e) = plain_event e"
| "seg_ok (Block kind ts) = True"

fun escape_event :: "bool \<Rightarrow> md_event \<Rightarrow> md_event" where
  "escape_event trusted (MHtml html) = (if trusted then MHtml html else MText html)"
| "escape_event trusted (MInlineHtml html) = (if trusted then MInlineHtml html else MText html)"
| "escape_event trusted e = e"

fun seg_output :: "'s syntax_set \<Rightarrow> (string \<Rightarrow> string) \<Rightarrow> bool \<Rightarrow> md_segment \<Rightarrow> md_event list" where
  "seg_output S escape trusted (Plain e) = [escape_event trusted e]"
| "seg_output S escape trusted (Block kind ts) =
     MText [] # map (\<lambda>_. MText []) ts @ [MHtml (code_html S escape (concat ts) (code_lang kind))]"

lemma md_map_plain:
  "plain_event e \<Longrightarrow> \<not> in_code_block st \<Longrightarrow>
    md_map S escape trusted (e # es) st = escape_event trusted e # md_map S escape trusted es st"
  by (cases e) (simp_all add: md_event_step_def)

lemma md_map_block:
  "\<exists>st'. \<not> in_code_block st' \<and>
    md_map S escape trusted (seg_events (Block kind ts) @ es) st =
      seg_output S escape trusted (Block kind ts) @ md_map S escape trusted es st'"
  by (simp add: md_map_append_texts md_event_step_def) (metis md_state.select_convs(1))

lemma md_map_segments:
  "list_all seg_ok segs \<Longrightarrow> \<not> in_code_block st \<Longrightarrow>
    md_map S escape trusted (concat (map seg_events segs)) st = concat (map (seg_output S escape trusted) segs)"
proof (induction segs arbitrary: st)
  case (Cons seg segs)
  show ?case
  proof (cases seg)
    case (Plain e)
    with Cons show ?thesis by (simp add: md_map_plain del: md_map.simps)
  next
    case (Block kind ts)
    obtain st' where "\<not> in_code_block st'" and
      "md_map S escape trusted (seg_events (Block kind ts) @ concat (map seg_events segs)) st =
        seg_output S escape trusted (Block kind ts) @ md_map S escape trusted (concat (map seg_events segs)) st'"
      using md_map_block by blast
    with Cons Block show ?thesis by simp
  qed
qed simp

text \<open>
  What an event may become when the input is untrusted. The only raw HTML is an element whose one
  attribute, if it has any, is closed by its own quotation mark and whose content is syntect's.
\<close>

definition markup_free :: "string \<Rightarrow> bool" where
  "markup_free t \<longleftrightarrow> set t \<inter> {CHR 0x22, CHR 0x27, CHR ''<'', CHR ''>''} = {}"

definition code_element :: "'s syntax_set \<Rightarrow> string \<Rightarrow> bool" where
  "code_element S h \<longleftrightarrow> (\<exists>attr code lang. h = ''<pre><code'' @ attr @ ''>'' @ highlight S code lang @ ''</code></pre>'' \<and>
     (attr = [] \<or> (\<exists>name. markup_free name \<and>
       attr = '' class='' @ [CHR 0x22] @ ''language-'' @ name @ [CHR 0x22])))"

fun untrusted_image :: "'s syntax_set \<Rightarrow> md_event \<Rightarrow> md_event \<Rightarrow> bool" where
  "untrusted_image S (StartCode kind) e' \<longleftrightarrow> e' = MText []"
| "untrusted_image S EndCode e' \<longleftrightarrow> (\<exists>h. e' = MHtml h \<and> code_element S h)"
| "untrusted_image S (MText t) e' \<longleftrightarrow> e' = MText t \<or> e' = MText []"
| "untrusted_image S (MHtml h) e' \<longleftrightarrow> e' = MText h"
| "untrusted_image S (MInlineHtml h) e' \<longleftrightarrow> e' = MText h"
| "untrusted_image S (MOther n) e' \<longleftrightarrow> e' = MOther n"

lemma code_html_element:
  assumes "\<And>t. markup_free (escape t)"
  shows "code_element S (code_html S escape code lang)"
  unfolding code_element_def
proof (intro exI conjI)
  let ?attr = "case lang of Some l \<Rightarrow> '' class='' @ [CHR 0x22] @ ''language-'' @ escape l @ [CHR 0x22] | None \<Rightarrow> []"
  show "code_html S escape code lang = ''<pre><code'' @ ?attr @ ''>'' @ highlight S code lang @ ''</code></pre>''"
    by (simp add: code_html_def)
  show "?attr = [] \<or> (\<exists>name. markup_free name \<and> ?attr = '' class='' @ [CHR 0x22] @ ''language-'' @ name @ [CHR 0x22])"
    using assms by (cases lang) auto
qed

lemma md_map_untrusted:
  assumes "\<And>t. markup_free (escape t)"
  shows "list_all2 (untrusted_image S) es (md_map S escape False es st)"
proof (induction es arbitrary: st)
  case (Cons e es)
  then show ?case using code_html_element [OF assms] by (cases e) (auto simp: md_event_step_def)
qed simp

lemma untrusted_raw:
  assumes "list_all2 (untrusted_image S) ds es"
  shows "MInlineHtml h \<notin> set es \<and> (MHtml h \<in> set es \<longrightarrow> code_element S h)"
  using assms
proof (induction rule: list_all2_induct)
  case (Cons d ds e es)
  then show ?case by (cases d) auto
qed simp

section \<open>Properties\<close>

text \<open>
  C13. Untrusted Markdown, a plain string, puts no HTML of its own on the page: whatever events the
  parser delivers, in or out of order, each becomes one event, raw HTML becomes text (which the
  writer escapes), and the only raw HTML written is the element of a code block: its content is what
  the highlighter makes of the text, its only attribute the language's class, whose value holds no
  quotation mark and no angle bracket whatever the info string of the block, because it is escaped
  (the hypothesis is that the escaping leaves none of these characters).
\<close>

theorem md_untrusted_no_raw_html:
  assumes "ni_into_value N input = Ok (VString s)" "\<And>t. markup_free (mk_escape K t)"
  shows "\<exists>es. md_run K N input = Ok (html_record (mk_push_html K es)) \<and>
    list_all2 (untrusted_image (mk_syntax K)) (mk_parse K md_options s) es \<and>
    (\<forall>h. MInlineHtml h \<notin> set es \<and> (MHtml h \<in> set es \<longrightarrow> code_element (mk_syntax K) h))"
proof -
  let ?es = "md_map (mk_syntax K) (mk_escape K) False (mk_parse K md_options s) md_start"
  have rel: "list_all2 (untrusted_image (mk_syntax K)) (mk_parse K md_options s) ?es"
    using assms(2) by (rule md_map_untrusted)
  have "md_run K N input = Ok (html_record (mk_push_html K ?es))" using assms(1) by (simp add: md_run_def md_source_def)
  with rel untrusted_raw [OF rel] show ?thesis by metis
qed

definition toy_syntax :: "string syntax_set" where
  "toy_syntax = \<lparr>find_syntax_by_token = (\<lambda>t. if t = ''rust'' then Some ''Rust'' else None),
     find_syntax_by_extension = (\<lambda>e. if e = ''rs'' then Some ''Rust'' else None), find_syntax_plain_text = ''Plain'',
     hl_lines = (\<lambda>code. [code]), hl_html = (\<lambda>s ls. ''<i>'' @ concat ls @ ''</i>''),
     syntaxes = [''Rust''], syntax_name = (\<lambda>s. s), syntax_extensions = (\<lambda>s. [''rs''])\<rparr>"

definition toy_input :: nu_input where
  "toy_input = \<lparr>ni_into_value = (\<lambda>p. case p of PValue v _ \<Rightarrow> Ok v | _ \<Rightarrow> Ok VNothing),
     ni_into_string = (\<lambda>s. Ok []), ni_as_str_error = (\<lambda>v. OtherShellError ''cannot convert''), ni_type = type_name\<rparr>"

definition toy_markdown :: "string markdown" where
  "toy_markdown = \<lparr>mk_syntax = toy_syntax, mk_escape = filter (\<lambda>c. markup_free [c]),
     mk_parse = (\<lambda>opts s. [MInlineHtml s, StartCode (Fenced (''rs'' @ [CHR 0x22] @ ''> x'')), MText ''let a'', EndCode]),
     mk_push_html = (\<lambda>es. concat (map (\<lambda>e. case e of MText t \<Rightarrow> filter (\<lambda>c. c \<noteq> CHR ''<'') t | MHtml h \<Rightarrow> h | _ \<Rightarrow> []) es))\<rparr>"

lemma toy_escape: "markup_free (mk_escape toy_markdown t)"
  by (auto simp: toy_markdown_def markup_free_def)

theorem md_untrusted_no_raw_html_witness:
  "\<exists>es h. md_run toy_markdown toy_input (PValue (VString ''<b>'') None) = Ok (html_record (mk_push_html toy_markdown es)) \<and>
    length es = 4 \<and> hd es = MText ''<b>'' \<and> last es = MHtml h \<and> code_element toy_syntax h"
proof -
  have "ni_into_value toy_input (PValue (VString ''<b>'') None) = Ok (VString ''<b>'')" by (simp add: toy_input_def)
  then obtain es where es: "md_run toy_markdown toy_input (PValue (VString ''<b>'') None) =
      Ok (html_record (mk_push_html toy_markdown es))"
    and rel: "list_all2 (untrusted_image (mk_syntax toy_markdown)) (mk_parse toy_markdown md_options ''<b>'') es"
    using md_untrusted_no_raw_html [of toy_input _ "''<b>''" toy_markdown] toy_escape by blast
  from rel have "length es = 4 \<and> hd es = MText ''<b>'' \<and> (\<exists>h. last es = MHtml h \<and> code_element toy_syntax h)"
    by (auto simp: toy_markdown_def list_all2_Cons1)
  with es show ?thesis by blast
qed

text \<open>
  When the parser delivers only text inside code blocks, every code block becomes one element
  with the language of its own info string and the highlighting of exactly its own text, and every
  other event is passed on (raw HTML as text when untrusted): nothing leaks from one block into the
  next or into the text between them.
\<close>

theorem md_code_blocks:
  assumes "ni_into_value N input = Ok v" "md_source N v = Ok (s, trusted)"
    and "mk_parse K md_options s = concat (map seg_events segs)" "list_all seg_ok segs"
  shows "md_run K N input =
    Ok (html_record (mk_push_html K (concat (map (seg_output (mk_syntax K) (mk_escape K) trusted) segs))))"
  using assms by (simp add: md_run_def md_map_segments md_start_def)

theorem md_code_blocks_witness:
  "md_run toy_markdown toy_input (PValue (VRecord [(''__html'', VString ''<b>'')]) None) =
    Ok (html_record (''<pre><code class='' @ [CHR 0x22] @ ''language-rs'' @ [CHR 0x22] @ ''><i>let a</i></code></pre>''))"
proof -
  have 1: "ni_into_value toy_input (PValue (VRecord [(''__html'', VString ''<b>'')]) None) = Ok (VRecord [(''__html'', VString ''<b>'')])"
    by (simp add: toy_input_def)
  have 2: "md_source toy_input (VRecord [(''__html'', VString ''<b>'')]) = Ok (''<b>'', True)"
    by (simp add: md_source_def rec_get_def)
  have 3: "mk_parse toy_markdown md_options ''<b>'' = concat (map seg_events [Plain (MInlineHtml ''<b>''), Block (Fenced (''rs'' @ [CHR 0x22] @ ''> x'')) [''let a'']])"
    by (simp add: toy_markdown_def)
  have lang: "code_lang (Fenced (''rs'' @ [CHR 0x22] @ ''> x'')) = Some (''rs'' @ [CHR 0x22] @ ''>'')" by code_simp
  show ?thesis
    unfolding md_code_blocks [OF 1 2 3, simplified]
    by (simp add: toy_markdown_def toy_syntax_def lang [simplified] code_html_def highlight_def highlight_syntax_def markup_free_def)
qed

end
