(* ===== verification/Sse.thy ===== *)
theory Sse
  imports Special_Response
begin

text \<open>
  Server-sent events: the command \<open>to sse\<close> (\<open>src/commands.rs\<close>), which renders records as
  \<open>text/event-stream\<close>. Rendering a value as text, the name of its type and the JSON serialiser are
  nushell's and serde\_json's: arguments.
\<close>

record sse_config =
  sc_expand :: "nu_value \<Rightarrow> string"
  sc_type :: "nu_value \<Rightarrow> string"
  sc_json_str :: "json \<Rightarrow> (string, string) outcome"

definition line_ending :: string where
  "line_ending = [newline]"

section \<open>Values as JSON\<close>

text \<open>The \<open>value_to_json\<close> of this file: what has no JSON form is rendered as text.\<close>

fun sse_to_json :: "sse_config \<Rightarrow> nu_value \<Rightarrow> json"
  and sse_fields_to_json :: "sse_config \<Rightarrow> (string \<Rightarrow> json option) \<Rightarrow> nu_record \<Rightarrow> string \<Rightarrow> json option"
where
  "sse_to_json C (VBool b) = JBool b"
| "sse_to_json C (VInt i) = JInt i"
| "sse_to_json C (VFloat f) = json_of_f64 f"
| "sse_to_json C (VString s) = JString s"
| "sse_to_json C (VList vs) = JArray (map (sse_to_json C) vs)"
| "sse_to_json C (VRecord r) = JObject (sse_fields_to_json C Map.empty r)"
| "sse_to_json C VNothing = JNull"
| "sse_to_json C (VBinary b) = JString (sc_expand C (VBinary b))"
| "sse_to_json C (VError e) = JString (sc_expand C (VError e))"
| "sse_to_json C (VCustom c) = JString (sc_expand C (VCustom c))"
| "sse_to_json C (VOther n i) = JString (sc_expand C (VOther n i))"
| "sse_fields_to_json C m [] = m"
| "sse_fields_to_json C m ((k, v) # fs) = sse_fields_to_json C (m(k \<mapsto> sse_to_json C v)) fs"

section \<open>One event\<close>

definition emit_data_lines :: "string \<Rightarrow> string" where
  "emit_data_lines s = concat (map (\<lambda>line. ''data: '' @ line @ line_ending) (str_lines s))"

definition value_to_data_string :: "sse_config \<Rightarrow> nu_value \<Rightarrow> (shell_error, string) outcome" where
  "value_to_data_string C val =
     (case val of
        VString s \<Rightarrow> Ok s
      | _ \<Rightarrow>
          (case sc_json_str C (sse_to_json C val) of
             Ok s \<Rightarrow> Ok s
           | Err e \<Rightarrow> Err (Generic e ''failed to serialize json'')
           | Panic m \<Rightarrow> Panic m))"

definition field_line :: "sse_config \<Rightarrow> nu_record \<Rightarrow> string \<Rightarrow> string" where
  "field_line C rec name =
     (case rec_get rec name of
        None \<Rightarrow> []
      | Some v \<Rightarrow> if v = VNothing then [] else name @ '': '' @ sc_expand C v @ line_ending)"

fun data_items :: "sse_config \<Rightarrow> nu_value list \<Rightarrow> (shell_error, string) outcome" where
  "data_items C [] = Ok []"
| "data_items C (v # vs) =
     obind (value_to_data_string C v) (\<lambda>s. obind (data_items C vs) (\<lambda>out. Ok (emit_data_lines s @ out)))"

definition data_lines :: "sse_config \<Rightarrow> nu_record \<Rightarrow> (shell_error, string) outcome" where
  "data_lines C rec =
     (case rec_get rec ''data'' of
        None \<Rightarrow> Ok []
      | Some VNothing \<Rightarrow> Ok []
      | Some (VList vals) \<Rightarrow> data_items C vals
      | Some data \<Rightarrow> obind (value_to_data_string C data) (\<lambda>s. Ok (emit_data_lines s)))"

definition event_to_string :: "sse_config \<Rightarrow> nu_value \<Rightarrow> (shell_error, string) outcome" where
  "event_to_string C val =
     (case val of
        VRecord rec \<Rightarrow>
          obind (data_lines C rec) (\<lambda>data.
            Ok (field_line C rec ''event'' @ field_line C rec ''id'' @ field_line C rec ''retry'' @ data @ line_ending))
      | VError error \<Rightarrow> Err error
      | other \<Rightarrow> Err (TypeMismatch (''expected record, got '' @ sc_type C other)))"

section \<open>The command\<close>

definition event_stream_type :: string where
  "event_stream_type = ''text/event-stream''"

definition update_metadata :: "metadata option \<Rightarrow> metadata option" where
  "update_metadata md =
     (case md of
        Some m \<Rightarrow> Some (with_content_type (Some event_stream_type) m)
      | None \<Rightarrow> Some (with_content_type (Some event_stream_type) default_metadata))"

text \<open>\<open>ByteStream::from_result_iter\<close>: the reads of a stream made of one rendering for each value.\<close>

definition event_read :: "sse_config \<Rightarrow> nu_value \<Rightarrow> read_result" where
  "event_read C val =
     (case event_to_string C val of
        Ok s \<Rightarrow> ReadOk s
      | Err e \<Rightarrow> ReadErr (IoShell e)
      | Panic m \<Rightarrow> ReadErr (IoOther m))"

definition to_sse :: "sse_config \<Rightarrow> pipeline_data \<Rightarrow> (shell_error, pipeline_data) outcome" where
  "to_sse C input =
     (case input of
        PListStream vs meta \<Rightarrow> Ok (PByteStream (Some (map (event_read C) vs)) (update_metadata meta))
      | PValue v meta \<Rightarrow>
          (case v of
             VList vs \<Rightarrow> Ok (PByteStream (Some (map (event_read C) vs)) (update_metadata meta))
           | _ \<Rightarrow> obind (event_to_string C v) (\<lambda>out. Ok (PValue (VString out) (update_metadata meta))))
      | PEmpty \<Rightarrow> Ok (PValue (VString []) (update_metadata None))
      | PByteStream s meta \<Rightarrow> Err (TypeMismatch ''expected record input''))"

section \<open>What a client reads\<close>

text \<open>
  The event-stream format of the HTML standard: lines end in a line feed, a carriage return or
  both; a line is a field name and, after a colon and an optional space, its value; an empty line
  ends the block of fields; an unterminated rest is discarded.
\<close>

fun eol_lines :: "string \<Rightarrow> string list" where
  "eol_lines [] = [[]]"
| "eol_lines (c # s) =
     (if c = newline then [] # eol_lines s
      else if c = carriage_return then
        (case s of d # s' \<Rightarrow> if d = newline then [] # eol_lines s' else [] # eol_lines s | [] \<Rightarrow> [[], []])
      else (case eol_lines s of [] \<Rightarrow> [[c]] | l # ls \<Rightarrow> (c # l) # ls))"

record client_event =
  ce_event :: "string option"
  ce_data :: "string list"
  ce_id :: "string option"
  ce_retry :: "string option"

definition no_event :: client_event where
  "no_event = \<lparr>ce_event = None, ce_data = [], ce_id = None, ce_retry = None\<rparr>"

definition field_of :: "string \<Rightarrow> string \<times> string" where
  "field_of line =
     (takeWhile (\<lambda>c. c \<noteq> CHR '':'') line,
      case dropWhile (\<lambda>c. c \<noteq> CHR '':'') line of
        [] \<Rightarrow> []
      | _ # v \<Rightarrow> (case v of c # w \<Rightarrow> if c = CHR '' '' then w else v | [] \<Rightarrow> []))"

definition read_field :: "client_event \<Rightarrow> string \<Rightarrow> client_event" where
  "read_field e line =
     (case field_of line of
        (name, value) \<Rightarrow>
          if name = ''event'' then e\<lparr>ce_event := Some value\<rparr>
          else if name = ''data'' then e\<lparr>ce_data := ce_data e @ [value]\<rparr>
          else if name = ''id'' then e\<lparr>ce_id := Some value\<rparr>
          else if name = ''retry'' then e\<lparr>ce_retry := Some value\<rparr>
          else e)"

fun read_blocks :: "client_event \<Rightarrow> string list \<Rightarrow> client_event list" where
  "read_blocks e [] = []"
| "read_blocks e (l # ls) = (if l = [] then e # read_blocks no_event ls else read_blocks (read_field e l) ls)"

definition client_reads :: "string \<Rightarrow> client_event list" where
  "client_reads s = read_blocks no_event (butlast (eol_lines s))"

section \<open>Laws\<close>

text \<open>The two conversions to JSON agree where both are defined.\<close>

lemma sse_to_json_eq:
  "value_to_json v = Ok j \<Longrightarrow> sse_to_json C v = j"
  "values_to_json vs = Ok js \<Longrightarrow> map (sse_to_json C) vs = js"
  "fields_to_json m fs = Ok m' \<Longrightarrow> sse_fields_to_json C m fs = m'"
  by (induction v and vs and m fs arbitrary: j and js and m' rule: value_to_json_values_to_json_fields_to_json.induct)
    (auto simp: obind_Ok_iff fun_upd_def)

definition clean :: "string \<Rightarrow> bool" where
  "clean s \<longleftrightarrow> newline \<notin> set s \<and> carriage_return \<notin> set s"

definition unlines :: "string list \<Rightarrow> string" where
  "unlines ls = concat (map (\<lambda>l. l @ [newline]) ls)"

lemma unlines_simps [simp]: "unlines [] = []" "unlines (l # ls) = l @ newline # unlines ls"
  "unlines (ls @ ls') = unlines ls @ unlines ls'"
  by (simp_all add: unlines_def)

lemma newline_not_cr [simp]: "newline \<noteq> carriage_return" "carriage_return \<noteq> newline"
  by (simp_all add: newline_def carriage_return_def)

lemma eol_lines_clean: "clean l \<Longrightarrow> eol_lines (l @ newline # s) = l # eol_lines s"
  by (induction l) (auto simp: clean_def)

lemma eol_lines_unlines: "\<forall>l\<in>set ls. clean l \<Longrightarrow> eol_lines (unlines ls) = ls @ [[]]"
  by (induction ls) (simp_all add: eol_lines_clean)

lemma client_reads_unlines: "\<forall>l\<in>set ls. clean l \<Longrightarrow> client_reads (unlines ls) = read_blocks no_event ls"
  by (simp add: client_reads_def eol_lines_unlines)

lemma strip_cr_id: "carriage_return \<notin> set s \<Longrightarrow> strip_cr s = s"
  by (auto simp: strip_cr_def strip_suffix_Some_iff split: option.split)

lemma lines_of_pieces: "set (lines_of ps) \<subseteq> set ps \<union> strip_cr ` set ps"
  by (induction ps rule: lines_of.induct) auto

lemma split_on_subset: "p \<in> set (split_on d s) \<Longrightarrow> set p \<subseteq> set s"
proof (induction s arbitrary: p)
  case (Cons c s)
  then show ?case by (cases "split_on d s") (fastforce split: if_splits)+
qed simp

lemma str_lines_clean:
  assumes "carriage_return \<notin> set s" "l \<in> set (str_lines s)"
  shows "clean l"
proof -
  have piece: "p \<in> set (split_on newline s) \<Longrightarrow> clean p" for p
    using assms(1) split_on_pieces [of newline s] split_on_subset [of p newline s] by (auto simp: clean_def)
  then have "p \<in> set (split_on newline s) \<Longrightarrow> strip_cr p = p" for p by (simp add: strip_cr_id clean_def)
  with piece lines_of_pieces [of "split_on newline s"] assms(2) show ?thesis by (auto simp: str_lines_def)
qed

subsection \<open>The lines of an event\<close>

definition data_line :: "string \<Rightarrow> string" where
  "data_line l = ''data: '' @ l"

definition field_text :: "sse_config \<Rightarrow> nu_record \<Rightarrow> string \<Rightarrow> string option" where
  "field_text C rec name =
     (case rec_get rec name of
        None \<Rightarrow> None
      | Some v \<Rightarrow> if v = VNothing then None else Some (sc_expand C v))"

fun data_strings :: "sse_config \<Rightarrow> nu_value list \<Rightarrow> (shell_error, string list) outcome" where
  "data_strings C [] = Ok []"
| "data_strings C (v # vs) =
     obind (value_to_data_string C v) (\<lambda>s. obind (data_strings C vs) (\<lambda>ss. Ok (s # ss)))"

definition event_data :: "nu_record \<Rightarrow> nu_value list" where
  "event_data rec =
     (case rec_get rec ''data'' of
        None \<Rightarrow> []
      | Some VNothing \<Rightarrow> []
      | Some (VList vals) \<Rightarrow> vals
      | Some data \<Rightarrow> [data])"

definition event_lines :: "sse_config \<Rightarrow> nu_record \<Rightarrow> string list \<Rightarrow> string list" where
  "event_lines C rec ds =
     concat (map (\<lambda>name. case field_text C rec name of Some t \<Rightarrow> [name @ '': '' @ t] | None \<Rightarrow> [])
       [''event'', ''id'', ''retry'']) @
     map data_line (concat (map str_lines ds)) @ [[]]"

definition event_block :: "sse_config \<Rightarrow> nu_record \<Rightarrow> string list \<Rightarrow> client_event" where
  "event_block C rec ds = \<lparr>ce_event = field_text C rec ''event'', ce_data = concat (map str_lines ds),
     ce_id = field_text C rec ''id'', ce_retry = field_text C rec ''retry''\<rparr>"

lemma emit_data_lines_unlines: "emit_data_lines s = unlines (map data_line (str_lines s))"
  by (simp add: emit_data_lines_def unlines_def line_ending_def o_def data_line_def)

lemma data_items_unlines:
  "data_items C vs = Ok out \<longleftrightarrow>
    (\<exists>ss. data_strings C vs = Ok ss \<and> out = unlines (map data_line (concat (map str_lines ss))))"
  by (induction vs arbitrary: out) (auto simp: obind_Ok_iff emit_data_lines_unlines)

lemma data_lines_unlines:
  "data_lines C rec = Ok out \<longleftrightarrow>
    (\<exists>ss. data_strings C (event_data rec) = Ok ss \<and>
      out = unlines (map data_line (concat (map str_lines ss))))"
proof (cases "rec_get rec ''data''")
  case (Some v)
  then show ?thesis
    by (cases v) (auto simp: data_lines_def event_data_def data_items_unlines obind_Ok_iff emit_data_lines_unlines)
qed (auto simp: data_lines_def event_data_def)

lemma field_line_unlines:
  "field_line C rec name = unlines (case field_text C rec name of Some t \<Rightarrow> [name @ '': '' @ t] | None \<Rightarrow> [])"
  by (simp add: field_line_def field_text_def line_ending_def split: option.split)

lemma event_to_string_lines:
  "event_to_string C (VRecord rec) = Ok out \<longleftrightarrow>
    (\<exists>ss. data_strings C (event_data rec) = Ok ss \<and> out = unlines (event_lines C rec ss))"
  by (auto simp: event_to_string_def obind_Ok_iff data_lines_unlines field_line_unlines event_lines_def line_ending_def)

lemma field_of_line: "CHR '':'' \<notin> set name \<Longrightarrow> field_of (name @ CHR '':'' # CHR '' '' # v) = (name, v)"
  by (induction name) (auto simp: field_of_def)

lemma read_blocks_data:
  "read_blocks e (map data_line ls @ rest) = read_blocks (e\<lparr>ce_data := ce_data e @ ls\<rparr>) rest"
proof (induction ls arbitrary: e)
  case (Cons l ls)
  have "field_of (data_line l) = (''data'', l)" using field_of_line [of "''data''" l] by (simp add: data_line_def)
  moreover have "data_line l \<noteq> []" by (simp add: data_line_def)
  ultimately show ?case using Cons by (simp add: read_field_def)
qed simp

lemma read_blocks_event: "read_blocks no_event (event_lines C rec ds @ rest) = event_block C rec ds # read_blocks no_event rest"
  using field_of_line [of "''event''"] field_of_line [of "''id''"] field_of_line [of "''retry''"]
    read_blocks_data
  by (simp add: event_lines_def event_block_def read_field_def no_event_def split: option.split)

text \<open>The texts of an event that may not hold an end of line.\<close>

definition event_clean :: "sse_config \<Rightarrow> nu_record \<Rightarrow> string list \<Rightarrow> bool" where
  "event_clean C rec ds \<longleftrightarrow>
     list_all (\<lambda>name. case field_text C rec name of Some t \<Rightarrow> clean t | None \<Rightarrow> True) [''event'', ''id'', ''retry''] \<and>
     list_all (\<lambda>d. carriage_return \<notin> set d) ds"

lemma clean_append [simp]: "clean (a @ b) \<longleftrightarrow> clean a \<and> clean b"
  by (auto simp: clean_def)

lemma clean_names: "clean ''event: ''" "clean ''id: ''" "clean ''retry: ''" "clean ''data: ''"
  by code_simp+

lemma event_lines_clean:
  assumes "event_clean C rec ds"
  shows "\<forall>l\<in>set (event_lines C rec ds). clean l"
proof -
  have pre: "clean (name @ '': '')" if "name \<in> {''event'', ''id'', ''retry''}" for name
    using that clean_names by (elim insertE emptyE) simp_all
  have field: "clean (name @ '': '' @ t)" if "name \<in> {''event'', ''id'', ''retry''}" "field_text C rec name = Some t" for name t
  proof -
    have "clean t" using that assms by (auto simp: event_clean_def)
    with pre [OF that(1)] show ?thesis unfolding clean_append by blast
  qed
  have data: "clean (data_line l)" if "d \<in> set ds" "l \<in> set (str_lines d)" for d l
    using that assms clean_names(4) str_lines_clean [of d l]
    unfolding event_clean_def data_line_def clean_append list_all_iff by blast
  have "clean []" by (simp add: clean_def)
  moreover have "l \<in> set (case field_text C rec name of Some t \<Rightarrow> [name @ '': '' @ t] | None \<Rightarrow> []) \<Longrightarrow> clean l"
    if "name \<in> {''event'', ''id'', ''retry''}" for name l
    using field [OF that] by (cases "field_text C rec name") simp_all
  ultimately show ?thesis using data unfolding event_lines_def by (simp del: append_Cons) blast
qed

definition event_texts :: "sse_config \<Rightarrow> nu_record \<Rightarrow> string list" where
  "event_texts C rec = (case data_strings C (event_data rec) of Ok ds \<Rightarrow> ds | _ \<Rightarrow> [])"

definition event_ok :: "sse_config \<Rightarrow> nu_record \<Rightarrow> bool" where
  "event_ok C rec \<longleftrightarrow>
     (case data_strings C (event_data rec) of Ok ds \<Rightarrow> event_clean C rec ds | Err e \<Rightarrow> False | Panic m \<Rightarrow> False)"

lemma event_read_lines:
  assumes "event_ok C rec"
  shows "event_read C (VRecord rec) = ReadOk (unlines (event_lines C rec (event_texts C rec)))"
proof -
  obtain ds where ds: "data_strings C (event_data rec) = Ok ds" using assms by (auto simp: event_ok_def split: outcome.splits)
  then have "event_to_string C (VRecord rec) = Ok (unlines (event_lines C rec ds))" by (auto simp: event_to_string_lines)
  with ds show ?thesis by (simp add: event_read_def event_texts_def)
qed

lemma event_lines_not_Nil: "unlines (event_lines C rec ds) \<noteq> []"
  by (simp add: event_lines_def)

definition stream_lines :: "sse_config \<Rightarrow> nu_record list \<Rightarrow> string list" where
  "stream_lines C recs = concat (map (\<lambda>rec. event_lines C rec (event_texts C rec)) recs)"

lemma collect_event_reads:
  "list_all (event_ok C) recs \<Longrightarrow> collect_reads (map (event_read C \<circ> VRecord) recs) = unlines (stream_lines C recs)"
  by (induction recs) (simp_all add: event_read_lines event_lines_not_Nil stream_lines_def)

lemma read_stream_lines:
  "read_blocks no_event (stream_lines C recs) = map (\<lambda>rec. event_block C rec (event_texts C rec)) recs"
  by (induction recs) (simp_all add: stream_lines_def read_blocks_event)

lemma event_ok_clean: "event_ok C rec \<Longrightarrow> \<forall>l\<in>set (event_lines C rec (event_texts C rec)). clean l"
  by (intro event_lines_clean) (simp add: event_ok_def event_texts_def split: outcome.splits)

lemma stream_lines_clean: "list_all (event_ok C) recs \<Longrightarrow> \<forall>l\<in>set (stream_lines C recs). clean l"
proof (induction recs)
  case (Cons rec recs)
  then show ?case using event_ok_clean [of C rec] unfolding stream_lines_def by simp blast
qed (simp add: stream_lines_def)

definition test_sse :: sse_config where
  "test_sse = \<lparr>sc_expand = (\<lambda>v. case v of VString s \<Rightarrow> s | VInt i \<Rightarrow> int_str (sint i) | _ \<Rightarrow> ''?''), sc_type = type_name,
     sc_json_str = (\<lambda>j. case j of JInt i \<Rightarrow> Ok (int_str (sint i)) | _ \<Rightarrow> Ok ''{}'')\<rparr>"

section \<open>Properties\<close>

text \<open>
  C27. What \<open>to sse\<close> sends, a client reads back: from a stream of records it reads one block of
  fields for each record, in order, with its event, id and retry texts, and as data lines the lines
  of its data, item by item when the data is a list. This needs that event, id and retry hold no
  end of line and the data no carriage return; otherwise a value can add fields of its own.
\<close>

theorem sse_client_reads_events:
  assumes "list_all (event_ok C) recs"
  shows "\<exists>reads. to_sse C (PListStream (map VRecord recs) meta) = Ok (PByteStream (Some reads) (update_metadata meta)) \<and>
    client_reads (collect_reads reads) = map (\<lambda>rec. event_block C rec (event_texts C rec)) recs \<and>
    meta_content_type (update_metadata meta) = Some ''text/event-stream''"
  using assms
  by (simp add: to_sse_def collect_event_reads client_reads_unlines stream_lines_clean read_stream_lines
      update_metadata_def event_stream_type_def split: option.split)

theorem sse_client_reads_events_witness:
  "\<exists>reads. to_sse test_sse (PListStream [VRecord [(''data'', VList [VInt 1, VInt 2, VString (''x'' @ newline # ''y'')])],
        VRecord [(''event'', VString ''go''), (''id'', VInt 7)]] None) =
      Ok (PByteStream (Some reads) (Some \<lparr>content_type = Some ''text/event-stream'', custom = []\<rparr>)) \<and>
    client_reads (collect_reads reads) =
      [\<lparr>ce_event = None, ce_data = [''1'', ''2'', ''x'', ''y''], ce_id = None, ce_retry = None\<rparr>,
       \<lparr>ce_event = Some ''go'', ce_data = [], ce_id = Some ''7'', ce_retry = None\<rparr>]"
proof -
  let ?a = "[(''data'', VList [VInt 1, VInt 2, VString (''x'' @ newline # ''y'')])]"
  let ?b = "[(''event'', VString ''go''), (''id'', VInt 7)]"
  have "list_all (event_ok test_sse) [?a, ?b]" by code_simp
  moreover have "map (\<lambda>rec. event_block test_sse rec (event_texts test_sse rec)) [?a, ?b] =
      [\<lparr>ce_event = None, ce_data = [''1'', ''2'', ''x'', ''y''], ce_id = None, ce_retry = None\<rparr>,
       \<lparr>ce_event = Some ''go'', ce_data = [], ce_id = Some ''7'', ce_retry = None\<rparr>]" by code_simp
  moreover have "update_metadata None = Some \<lparr>content_type = Some ''text/event-stream'', custom = []\<rparr>" by code_simp
  ultimately show ?thesis using sse_client_reads_events [of test_sse "[?a, ?b]" None] by simp
qed

text \<open>
  The two conversions of values to JSON agree: what the response conversion converts without
  a panic, the event conversion converts to the same JSON.
\<close>

theorem json_conversions_agree:
  assumes "jsonable v"
  shows "value_to_json v = Ok (sse_to_json C v)"
  using assms sse_to_json_eq(1) by (metis value_to_json_Ok)

theorem json_conversions_agree_witness:
  "value_to_json (VRecord [(''a'', VList [VNothing, VInt 3])]) = Ok (sse_to_json test_sse (VRecord [(''a'', VList [VNothing, VInt 3])]))"
  by (rule json_conversions_agree) simp

end
