(* ===== verification/Topic_Store.thy ===== *)
theory Topic_Store
  imports Prelude
begin

text \<open>
  Reading text out of the store of the cross.stream crate: the content of a topic for templates
  (\<open>load_topic_content\<close> in \<open>src/commands.rs\<close>) and for scripts (\<open>read_topic_content\<close> in
  \<open>src/store.rs\<close>). The store is an argument.
\<close>

text \<open>
  The last frame of a topic (\<open>read_sync\<close> with \<open>last(1)\<close>), an identifier and perhaps the hash of its
  content; and the stored bytes of a hash, or an error.
\<close>

record topic_store =
  xs_last_frame :: "string \<Rightarrow> (nat \<times> string option) option"
  xs_cas_read :: "string \<Rightarrow> string + bytes"

definition cas_text :: "topic_store \<Rightarrow> string option \<Rightarrow> string option" where
  "cas_text store hash =
     (case hash of
        None \<Rightarrow> None
      | Some h \<Rightarrow> (case xs_cas_read store h of Inr bytes \<Rightarrow> from_utf8 bytes | Inl e \<Rightarrow> None))"

definition load_topic_content :: "topic_store \<Rightarrow> string \<Rightarrow> string option" where
  "load_topic_content store topic =
     (case xs_last_frame store topic of None \<Rightarrow> None | Some (i, hash) \<Rightarrow> cas_text store hash)"

definition read_topic_content :: "topic_store \<Rightarrow> string \<Rightarrow> (string \<times> nat) option" where
  "read_topic_content store topic =
     (case xs_last_frame store topic of
        None \<Rightarrow> None
      | Some (i, hash) \<Rightarrow> (case cas_text store hash of Some content \<Rightarrow> Some (content, i) | None \<Rightarrow> None))"

lemma read_topic_content_text:
  "map_option fst (read_topic_content store topic) = load_topic_content store topic"
  by (simp add: read_topic_content_def load_topic_content_def split: option.split)

end
