(* ===== verification/Templates.thy ===== *)
theory Templates
  imports Sse Topic_Store
begin

text \<open>
  Templates: the cache of compiled templates and the commands \<open>.mj\<close>, \<open>.mj compile\<close> and
  \<open>.mj render\<close> (\<open>src/commands.rs\<close>). The template engine is minijinja's, the hash xxh3's, paths and
  files the operating system's, the topic store the cross.stream crate's: arguments. The process-wide
  cache is passed from call to call.
\<close>

section \<open>The template engine\<close>

text \<open>How a template's includes are found: from a directory, from the store, nowhere.\<close>

datatype loader = PathLoader string | TopicLoader | NoLoader

record ('env, 'tmpl) minijinja =
  mj_new :: 'env
  mj_set_loader :: "loader \<Rightarrow> 'env \<Rightarrow> 'env"
  mj_add_owned :: "string \<Rightarrow> string \<Rightarrow> 'env \<Rightarrow> string + 'env"
  mj_get :: "'env \<Rightarrow> string \<Rightarrow> (string, 'tmpl) outcome"
  mj_render :: "'tmpl \<Rightarrow> json option \<Rightarrow> (string, string) outcome"

text \<open>
  \<open>add_template_owned\<close> returns a \<open>Result\<close>: an error or the environment with the template. It is
  called while the cache is locked for writing, and taken not to panic there.
\<close>

definition mj_add :: "('env, 'tmpl) minijinja \<Rightarrow> string \<Rightarrow> string \<Rightarrow> 'env \<Rightarrow> (string, 'env) outcome" where
  "mj_add M name source env = (case mj_add_owned M name source env of Inl e \<Rightarrow> Err e | Inr env' \<Rightarrow> Ok env')"

text \<open>
  The files, paths and topics a command finds when it runs: an argument of every call, so that they
  may change from one call to the next. A loader is only named; what it finds is looked up when a
  template is rendered and is part of the engine's \<open>mj_render\<close>.
\<close>

record tmpl_services =
  ts_abs_path :: "string \<Rightarrow> string"
  ts_parent :: "string \<Rightarrow> string option"
  ts_file_name :: "string \<Rightarrow> string option"
  ts_read_file :: "string \<Rightarrow> (string, string) outcome"
  ts_store :: "topic_store option"

section \<open>The cache\<close>

type_synonym 'env tmpl_cache = "(128 word \<times> 'env) list"

type_synonym hasher = "bytes \<Rightarrow> 128 word"

definition hash_source_and_path :: "hasher \<Rightarrow> string \<Rightarrow> string \<Rightarrow> 128 word" where
  "hash_source_and_path H source base_dir = H (source @ base_dir)"

definition compile_template_with_loader :: "('env, 'tmpl) minijinja \<Rightarrow> hasher \<Rightarrow> string \<Rightarrow> string \<Rightarrow> loader \<Rightarrow>
    'env tmpl_cache \<Rightarrow> (string, 128 word) outcome \<times> 'env tmpl_cache" where
  "compile_template_with_loader M H source base_dir loader cache =
     (let hash = hash_source_and_path H source base_dir in
      if map_of cache hash \<noteq> None then (Ok hash, cache)
      else
        (case mj_add_owned M ''template'' source (mj_set_loader M loader (mj_new M)) of
           Inl e \<Rightarrow> (Err e, cache)
         | Inr env \<Rightarrow> (Ok hash, map_insert hash env cache)))"

lemma compile_template_add:
  "compile_template_with_loader M H source base_dir loader cache =
     (let hash = hash_source_and_path H source base_dir in
      if map_of cache hash \<noteq> None then (Ok hash, cache)
      else
        (case mj_add M ''template'' source (mj_set_loader M loader (mj_new M)) of
           Err e \<Rightarrow> (Err e, cache)
         | Panic m \<Rightarrow> (Panic m, cache)
         | Ok env \<Rightarrow> (Ok hash, map_insert hash env cache)))"
  by (simp add: compile_template_with_loader_def mj_add_def Let_def split: sum.split)

definition compile_template :: "('env, 'tmpl) minijinja \<Rightarrow> hasher \<Rightarrow> string \<Rightarrow> string \<Rightarrow>
    'env tmpl_cache \<Rightarrow> (string, 128 word) outcome \<times> 'env tmpl_cache" where
  "compile_template M H source base_dir cache = compile_template_with_loader M H source base_dir (PathLoader base_dir) cache"

definition get_compiled :: "128 word \<Rightarrow> 'env tmpl_cache \<Rightarrow> 'env option" where
  "get_compiled hash cache = map_of cache hash"

text \<open>\<open>CompiledTemplate::render\<close>.\<close>

definition render_compiled :: "('env, 'tmpl) minijinja \<Rightarrow> 128 word \<Rightarrow> json option \<Rightarrow> 'env tmpl_cache \<Rightarrow> (string, string) outcome" where
  "render_compiled M hash context cache =
     (case get_compiled hash cache of
        None \<Rightarrow> Panic ''template not in cache''
      | Some env \<Rightarrow> obind (mj_get M env ''template'') (\<lambda>tmpl. mj_render M tmpl context))"

text \<open>
  \<open>to_base_value\<close>: a handle outside the program is its key as 32 hexadecimal digits, which keep it
  apart from every other.
\<close>

definition hex_digit :: "nat \<Rightarrow> char" where
  "hex_digit n = ''0123456789abcdef'' ! n"

definition nibble :: "128 word \<Rightarrow> nat \<Rightarrow> nat" where
  "nibble h i = unat h div 16 ^ i mod 16"

definition to_base_value :: "128 word \<Rightarrow> nu_value" where
  "to_base_value h = VString (map (\<lambda>i. hex_digit (nibble h i)) (rev [0..<32]))"

lemma hex_digit_inj: "inj_on hex_digit {..<16}"
proof -
  have "distinct ''0123456789abcdef''" "length ''0123456789abcdef'' = 16" by code_simp+
  then show ?thesis by (auto simp: inj_on_def hex_digit_def nth_eq_iff_index_eq)
qed

lemma digits_eq:
  "(\<forall>i<k. m div 16 ^ i mod 16 = n div 16 ^ i mod 16) \<Longrightarrow> m mod 16 ^ k = (n :: nat) mod 16 ^ k"
proof (induction k)
  case (Suc k)
  have "m mod 16 ^ Suc k = m div 16 ^ k mod 16 * 16 ^ k + m mod 16 ^ k" for m :: nat
    using mod_mult2_eq [of m "16 ^ k" 16] by (simp add: mult.commute)
  with Suc show ?case by simp
qed simp

lemma to_base_value_inj: "to_base_value h = to_base_value h' \<longleftrightarrow> h = h'"
proof
  assume "to_base_value h = to_base_value h'"
  then have "\<forall>i<32. hex_digit (nibble h i) = hex_digit (nibble h' i)"
    by (auto simp: to_base_value_def)
  then have "\<forall>i<32. nibble h i = nibble h' i"
    using hex_digit_inj by (auto simp: inj_on_def nibble_def)
  then have "unat h mod 16 ^ 32 = unat h' mod 16 ^ 32" by (intro digits_eq) (simp add: nibble_def)
  moreover have "unat w < 16 ^ 32" for w :: "128 word" using unsigned_less [where ?'a = nat, of w] by simp
  ultimately show "h = h'" by (simp add: word_unat_eq_iff)
qed simp

section \<open>The commands\<close>

text \<open>The number of ways given to name the template must be one.\<close>

definition check_mode :: "nat \<Rightarrow> (shell_error, unit) outcome" where
  "check_mode mode_count =
     (if 1 < mode_count then
        Err (Generic ''Cannot combine file, --inline, and --topic'' ''use exactly one of: file path, --inline, or --topic'')
      else if mode_count = 0 then
        Err (Generic ''No template specified'' ''provide a file path, --inline, or --topic'')
      else Ok ())"

definition count_some :: "'a option \<Rightarrow> nat" where
  "count_some x = (case x of Some _ \<Rightarrow> 1 | None \<Rightarrow> 0)"

text \<open>A value for the engine, through its JSON; the context of a template, where \<open>None\<close> is minijinja's unit.\<close>

definition nu_value_to_minijinja :: "sse_config \<Rightarrow> nu_value \<Rightarrow> json option" where
  "nu_value_to_minijinja C val = Some (sse_to_json C val)"

definition mj_context :: "sse_config \<Rightarrow> pipeline_data \<Rightarrow> (shell_error, json option) outcome" where
  "mj_context C input =
     (case input of
        PValue v _ \<Rightarrow> Ok (nu_value_to_minijinja C v)
      | PEmpty \<Rightarrow> Ok None
      | _ \<Rightarrow> Err (TypeMismatch ''expected record input''))"

text \<open>An error of the template engine as a shell error: a title in front of its text.\<close>

definition mj_err :: "string \<Rightarrow> (string, 'a) outcome \<Rightarrow> (shell_error, 'a) outcome" where
  "mj_err title m = (case m of Ok x \<Rightarrow> Ok x | Err e \<Rightarrow> Err (Generic (title @ e) e) | Panic p \<Rightarrow> Panic p)"

definition load_topic :: "tmpl_services \<Rightarrow> string \<Rightarrow> (shell_error, string) outcome" where
  "load_topic T topic_name =
     (case ts_store T of
        None \<Rightarrow> Err (Generic ''--topic requires --store'' ''server must be started with --store to use --topic'')
      | Some store \<Rightarrow>
          of_option (Generic (''Topic not found: '' @ topic_name) ''no content in store for this topic'') (load_topic_content store topic_name))"

definition mj_file_template :: "('env, 'tmpl) minijinja \<Rightarrow> tmpl_services \<Rightarrow> string \<Rightarrow> (shell_error, 'tmpl) outcome" where
  "mj_file_template M T file_path =
     (let abs_path = ts_abs_path T file_path;
          env = (case ts_parent T abs_path of Some p \<Rightarrow> mj_set_loader M (PathLoader p) (mj_new M) | None \<Rightarrow> mj_new M);
          name = (case ts_file_name T abs_path of Some n \<Rightarrow> n | None \<Rightarrow> ''template'')
      in mj_err ''Template error: '' (mj_get M env name))"

definition mj_topic_template :: "('env, 'tmpl) minijinja \<Rightarrow> tmpl_services \<Rightarrow> string \<Rightarrow> (shell_error, 'tmpl) outcome" where
  "mj_topic_template M T topic_name =
     obind (load_topic T topic_name) (\<lambda>source.
     obind (mj_err ''Template parse error: '' (mj_add M topic_name source (mj_set_loader M TopicLoader (mj_new M)))) (\<lambda>env.
     mj_err ''Template error: '' (mj_get M env topic_name)))"

definition mj_inline_template :: "('env, 'tmpl) minijinja \<Rightarrow> string \<Rightarrow> (shell_error, 'tmpl) outcome" where
  "mj_inline_template M source =
     obind (mj_err ''Template parse error: '' (mj_add M ''template'' source (mj_new M))) (\<lambda>env.
     mj_err ''Failed to get template: '' (mj_get M env ''template''))"

definition mj_run :: "('env, 'tmpl) minijinja \<Rightarrow> tmpl_services \<Rightarrow> sse_config \<Rightarrow> string option \<Rightarrow> string option \<Rightarrow>
    string option \<Rightarrow> pipeline_data \<Rightarrow> (shell_error, pipeline_data) outcome" where
  "mj_run M T C file inline_arg topic_arg input =
     obind (check_mode (count_some file + count_some inline_arg + count_some topic_arg)) (\<lambda>_.
     obind (mj_context C input) (\<lambda>context.
     obind (case file of
              Some p \<Rightarrow> mj_file_template M T p
            | None \<Rightarrow>
                (case topic_arg of
                   Some t \<Rightarrow> mj_topic_template M T t
                 | None \<Rightarrow> obind (unwrap ''inline.unwrap()'' inline_arg) (mj_inline_template M))) (\<lambda>tmpl.
     obind (mj_err ''Template render error: '' (mj_render M tmpl context)) (\<lambda>rendered.
     Ok (PValue (VString rendered) None)))))"

text \<open>\<open>--inline\<close> of \<open>.mj compile\<close> is a string or a record with \<open>__html\<close>.\<close>

definition inline_source :: "nu_value option \<Rightarrow> (shell_error, string option) outcome" where
  "inline_source inline_arg =
     (case inline_arg of
        None \<Rightarrow> Ok None
      | Some (VString s) \<Rightarrow> Ok (Some s)
      | Some (VRecord r) \<Rightarrow>
          (case rec_get r ''__html'' of
             Some (VString s) \<Rightarrow> Ok (Some s)
           | Some _ \<Rightarrow> Err (Generic ''__html must be a string'' ''expected string value'')
           | None \<Rightarrow> Err (Generic ''Record must have __html field'' ''expected {__html: string}''))
      | Some _ \<Rightarrow> Err (Generic ''--inline must be string or {__html: string}'' ''invalid type''))"

text \<open>The source, the directory that enters the key, and the loader, for the way chosen.\<close>

definition compile_input :: "tmpl_services \<Rightarrow> string option \<Rightarrow> string option \<Rightarrow> string option \<Rightarrow>
    (shell_error, string \<times> string \<times> loader) outcome" where
  "compile_input T file inline_str topic_arg =
     (case file of
        Some p \<Rightarrow>
          let abs_path = ts_abs_path T p;
              base_dir = (case ts_parent T abs_path of Some d \<Rightarrow> d | None \<Rightarrow> abs_path)
          in (case ts_read_file T abs_path of
                Ok source \<Rightarrow> Ok (source, base_dir, PathLoader base_dir)
              | Err e \<Rightarrow> Err (Generic (''Failed to read template file: '' @ e) ''could not read file'')
              | Panic m \<Rightarrow> Panic m)
      | None \<Rightarrow>
          (case topic_arg of
             Some t \<Rightarrow> obind (load_topic T t) (\<lambda>source. Ok (source, ''__topic__/'' @ t, TopicLoader))
           | None \<Rightarrow> obind (unwrap ''inline_str.unwrap()'' inline_str) (\<lambda>source. Ok (source, ''__inline__'', NoLoader))))"

definition compile_source :: "tmpl_services \<Rightarrow> string option \<Rightarrow> nu_value option \<Rightarrow> string option \<Rightarrow>
    (shell_error, string \<times> string \<times> loader) outcome" where
  "compile_source T file inline_arg topic_arg =
     obind (inline_source inline_arg) (\<lambda>inline_str.
     obind (check_mode (count_some file + count_some inline_str + count_some topic_arg)) (\<lambda>_.
       compile_input T file inline_str topic_arg))"

definition mj_compile_run :: "('env, 'tmpl) minijinja \<Rightarrow> hasher \<Rightarrow> tmpl_services \<Rightarrow> string option \<Rightarrow> nu_value option \<Rightarrow>
    string option \<Rightarrow> 'env tmpl_cache \<Rightarrow> (shell_error, pipeline_data) outcome \<times> 'env tmpl_cache" where
  "mj_compile_run M H T file inline_arg topic_arg cache =
     (case compile_source T file inline_arg topic_arg of
        Err e \<Rightarrow> (Err e, cache)
      | Panic m \<Rightarrow> (Panic m, cache)
      | Ok (source, base_dir, loader) \<Rightarrow>
          (case compile_template_with_loader M H source base_dir loader cache of
             (res, cache') \<Rightarrow>
               (obind (mj_err ''Template compile error: '' res)
                  (\<lambda>hash. Ok (PValue (VCustom (CompiledTemplate hash)) None)), cache')))"

definition mj_render_run :: "('env, 'tmpl) minijinja \<Rightarrow> sse_config \<Rightarrow> nu_value \<Rightarrow> pipeline_data \<Rightarrow> 'env tmpl_cache \<Rightarrow>
    (shell_error, pipeline_data) outcome" where
  "mj_render_run M C template_val input cache =
     (case template_val of
        VCustom (CompiledTemplate hash) \<Rightarrow>
          obind (mj_context C input) (\<lambda>context.
          obind (mj_err ''Template render error: '' (render_compiled M hash context cache)) (\<lambda>rendered.
          Ok (PValue (VString rendered) None)))
      | VCustom c \<Rightarrow> Err (TypeMismatch ''expected CompiledTemplate'')
      | _ \<Rightarrow> Err (TypeMismatch (''expected CompiledTemplate from '' @ CHR 0x27 # ''.mj compile'' @ [CHR 0x27])))"

section \<open>Compiled templates last\<close>

text \<open>
  A cache that compiles on demand: a key that was handed out is found, what is found stays, and
  what is found was compiled by some request with that key.
\<close>

locale template_cache =
  fixes compile :: "'r \<Rightarrow> 's \<Rightarrow> ('e, 'k) outcome \<times> 's"
    and lookup :: "'k \<Rightarrow> 's \<Rightarrow> 'v option"
    and key :: "'r \<Rightarrow> 'k option"
    and built :: "'r \<Rightarrow> 'v \<Rightarrow> bool"
  assumes found: "fst (compile r s) = Ok k \<Longrightarrow> key r = Some k \<and> lookup k (snd (compile r s)) \<noteq> None"
    and keeps: "lookup k s = Some v \<Longrightarrow> lookup k (snd (compile r s)) = Some v"
    and origin: "lookup k (snd (compile r s)) = Some v \<Longrightarrow> lookup k s = None \<Longrightarrow> key r = Some k \<and> built r v"
begin

definition after :: "'r list \<Rightarrow> 's \<Rightarrow> 's" where
  "after rs s = fold (\<lambda>r. snd \<circ> compile r) rs s"

lemma after_keeps: "lookup k s = Some v \<Longrightarrow> lookup k (after rs s) = Some v"
  by (induction rs arbitrary: s) (simp_all add: after_def keeps)

lemma after_origin:
  "lookup k (after rs s) = Some v \<Longrightarrow> lookup k s = None \<Longrightarrow> \<exists>r\<in>set rs. key r = Some k \<and> built r v"
proof (induction rs arbitrary: s)
  case (Cons r rs)
  show ?case
  proof (cases "lookup k (snd (compile r s))")
    case None
    with Cons show ?thesis by (auto simp: after_def)
  next
    case (Some w)
    then have "lookup k (after (r # rs) s) = Some w" using after_keeps by (simp add: after_def)
    with Cons.prems Some origin show ?thesis by auto
  qed
qed (simp add: after_def)

lemma handle_lasts:
  assumes "fst (compile r (after rs s)) = Ok k" "lookup k s = None"
  shows "\<exists>q\<in>insert r (set rs). \<exists>v. key q = key r \<and> built q v \<and>
    (\<forall>rs'. lookup k (after rs' (snd (compile r (after rs s)))) = Some v)"
proof -
  let ?s = "snd (compile r (after rs s))"
  have s: "?s = after (rs @ [r]) s" by (simp add: after_def)
  obtain v where v: "lookup k ?s = Some v" and k: "key r = Some k" using found [OF assms(1)] by auto
  obtain q where "q \<in> set (rs @ [r])" "key q = Some k" "built q v"
    using after_origin [of k "rs @ [r]" s v] v assms(2) s by metis
  then show ?thesis using after_keeps [OF v] k by auto
qed

end

record compile_request =
  cr_services :: tmpl_services
  cr_file :: "string option"
  cr_inline :: "nu_value option"
  cr_topic :: "string option"

definition request_source :: "compile_request \<Rightarrow> (shell_error, string \<times> string \<times> loader) outcome" where
  "request_source r = compile_source (cr_services r) (cr_file r) (cr_inline r) (cr_topic r)"

definition request_key :: "hasher \<Rightarrow> compile_request \<Rightarrow> 128 word option" where
  "request_key H r =
     (case request_source r of Ok (source, base_dir, loader) \<Rightarrow> Some (hash_source_and_path H source base_dir) | _ \<Rightarrow> None)"

definition compiled_env :: "('env, 'tmpl) minijinja \<Rightarrow> string \<Rightarrow> loader \<Rightarrow> (string, 'env) outcome" where
  "compiled_env M source loader = mj_add M ''template'' source (mj_set_loader M loader (mj_new M))"

definition request_built :: "('env, 'tmpl) minijinja \<Rightarrow> compile_request \<Rightarrow> 'env \<Rightarrow> bool" where
  "request_built M r env =
     (case request_source r of Ok (source, base_dir, loader) \<Rightarrow> compiled_env M source loader = Ok env | _ \<Rightarrow> False)"

definition mj_compile_request :: "('env, 'tmpl) minijinja \<Rightarrow> hasher \<Rightarrow> compile_request \<Rightarrow> 'env tmpl_cache \<Rightarrow>
    (shell_error, pipeline_data) outcome \<times> 'env tmpl_cache" where
  "mj_compile_request M H r cache = mj_compile_run M H (cr_services r) (cr_file r) (cr_inline r) (cr_topic r) cache"

definition mj_compiles :: "('env, 'tmpl) minijinja \<Rightarrow> hasher \<Rightarrow> compile_request list \<Rightarrow> 'env tmpl_cache \<Rightarrow> 'env tmpl_cache" where
  "mj_compiles M H rs cache = fold (\<lambda>r. snd \<circ> mj_compile_request M H r) rs cache"

text \<open>The key in the handle a command returned.\<close>

definition handle_key :: "(shell_error, pipeline_data) outcome \<Rightarrow> (shell_error, 128 word) outcome" where
  "handle_key res =
     (case res of
        Ok (PValue (VCustom (CompiledTemplate k)) md) \<Rightarrow> Ok k
      | Ok other \<Rightarrow> Panic ''not a handle''
      | Err e \<Rightarrow> Err e
      | Panic m \<Rightarrow> Panic m)"

definition compile_key :: "('env, 'tmpl) minijinja \<Rightarrow> hasher \<Rightarrow> compile_request \<Rightarrow> 'env tmpl_cache \<Rightarrow>
    (shell_error, 128 word) outcome \<times> 'env tmpl_cache" where
  "compile_key M H r cache = apfst handle_key (mj_compile_request M H r cache)"

lemma mj_err_Ok_iff [simp]: "mj_err t m = Ok x \<longleftrightarrow> m = Ok x"
  by (cases m) (auto simp: mj_err_def)

lemma handle_key_simps [simp]:
  "handle_key (Ok (PValue (VCustom (CompiledTemplate k)) md)) = Ok k"
  "handle_key (Err e) = Err e" "handle_key (Panic m) = Panic m"
  by (simp_all add: handle_key_def)

lemmas compile_defs = compile_key_def mj_compile_request_def mj_compile_run_def request_key_def request_built_def
  request_source_def compiled_env_def compile_template_add get_compiled_def Let_def

interpretation tc: template_cache "compile_key M H" get_compiled "request_key H" "request_built M"
  for M :: "('env, 'tmpl) minijinja" and H
proof
  fix r k and s :: "'env tmpl_cache"
  assume "fst (compile_key M H r s) = Ok k"
  then show "request_key H r = Some k \<and> get_compiled k (snd (compile_key M H r s)) \<noteq> None"
    by (auto simp: compile_defs mj_err_def split: outcome.splits if_splits)
next
  fix k v r and s :: "'env tmpl_cache"
  assume "get_compiled k s = Some v"
  then show "get_compiled k (snd (compile_key M H r s)) = Some v"
    by (auto simp: compile_defs split: outcome.splits)
next
  fix k r v and s :: "'env tmpl_cache"
  assume "get_compiled k (snd (compile_key M H r s)) = Some v" "get_compiled k s = None"
  then show "request_key H r = Some k \<and> request_built M r v"
    by (auto simp: compile_defs split: outcome.splits if_splits)
qed

lemma after_compiles: "template_cache.after (compile_key M H) rs s = mj_compiles M H rs s"
proof -
  have "(\<lambda>r. snd \<circ> compile_key M H r) = (\<lambda>r. snd \<circ> mj_compile_request M H r)"
    by (intro ext) (simp add: compile_key_def)
  then show ?thesis by (simp add: tc.after_def mj_compiles_def)
qed

lemma mj_compiles_Nil [simp]: "mj_compiles M H [] s = s"
  by (simp add: mj_compiles_def)

lemma handle_key_Ok_iff: "handle_key res = Ok k \<longleftrightarrow> (\<exists>md. res = Ok (PValue (VCustom (CompiledTemplate k)) md))"
  by (auto simp: handle_key_def split: outcome.splits pipeline_data.splits nu_value.splits custom_value.splits)

section \<open>Properties\<close>

lemma render_of_env:
  "get_compiled k cache = Some env \<Longrightarrow>
    mj_render_run M C (VCustom (CompiledTemplate k)) input cache =
      obind (mj_context C input) (\<lambda>context.
      obind (mj_err ''Template render error: '' (obind (mj_get M env ''template'') (\<lambda>t. mj_render M t context))) (\<lambda>out.
      Ok (PValue (VString out) None)))"
  by (simp add: mj_render_run_def render_compiled_def)

text \<open>
  What the engine answers when a template is added to a new environment and rendered there, and
  the law about loaders: one that finds nothing answers as no loader does.
\<close>

definition engine_rendering :: "('env, 'tmpl) minijinja \<Rightarrow> 'env \<Rightarrow> string \<Rightarrow> json option \<Rightarrow> (string, string) outcome" where
  "engine_rendering M env0 source context =
     obind (mj_add M ''template'' source env0) (\<lambda>env.
     obind (mj_get M env ''template'') (\<lambda>tmpl. mj_render M tmpl context))"

definition empty_loader_law :: "('env, 'tmpl) minijinja \<Rightarrow> bool" where
  "empty_loader_law M = (\<forall>source context.
     engine_rendering M (mj_set_loader M NoLoader (mj_new M)) source context = engine_rendering M (mj_new M) source context)"

text \<open>
  What a script has of a command's end: its output, or the engine's own text of the error, without
  the command's title in front of it.
\<close>

definition engine_answer :: "(shell_error, pipeline_data) outcome \<Rightarrow> (string, pipeline_data) outcome" where
  "engine_answer res =
     (case res of Ok out \<Rightarrow> Ok out | Err (Generic title label) \<Rightarrow> Err label | Err e \<Rightarrow> Err '''' | Panic m \<Rightarrow> Panic m)"

definition rendered_text :: "(string, string) outcome \<Rightarrow> (string, pipeline_data) outcome" where
  "rendered_text m = obind m (\<lambda>out. Ok (PValue (VString out) None))"

text \<open>A script: compile an inline template, let others compile, render with the handle.\<close>

definition compile_then_render :: "('env, 'tmpl) minijinja \<Rightarrow> hasher \<Rightarrow> sse_config \<Rightarrow> compile_request \<Rightarrow>
    compile_request list \<Rightarrow> pipeline_data \<Rightarrow> 'env tmpl_cache \<Rightarrow> (shell_error, pipeline_data) outcome" where
  "compile_then_render M H C r rs input cache =
     (case mj_compile_request M H r cache of
        (Ok (PValue handle md), cache') \<Rightarrow> mj_render_run M C handle input (mj_compiles M H rs cache')
      | (Ok other, cache') \<Rightarrow> Panic ''not a handle''
      | (Err e, cache') \<Rightarrow> Err e
      | (Panic m, cache') \<Rightarrow> Panic m)"

lemma engine_answer_simps [simp]:
  "engine_answer (Ok out) = Ok out" "engine_answer (Err (Generic title label)) = Err label" "engine_answer (Panic m) = Panic m"
  by (simp_all add: engine_answer_def)

lemma engine_answer_render [simp]:
  "engine_answer (obind (mj_err title m) (\<lambda>out. Ok (PValue (VString out) None))) = rendered_text m"
  by (cases m) (simp_all add: mj_err_def rendered_text_def)

lemma direct_answer:
  assumes "mj_context C input = Ok context"
  shows "engine_answer (mj_run M T C None (Some source) None input) = rendered_text (engine_rendering M (mj_new M) source context)"
proof (cases "mj_add M ''template'' source (mj_new M)")
  case (Ok env)
  then show ?thesis using assms
    by (cases "mj_get M env ''template''")
      (simp_all add: mj_run_def check_mode_def count_some_def mj_inline_template_def engine_rendering_def mj_err_def
        rendered_text_def split: outcome.splits)
qed (use assms in \<open>simp_all add: mj_run_def check_mode_def count_some_def mj_inline_template_def engine_rendering_def
    mj_err_def rendered_text_def\<close>)

lemma compiled_env_rendering:
  "compiled_env M source loader = Ok env \<Longrightarrow>
    engine_rendering M (mj_set_loader M loader (mj_new M)) source context =
      obind (mj_get M env ''template'') (\<lambda>tmpl. mj_render M tmpl context)"
  by (simp add: compiled_env_def engine_rendering_def)

text \<open>
  What a handle stands for: the environment its own source and loader give, from the compilation
  on, whatever is compiled before and after it.
\<close>

lemma handle_env:
  assumes "mj_compile_request M H r (mj_compiles M H rs []) = (Ok (PValue (VCustom (CompiledTemplate k)) md), cache)"
    and "request_source r = Ok (source, base_dir, loader)"
    and "\<forall>q\<in>set rs. request_key H q = request_key H r \<longrightarrow> request_source q = request_source r"
  shows "\<exists>env. compiled_env M source loader = Ok env \<and> (\<forall>rs'. get_compiled k (mj_compiles M H rs' cache) = Some env)"
proof -
  have key: "fst (compile_key M H r (mj_compiles M H rs [])) = Ok k" "snd (compile_key M H r (mj_compiles M H rs [])) = cache"
    using assms(1) by (simp_all add: compile_key_def)
  obtain q env where q: "q \<in> insert r (set rs)" "request_key H q = request_key H r" "request_built M q env"
    and stays: "\<And>rs'. get_compiled k (mj_compiles M H rs' cache) = Some env"
    using tc.handle_lasts [of M H r rs "[]" k] key by (auto simp: after_compiles get_compiled_def)
  have "request_source q = Ok (source, base_dir, loader)" using q(1,2) assms(2,3) by auto
  then show ?thesis using q(3) stays by (auto simp: request_built_def)
qed

text \<open>
  A compilation that fails leaves the engine's error, and one that succeeds leaves an environment
  that answers as the loader's new one, whether it was just made or found in the cache.
\<close>

lemma compile_outcome:
  assumes "request_source r = Ok (source, base_dir, loader)"
    and "\<forall>q\<in>set rs. request_key H q = request_key H r \<longrightarrow> request_source q = request_source r"
  shows "(\<exists>k cache env. mj_compile_request M H r (mj_compiles M H rs []) = (Ok (PValue (VCustom (CompiledTemplate k)) None), cache) \<and>
      compiled_env M source loader = Ok env \<and> (\<forall>rs'. get_compiled k (mj_compiles M H rs' cache) = Some env)) \<or>
    (\<exists>e cache. mj_compile_request M H r (mj_compiles M H rs []) = (Err (Generic (''Template compile error: '' @ e) e), cache) \<and>
      compiled_env M source loader = Err e) \<or>
    (\<exists>m cache. mj_compile_request M H r (mj_compiles M H rs []) = (Panic m, cache) \<and> compiled_env M source loader = Panic m)"
proof -
  let ?s = "mj_compiles M H rs []" and ?k = "hash_source_and_path H source base_dir"
  have src: "compile_source (cr_services r) (cr_file r) (cr_inline r) (cr_topic r) = Ok (source, base_dir, loader)"
    using assms(1) by (simp add: request_source_def)
  have cached: "map_of ?s ?k = Some env \<Longrightarrow>
      mj_compile_request M H r ?s = (Ok (PValue (VCustom (CompiledTemplate ?k)) None), ?s)" for env
    by (simp add: mj_compile_request_def mj_compile_run_def compile_template_add mj_err_def src Let_def)
  have new: "mj_compile_request M H r ?s =
      (obind (mj_err ''Template compile error: '' (compiled_env M source loader))
         (\<lambda>env. Ok (PValue (VCustom (CompiledTemplate ?k)) None)),
       case compiled_env M source loader of Ok env \<Rightarrow> map_insert ?k env ?s | _ \<Rightarrow> ?s)" if "map_of ?s ?k = None"
    using that by (cases "compiled_env M source loader") (simp_all add: mj_compile_request_def mj_compile_run_def
        compile_template_add compiled_env_def mj_err_def src Let_def)
  show ?thesis
  proof (cases "map_of ?s ?k")
    case (Some env)
    show ?thesis using cached [OF Some] handle_env [OF cached [OF Some] assms] by blast
  next
    case None
    show ?thesis
    proof (cases "compiled_env M source loader")
      case (Ok env)
      then have "mj_compile_request M H r ?s = (Ok (PValue (VCustom (CompiledTemplate ?k)) None), map_insert ?k env ?s)"
        using new [OF None] by (simp add: mj_err_def)
      then show ?thesis using handle_env [OF _ assms] by blast
    qed (use new [OF None] in \<open>simp_all add: mj_err_def\<close>)
  qed
qed

text \<open>
  C28. A handle that \<open>.mj compile\<close> returned renders the template it was compiled from, for ever: from
  the empty cache, after any other compilations before, whatever is compiled after it, and even
  when files and topics have changed since. (Provided no earlier request with another source has
  the same cache key.) In particular \<open>expect("template not in cache")\<close> is never reached.
\<close>

theorem compiled_handle_renders:
  assumes "mj_compile_request M H r (mj_compiles M H rs []) = (Ok (PValue (VCustom (CompiledTemplate k)) md), cache)"
    and "request_source r = Ok (source, base_dir, loader)"
    and "\<forall>q\<in>set rs. request_key H q = request_key H r \<longrightarrow> request_source q = request_source r"
  shows "\<exists>env. mj_add M ''template'' source (mj_set_loader M loader (mj_new M)) = Ok env \<and>
    (\<forall>rs' input. mj_render_run M C (VCustom (CompiledTemplate k)) input (mj_compiles M H rs' cache) =
      obind (mj_context C input) (\<lambda>context.
      obind (mj_err ''Template render error: '' (obind (mj_get M env ''template'') (\<lambda>t. mj_render M t context))) (\<lambda>out.
      Ok (PValue (VString out) None))))"
  using handle_env [OF assms] render_of_env by (metis compiled_env_def)

text \<open>A small engine: a template is its source, and one with a brace at its end does not parse.\<close>

definition toy_engine :: "((string \<times> string) list, string) minijinja" where
  "toy_engine = \<lparr>mj_new = [], mj_set_loader = (\<lambda>l env. env),
     mj_add_owned = (\<lambda>name src env. if src \<noteq> [] \<and> last src = CHR 0x7B then Inl ''unclosed'' else Inr ((name, src) # env)),
     mj_get = (\<lambda>env name. of_option ''not found'' (map_of env name)),
     mj_render = (\<lambda>t ctx. Ok (''<p>'' @ t))\<rparr>"

definition toy_hash :: "bytes \<Rightarrow> 128 word" where
  "toy_hash b = foldl (\<lambda>h c. h * 31 + of_nat (byte_of c)) 7 b"

definition toy_services :: "topic_store option \<Rightarrow> tmpl_services" where
  "toy_services store = \<lparr>ts_abs_path = (\<lambda>p. ''/srv/'' @ p), ts_parent = (\<lambda>p. Some ''/srv''), ts_file_name = Some,
     ts_read_file = (\<lambda>p. if p = ''/srv/a.html'' then Ok ''file'' else Err ''not found''), ts_store = store\<rparr>"

definition toy_config :: sse_config where
  "toy_config = \<lparr>sc_expand = (\<lambda>v. ''value''), sc_type = type_name, sc_json_str = (\<lambda>j. Ok ''json'')\<rparr>"

definition inline_request :: "string \<Rightarrow> compile_request" where
  "inline_request s = \<lparr>cr_services = toy_services None, cr_file = None, cr_inline = Some (VString s), cr_topic = None\<rparr>"

definition file_request :: compile_request where
  "file_request = \<lparr>cr_services = toy_services None, cr_file = Some ''a.html'', cr_inline = None, cr_topic = None\<rparr>"

lemmas toy_defs = toy_engine_def mj_add_def toy_services_def toy_config_def inline_request_def file_request_def mj_compile_request_def
  mj_compiles_def mj_compile_run_def request_source_def compile_source_def inline_source_def check_mode_def count_some_def
  compile_input_def compile_template_add hash_source_and_path_def mj_err_def request_key_def Let_def

lemma toy_hashes:
  "toy_hash ''hi__inline__'' \<noteq> toy_hash ''file/srv''" "toy_hash ''file/srv'' \<noteq> toy_hash ''hi__inline__''"
  by code_simp+

theorem compiled_handle_renders_witness:
  "\<exists>k. mj_render_run toy_engine toy_config (VCustom (CompiledTemplate k)) PEmpty
     (mj_compiles toy_engine toy_hash [inline_request ''x'']
       (snd (mj_compile_request toy_engine toy_hash (inline_request ''hi'') (mj_compiles toy_engine toy_hash [file_request] [])))) =
     Ok (PValue (VString ''<p>hi'') None)"
proof -
  let ?k = "toy_hash ''hi__inline__''"
  let ?c = "mj_compile_request toy_engine toy_hash (inline_request ''hi'') (mj_compiles toy_engine toy_hash [file_request] [])"
  have 1: "?c = (Ok (PValue (VCustom (CompiledTemplate ?k)) None), snd ?c)"
    by (simp add: toy_defs toy_hashes map_insert_def)
  have 2: "request_source (inline_request ''hi'') = Ok (''hi'', ''__inline__'', NoLoader)"
    by (simp add: toy_defs)
  have 3: "\<forall>q\<in>set [file_request]. request_key toy_hash q = request_key toy_hash (inline_request ''hi'') \<longrightarrow>
      request_source q = request_source (inline_request ''hi'')"
    by (simp add: toy_defs toy_hashes)
  obtain env where env: "mj_add toy_engine ''template'' ''hi'' (mj_set_loader toy_engine NoLoader (mj_new toy_engine)) = Ok env"
    and render: "\<And>rs' input. mj_render_run toy_engine toy_config (VCustom (CompiledTemplate ?k)) input
      (mj_compiles toy_engine toy_hash rs' (snd ?c)) =
      obind (mj_context toy_config input) (\<lambda>context.
      obind (mj_err ''Template render error: ''
        (obind (mj_get toy_engine env ''template'') (\<lambda>t. mj_render toy_engine t context))) (\<lambda>out.
      Ok (PValue (VString out) None)))"
    using compiled_handle_renders [OF 1 2 3, of toy_config] by blast
  from env have "env = [(''template'', ''hi'')]" by (simp add: toy_engine_def mj_add_def)
  then have "mj_render_run toy_engine toy_config (VCustom (CompiledTemplate ?k)) PEmpty
      (mj_compiles toy_engine toy_hash [inline_request ''x''] (snd ?c)) = Ok (PValue (VString ''<p>hi'') None)"
    unfolding render by (simp add: toy_engine_def mj_add_def mj_context_def mj_err_def)
  then show ?thesis by blast
qed

text \<open>
  C29. Compiling changes nothing but the time: an inline template compiled in one call and rendered in
  another gives what \<open>.mj --inline\<close> gives of the same text and the same input, the engine's error
  included, whether it was compiled now or found in the cache, and whatever is compiled in between.
  This is for an input that can be made the template's context, an engine for which a loader that
  finds nothing is as none, and a key that no earlier request with another source has (one may, under
  any hash: a topic whose name ends in \<open>__inline__\<close>).
\<close>

theorem compiled_inline_as_direct:
  assumes "empty_loader_law M"
    and "request_source r = Ok (source, ''__inline__'', NoLoader)"
    and "\<forall>q\<in>set rs. request_key H q = request_key H r \<longrightarrow> request_source q = request_source r"
    and "mj_context C input = Ok context"
  shows "engine_answer (compile_then_render M H C r rs' input (mj_compiles M H rs [])) =
    engine_answer (mj_run M T C None (Some source) None input)"
proof -
  have "engine_answer (compile_then_render M H C r rs' input (mj_compiles M H rs [])) =
      rendered_text (engine_rendering M (mj_set_loader M NoLoader (mj_new M)) source context)"
    using compile_outcome [OF assms(2,3), of M]
  proof (elim disjE exE conjE)
    fix k cache env
    assume ok: "mj_compile_request M H r (mj_compiles M H rs []) = (Ok (PValue (VCustom (CompiledTemplate k)) None), cache)"
      and env: "compiled_env M source NoLoader = Ok env" and stays: "\<forall>rs'. get_compiled k (mj_compiles M H rs' cache) = Some env"
    show ?thesis
      unfolding compile_then_render_def ok using assms(4)
      by (simp add: render_of_env [OF spec [OF stays]] compiled_env_rendering [OF env])
  qed (simp_all add: compile_then_render_def compiled_env_def engine_rendering_def rendered_text_def)
  then show ?thesis using assms(1,4) by (simp add: direct_answer empty_loader_law_def)
qed

theorem compiled_inline_as_direct_witness:
  "engine_answer (compile_then_render toy_engine toy_hash toy_config (inline_request ''hi'') [inline_request ''x''] PEmpty
      (mj_compiles toy_engine toy_hash [file_request, inline_request ''hi''] [])) = Ok (PValue (VString ''<p>hi'') None) \<and>
   engine_answer (compile_then_render toy_engine toy_hash toy_config (inline_request ''hi{'') [] PEmpty []) = Err ''unclosed''"
proof -
  have law: "empty_loader_law toy_engine"
    by (simp add: empty_loader_law_def engine_rendering_def toy_engine_def mj_add_def)
  have src: "request_source (inline_request s) = Ok (s, ''__inline__'', NoLoader)" for s by (simp add: toy_defs)
  have keys: "\<forall>q\<in>set [file_request, inline_request ''hi'']. request_key toy_hash q = request_key toy_hash (inline_request ''hi'') \<longrightarrow>
      request_source q = request_source (inline_request ''hi'')"
    by (simp add: toy_defs toy_hashes)
  have ctx: "mj_context toy_config PEmpty = Ok None" by (simp add: mj_context_def)
  have direct: "mj_run toy_engine (toy_services None) toy_config None (Some ''hi'') None PEmpty = Ok (PValue (VString ''<p>hi'') None)"
    "mj_run toy_engine (toy_services None) toy_config None (Some ''hi{'') None PEmpty =
      Err (Generic ''Template parse error: unclosed'' ''unclosed'')"
    by (simp_all add: toy_defs mj_run_def mj_inline_template_def mj_context_def)
  show ?thesis
    using compiled_inline_as_direct [OF law src keys ctx, of "[inline_request ''x'']" "toy_services None"]
      compiled_inline_as_direct [OF law src [of "''hi{''"] _ ctx, of "[]" toy_hash "[]" "toy_services None"]
    by (simp add: direct)
qed

text \<open>
  C34. The cache key hashes the source and the origin with nothing between them. So the inline
  template whose text is a topic's text followed by \<open>__topic__/x\<close> has the key of the topic
  \<open>x__inline__\<close> with that text, under any hash: once the topic is compiled, compiling the inline
  template returns the topic's handle and compiles nothing, even a text that does not parse.
\<close>

theorem inline_takes_topic_template:
  assumes "load_topic T (x @ ''__inline__'') = Ok source"
    and "mj_compile_run M H T None None (Some (x @ ''__inline__'')) cache = (Ok handle, cache')"
  shows "mj_compile_run M H T' None (Some (VString (source @ ''__topic__/'' @ x))) None cache' = (Ok handle, cache')"
  using assms
  by (auto simp: mj_compile_run_def compile_source_def inline_source_def check_mode_def count_some_def compile_input_def
      compile_template_add hash_source_and_path_def Let_def mj_err_def split: outcome.splits if_splits)

definition toy_store :: topic_store where
  "toy_store = \<lparr>xs_last_frame = (\<lambda>t. if t = ''nav__inline__'' then Some (4, Some ''h1'') else None),
     xs_cas_read = (\<lambda>h. Inr ''menu'')\<rparr>"

theorem inline_takes_topic_template_witness:
  "mj_compile_run toy_engine toy_hash (toy_services None) None (Some (VString ''menu__topic__/nav'')) None
      (snd (mj_compile_run toy_engine toy_hash (toy_services (Some toy_store)) None None (Some ''nav__inline__'') [])) =
    (Ok (PValue (VCustom (CompiledTemplate (toy_hash ''menu__topic__/nav__inline__''))) None),
     [(toy_hash ''menu__topic__/nav__inline__'', [(''template'', ''menu'')])])"
proof -
  have utf: "from_utf8 ''menu'' = Some ''menu''" by code_simp
  have load: "load_topic (toy_services (Some toy_store)) (''nav'' @ ''__inline__'') = Ok ''menu''"
    by (simp add: load_topic_def load_topic_content_def cas_text_def toy_services_def toy_store_def utf)
  have comp: "mj_compile_run toy_engine toy_hash (toy_services (Some toy_store)) None None (Some (''nav'' @ ''__inline__'')) [] =
    (Ok (PValue (VCustom (CompiledTemplate (toy_hash ''menu__topic__/nav__inline__''))) None),
     [(toy_hash ''menu__topic__/nav__inline__'', [(''template'', ''menu'')])])"
    using load by (simp add: mj_compile_run_def compile_source_def inline_source_def check_mode_def count_some_def
        compile_input_def compile_template_add hash_source_and_path_def mj_err_def map_insert_def toy_engine_def mj_add_def Let_def)
  show ?thesis
    using inline_takes_topic_template [OF load comp, of "toy_services None"] comp by simp
qed

end
