(* ===== verification/Engine.thy ===== *)
theory Engine
  imports Nu_Value
begin

text \<open>
  The script engine (\<open>src/engine.rs\<close>): turning a script into an engine with a closure of one
  argument, running that closure on a request, evaluating a script on its own, the constant
  \<open>$HTTP_NU\<close>, and the commands an engine knows; from \<open>src/commands.rs\<close> the commands \<open>print\<close> and
  \<open>.run\<close>. Nushell itself (parsing, evaluation, its state) is an argument.
\<close>

section \<open>Nushell\<close>

text \<open>A closure is the number of its block and the variables it captured.\<close>

record nu_closure =
  cl_block_id :: nat
  cl_captures :: "(nat \<times> nu_value) list"

text \<open>
  A command an engine knows, by name; some carry the store or the bus they use, by a number.
\<close>

datatype command_decl = Plain_Command string | Store_Command string nat | Bus_Command string nat

fun decl_name :: "command_decl \<Rightarrow> string" where
  "decl_name (Plain_Command n) = n"
| "decl_name (Store_Command n s) = n"
| "decl_name (Bus_Command n b) = n"

text \<open>
  What the program uses of nushell. \<open>'st\<close> is the engine state, \<open>'b\<close> a block, \<open>'d\<close> the delta of a
  working set, \<open>'k\<close> a stack. Parsing gives the block, the texts of the parse and compile errors (a parse error also in its debugging form, \<open>ns_debug\<close>) and
  the delta; \<open>ns_required\<close> lists a block's required positional parameters by variable, if any;
  \<open>ns_store_decls\<close> are the commands of the cross.stream crate on a store.
\<close>

record ('st, 'b, 'd, 'k) nushell =
  ns_parse :: "'st \<Rightarrow> string option \<Rightarrow> string \<Rightarrow> 'b \<times> string list \<times> string list \<times> 'd"
  ns_debug :: "string \<Rightarrow> string"
  ns_merge_delta :: "'d \<Rightarrow> 'st \<Rightarrow> (shell_error, 'st) outcome"
  ns_merge_env :: "'k \<Rightarrow> 'st \<Rightarrow> (shell_error, 'st) outcome"
  ns_new_stack :: 'k
  ns_capture_stack :: "(nat \<times> nu_value) list \<Rightarrow> 'k \<Rightarrow> 'k"
  ns_pipe_output :: "'k \<Rightarrow> 'k"
  ns_add_var :: "nat \<Rightarrow> nu_value \<Rightarrow> 'k \<Rightarrow> 'k"
  ns_eval :: "'st \<Rightarrow> 'b \<Rightarrow> pipeline_data \<Rightarrow> 'k \<Rightarrow> (shell_error, pipeline_data) outcome \<times> 'k"
  ns_get_block :: "'st \<Rightarrow> nat \<Rightarrow> 'b option"
  ns_required :: "'b \<Rightarrow> nat option list"
  ns_into_value :: "pipeline_data \<Rightarrow> (shell_error, nu_value) outcome"
  ns_into_closure :: "nu_value \<Rightarrow> (shell_error, nu_closure) outcome"
  ns_set_file :: "string option \<Rightarrow> 'st \<Rightarrow> 'st"
  ns_set_const :: "string \<Rightarrow> nu_value \<Rightarrow> 'st \<Rightarrow> (shell_error, 'st) outcome"
  ns_add_decls :: "command_decl list \<Rightarrow> 'st \<Rightarrow> (shell_error, 'st) outcome"
  ns_store_decls :: "nat \<Rightarrow> command_decl list"
  ns_find_decl :: "'st \<Rightarrow> string \<Rightarrow> command_decl option"
  ns_format_error :: "'st \<Rightarrow> shell_error \<Rightarrow> string"
  ns_format_in :: "'st \<Rightarrow> 'd \<Rightarrow> shell_error \<Rightarrow> string"
  ns_show_error :: "shell_error \<Rightarrow> string"
  ns_strip_ansi :: "string \<Rightarrow> string"
  ns_expand :: "nu_value \<Rightarrow> string"
  ns_into_string :: "byte_stream \<Rightarrow> (shell_error, string) outcome"

definition map_err :: "('e \<Rightarrow> 'f) \<Rightarrow> ('e, 'a) outcome \<Rightarrow> ('f, 'a) outcome" where
  "map_err f m = (case m of Ok x \<Rightarrow> Ok x | Err e \<Rightarrow> Err (f e) | Panic p \<Rightarrow> Panic p)"

section \<open>The engine\<close>

text \<open>The bus and the cancellation token are shared objects; an engine holds their identities.\<close>

record 'st engine =
  eg_state :: 'st
  eg_closure :: "nu_closure option"
  eg_bus :: nat
  eg_token :: nat

text \<open>\<open>set_http_nu_const\<close>.\<close>

record http_nu_options =
  ho_dev :: bool
  ho_datastar :: bool
  ho_watch :: bool
  ho_store :: "string option"
  ho_topic :: "string option"
  ho_expose :: "string option"
  ho_tls :: "string option"
  ho_services :: bool

definition opt_str :: "string option \<Rightarrow> nu_value" where
  "opt_str v = (case v of Some s \<Rightarrow> VString s | None \<Rightarrow> VNothing)"

definition http_nu_record :: "http_nu_options \<Rightarrow> nu_value" where
  "http_nu_record o' = VRecord
     [(''dev'', VBool (ho_dev o')), (''datastar'', VBool (ho_datastar o')), (''watch'', VBool (ho_watch o')),
      (''store'', opt_str (ho_store o')), (''topic'', opt_str (ho_topic o')), (''expose'', opt_str (ho_expose o')),
      (''tls'', opt_str (ho_tls o')), (''services'', VBool (ho_services o'))]"

definition set_http_nu_const :: "('st, 'b, 'd, 'k) nushell \<Rightarrow> http_nu_options \<Rightarrow> 'st engine \<Rightarrow> (string, 'st engine) outcome" where
  "set_http_nu_const N options eng =
     obind (map_err (ns_show_error N) (ns_set_const N ''$HTTP_NU'' (http_nu_record options) (eg_state eng)))
       (\<lambda>st. Ok (eng\<lparr>eg_state := st\<rparr>))"

definition set_lib_dirs :: "('st, 'b, 'd, 'k) nushell \<Rightarrow> string list \<Rightarrow> 'st engine \<Rightarrow> (string, 'st engine) outcome" where
  "set_lib_dirs N paths eng =
     (if paths = [] then Ok eng
      else obind (map_err (ns_show_error N) (ns_set_const N ''$NU_LIB_DIRS'' (VList (map VString paths)) (eg_state eng)))
        (\<lambda>st. Ok (eng\<lparr>eg_state := st\<rparr>)))"

definition add_commands :: "('st, 'b, 'd, 'k) nushell \<Rightarrow> command_decl list \<Rightarrow> 'st engine \<Rightarrow> (string, 'st engine) outcome" where
  "add_commands N commands eng =
     obind (map_err (ns_show_error N) (ns_add_decls N commands (eg_state eng))) (\<lambda>st. Ok (eng\<lparr>eg_state := st\<rparr>))"

definition add_custom_commands :: "('st, 'b, 'd, 'k) nushell \<Rightarrow> 'st engine \<Rightarrow> (string, 'st engine) outcome" where
  "add_custom_commands N eng = add_commands N
     (map Plain_Command [''.reverse-proxy'', ''.static'', ''to sse'', ''.mj'', ''.mj compile'', ''.mj render'',
        ''.highlight'', ''.highlight theme'', ''.highlight lang'', ''.md'', ''print'', ''.run''] @
      [Bus_Command ''.bus pub'' (eg_bus eng), Bus_Command ''.bus sub'' (eg_bus eng)]) eng"

definition add_store_commands :: "('st, 'b, 'd, 'k) nushell \<Rightarrow> nat \<Rightarrow> 'st engine \<Rightarrow> (string, 'st engine) outcome" where
  "add_store_commands N store eng = add_commands N (ns_store_decls N store) eng"

definition add_store_mj_commands :: "('st, 'b, 'd, 'k) nushell \<Rightarrow> nat \<Rightarrow> 'st engine \<Rightarrow> (string, 'st engine) outcome" where
  "add_store_mj_commands N store eng =
     add_commands N [Store_Command ''.mj'' store, Store_Command ''.mj compile'' store] eng"

section \<open>Scripts\<close>

definition parse_error :: "string \<Rightarrow> shell_error" where
  "parse_error err = Generic ''Parse error'' err"

definition compile_error :: "string \<Rightarrow> shell_error" where
  "compile_error err = Generic (''Compile error '' @ err) []"

text \<open>
  \<open>parse_closure\<close> changes the engine as it goes: also when it fails, the file is set, and the parsed
  script is merged if it parsed.
\<close>

definition check_arity :: "('st, 'b, 'd, 'k) nushell \<Rightarrow> 'st \<Rightarrow> nu_closure \<Rightarrow> (string, unit) outcome" where
  "check_arity N st c =
     obind (unwrap ''missing block'' (ns_get_block N st (cl_block_id c))) (\<lambda>block.
       if length (ns_required N block) \<noteq> 1 then
         Err (''Closure must accept exactly one request argument, found '' @ nat_str (length (ns_required N block)))
       else Ok ())"

definition eval_closure :: "('st, 'b, 'd, 'k) nushell \<Rightarrow> 'st \<Rightarrow> 'b \<Rightarrow> (string, nu_closure) outcome \<times> 'k" where
  "eval_closure N st block =
     (case ns_eval N st block PEmpty (ns_new_stack N) of
        (result, stack) \<Rightarrow>
          (map_err (ns_format_error N st) (obind result (\<lambda>body. obind (ns_into_value N body) (ns_into_closure N))), stack))"

definition parse_closure :: "('st, 'b, 'd, 'k) nushell \<Rightarrow> string \<Rightarrow> string option \<Rightarrow> 'st engine \<Rightarrow> (string, unit) outcome \<times> 'st engine" where
  "parse_closure N script file eng =
     (let st0 = ns_set_file N file (eg_state eng); e0 = eng\<lparr>eg_state := st0\<rparr> in
      case ns_parse N st0 file script of
        (block, parse_errors, compile_errors, delta) \<Rightarrow>
          (case parse_errors of
             err # _ \<Rightarrow> (Err (ns_format_in N st0 delta (parse_error (ns_debug N err))), e0)
           | [] \<Rightarrow>
               (case compile_errors of
                  err # _ \<Rightarrow> (Err (ns_format_in N st0 delta (compile_error err)), e0)
                | [] \<Rightarrow>
                    (case map_err (ns_show_error N) (ns_merge_delta N delta st0) of
                       Err e \<Rightarrow> (Err e, e0)
                     | Panic m \<Rightarrow> (Panic m, e0)
                     | Ok st1 \<Rightarrow>
                         (case eval_closure N st1 block of
                            (result, stack) \<Rightarrow>
                              (case obind result (\<lambda>c. obind (check_arity N st1 c) (\<lambda>_.
                                      obind (map_err (ns_show_error N) (ns_merge_env N stack st1)) (\<lambda>st2. Ok (c, st2)))) of
                                 Err e \<Rightarrow> (Err e, e0\<lparr>eg_state := st1\<rparr>)
                               | Panic m \<Rightarrow> (Panic m, e0\<lparr>eg_state := st1\<rparr>)
                               | Ok (c, st2) \<Rightarrow> (Ok (), e0\<lparr>eg_state := st2, eg_closure := Some c\<rparr>)))))))"

text \<open>\<open>eval\<close> merges the script into a copy of the state.\<close>

definition eval_script :: "('st, 'b, 'd, 'k) nushell \<Rightarrow> string \<Rightarrow> string option \<Rightarrow> 'st engine \<Rightarrow> (string, nu_value) outcome \<times> 'st engine" where
  "eval_script N script file eng =
     (let st0 = ns_set_file N file (eg_state eng) in
      (case ns_parse N st0 file script of
         (block, parse_errors, compile_errors, delta) \<Rightarrow>
           (case parse_errors of
              err # _ \<Rightarrow> Err (ns_format_in N st0 delta (parse_error (ns_debug N err)))
            | [] \<Rightarrow>
                (case compile_errors of
                   err # _ \<Rightarrow> Err (ns_format_in N st0 delta (compile_error err))
                 | [] \<Rightarrow>
                     obind (map_err (ns_show_error N) (ns_merge_delta N delta st0)) (\<lambda>st1.
                       map_err (ns_format_error N st1)
                         (obind (fst (ns_eval N st1 block PEmpty (ns_new_stack N))) (ns_into_value N))))),
       eng\<lparr>eg_state := st0\<rparr>))"

definition run_closure :: "('st, 'b, 'd, 'k) nushell \<Rightarrow> nu_value \<Rightarrow> pipeline_data \<Rightarrow> 'st engine \<Rightarrow> (string, pipeline_data) outcome" where
  "run_closure N input data eng =
     obind (of_option ''Closure not parsed'' (eg_closure eng)) (\<lambda>c.
       let stack = ns_pipe_output N (ns_capture_stack N (cl_captures c) (ns_new_stack N)) in
       obind (unwrap ''missing block'' (ns_get_block N (eg_state eng) (cl_block_id c))) (\<lambda>block.
       obind (if ns_required N block = [] then Panic ''index out of bounds'' else Ok (hd (ns_required N block))) (\<lambda>param.
       obind (unwrap ''var_id.unwrap()'' param) (\<lambda>var.
         map_err (ns_format_error N (eg_state eng))
           (fst (ns_eval N (eg_state eng) block data (ns_add_var N var input stack)))))))"

text \<open>
  \<open>script_to_engine\<close>: a copy of the base engine with a new cancellation token, here the number
  \<open>token\<close>; an error is logged and there is no engine.
\<close>

definition script_to_engine :: "('st, 'b, 'd, 'k) nushell \<Rightarrow> nat \<Rightarrow> 'st engine \<Rightarrow> string \<Rightarrow> string option \<Rightarrow>
    (string, 'st engine option) outcome \<times> string list" where
  "script_to_engine N token base script file =
     (case parse_closure N script file (base\<lparr>eg_token := token\<rparr>) of
        (Ok _, eng) \<Rightarrow> (Ok (Some eng), [])
      | (Err e, _) \<Rightarrow> (Ok None, [ns_strip_ansi N e])
      | (Panic m, _) \<Rightarrow> (Panic m, []))"

section \<open>print\<close>

definition is_nothing :: "pipeline_data \<Rightarrow> bool" where
  "is_nothing p = (case p of PEmpty \<Rightarrow> True | PValue v _ \<Rightarrow> v = VNothing | _ \<Rightarrow> False)"

text \<open>The result and the message that goes to the log, if any.\<close>

definition print_run :: "('st, 'b, 'd, 'k) nushell \<Rightarrow> nu_value list \<Rightarrow> bool \<Rightarrow> pipeline_data \<Rightarrow>
    (shell_error, pipeline_data) outcome \<times> string option" where
  "print_run N args no_newline input =
     (if args \<noteq> [] then
        (Ok PEmpty, Some (join_str (if no_newline then [] else [newline]) (map (ns_expand N) args)))
      else if \<not> is_nothing input then
        (case (case input of
                 PValue v _ \<Rightarrow> Ok (ns_expand N v)
               | PListStream vs _ \<Rightarrow> Ok (join_str [newline] (map (ns_expand N) vs))
               | PByteStream s _ \<Rightarrow> ns_into_string N s
               | PEmpty \<Rightarrow> Ok []) of
           Ok message \<Rightarrow> (Ok PEmpty, if message = [] then None else Some message)
         | Err e \<Rightarrow> (Err e, None)
         | Panic m \<Rightarrow> (Panic m, None))
      else (Ok PEmpty, None))"

section \<open>.run\<close>

definition error_report :: "('st, 'b, 'd, 'k) nushell \<Rightarrow> 'st \<Rightarrow> 'd \<Rightarrow> (string \<Rightarrow> shell_error) \<Rightarrow> string list \<Rightarrow> shell_error" where
  "error_report N st delta mk errs =
     Generic (ns_strip_ansi N (concat (map (\<lambda>err. ns_format_in N st delta (mk err) @ [newline]) errs))) []"

definition run_nu_run :: "('st, 'b, 'd, 'k) nushell \<Rightarrow> string \<Rightarrow> pipeline_data \<Rightarrow> 'st \<Rightarrow> (shell_error, pipeline_data) outcome" where
  "run_nu_run N script input st =
     (case ns_parse N st (Some ''<.run>'') script of
        (block, parse_errors, compile_errors, delta) \<Rightarrow>
          if parse_errors \<noteq> [] then Err (error_report N st delta parse_error parse_errors)
          else if compile_errors \<noteq> [] then Err (error_report N st delta compile_error compile_errors)
          else obind (ns_merge_delta N delta st) (\<lambda>sandbox. fst (ns_eval N sandbox block input (ns_new_stack N))))"

section \<open>Laws\<close>

lemma map_err_iff [outcome_simps]:
  "map_err f m = Ok x \<longleftrightarrow> m = Ok x"
  "map_err f m = Err e \<longleftrightarrow> (\<exists>d. m = Err d \<and> e = f d)"
  "map_err f m = Panic p \<longleftrightarrow> m = Panic p"
  by (cases m; auto simp: map_err_def)+

lemma check_arity_Ok_iff:
  "check_arity N st c = Ok u \<longleftrightarrow>
    (\<exists>block v. ns_get_block N st (cl_block_id c) = Some block \<and> ns_required N block = [v])"
  by (auto simp: check_arity_def outcome_simps length_Suc_conv split: if_splits)

text \<open>
  What the program relies on of nushell: merging an environment keeps the blocks, and a closure's
  required parameters have variables.
\<close>

definition nushell_ok :: "('st, 'b, 'd, 'k) nushell \<Rightarrow> bool" where
  "nushell_ok N \<longleftrightarrow>
     (\<forall>st k st' i. ns_merge_env N k st = Ok st' \<longrightarrow> ns_get_block N st' i = ns_get_block N st i) \<and>
     (\<forall>st i block. ns_get_block N st i = Some block \<longrightarrow> None \<notin> set (ns_required N block))"

lemma parse_closure_Ok:
  assumes "parse_closure N script file eng = (Ok u, eng')"
  obtains c st1 stack st2 where "eng' = eng\<lparr>eg_state := st2, eg_closure := Some c\<rparr>"
    "check_arity N st1 c = Ok ()" "ns_merge_env N stack st1 = Ok st2"
  using assms
  by (auto simp: parse_closure_def Let_def outcome_simps split: prod.splits list.splits outcome.splits)

lemma parse_closure_keeps:
  "eg_bus (snd (parse_closure N script file eng)) = eg_bus eng"
  "eg_token (snd (parse_closure N script file eng)) = eg_token eng"
  by (simp_all add: parse_closure_def Let_def split: prod.split list.split outcome.split)

text \<open>An engine whose closure can take a request.\<close>

definition engine_ready :: "('st, 'b, 'd, 'k) nushell \<Rightarrow> 'st engine \<Rightarrow> bool" where
  "engine_ready N eng \<longleftrightarrow>
     (case eg_closure eng of
        None \<Rightarrow> False
      | Some c \<Rightarrow>
          (case ns_get_block N (eg_state eng) (cl_block_id c) of
             None \<Rightarrow> False
           | Some block \<Rightarrow> (case ns_required N block of [Some v] \<Rightarrow> True | _ \<Rightarrow> False)))"

lemma parse_closure_ready:
  assumes "nushell_ok N" "parse_closure N script file eng = (Ok u, eng')"
  shows "engine_ready N eng'"
proof -
  obtain c st1 stack st2 block v where e: "eng' = eng\<lparr>eg_state := st2, eg_closure := Some c\<rparr>"
    and m: "ns_merge_env N stack st1 = Ok st2"
    and b: "ns_get_block N st1 (cl_block_id c) = Some block" "ns_required N block = [v]"
    using parse_closure_Ok [OF assms(2)] by (metis check_arity_Ok_iff)
  have "ns_get_block N st2 (cl_block_id c) = Some block" using assms(1) m b(1) by (simp add: nushell_ok_def)
  moreover obtain x where "v = Some x" using assms(1) b by (cases v) (force simp: nushell_ok_def)+
  ultimately show ?thesis using b(2) e by (simp add: engine_ready_def)
qed

lemma run_closure_ready:
  assumes "engine_ready N eng"
  shows "\<exists>c block v. eg_closure eng = Some c \<and> ns_get_block N (eg_state eng) (cl_block_id c) = Some block \<and>
    (\<forall>input data. run_closure N input data eng =
      map_err (ns_format_error N (eg_state eng)) (fst (ns_eval N (eg_state eng) block data
        (ns_add_var N v input (ns_pipe_output N (ns_capture_stack N (cl_captures c) (ns_new_stack N)))))))"
  using assms
  by (auto simp: engine_ready_def run_closure_def split: option.splits list.splits)

lemma script_to_engine_Some:
  assumes "script_to_engine N token base script file = (Ok (Some eng), log)"
  shows "parse_closure N script file (base\<lparr>eg_token := token\<rparr>) = (Ok (), eng)" "log = []"
  using assms by (auto simp: script_to_engine_def split: prod.splits outcome.splits)

lemma script_to_engine_identity:
  assumes "script_to_engine N token base script file = (Ok (Some eng), log)"
  shows "eg_token eng = token" "eg_bus eng = eg_bus base"
  using parse_closure_keeps [where N = N and eng = "base\<lparr>eg_token := token\<rparr>"] script_to_engine_Some [OF assms]
  by (metis engine.select_convs(3,4) engine.surjective engine.update_convs(4) snd_conv)+

section \<open>Properties\<close>

text \<open>
  C14. A script that is accepted becomes an engine with the token it was given and the bus of the
  base engine, and every request runs its closure: no branch of \<open>run_closure\<close> before the evaluation
  is reached, neither "Closure not parsed" nor the panics of its indexing and unwrapping.
\<close>

theorem accepted_script_runs:
  assumes "nushell_ok N" "script_to_engine N token base script file = (Ok (Some eng), log)"
  shows "eg_token eng = token \<and> eg_bus eng = eg_bus base \<and> log = [] \<and>
    (\<exists>c block v. eg_closure eng = Some c \<and> ns_get_block N (eg_state eng) (cl_block_id c) = Some block \<and>
      ns_required N block = [Some v] \<and>
      (\<forall>input data. run_closure N input data eng =
        map_err (ns_format_error N (eg_state eng)) (fst (ns_eval N (eg_state eng) block data
          (ns_add_var N v input (ns_pipe_output N (ns_capture_stack N (cl_captures c) (ns_new_stack N))))))))"
  using parse_closure_ready [OF assms(1) script_to_engine_Some(1) [OF assms(2)]]
    script_to_engine_identity [OF assms(2)] script_to_engine_Some(2) [OF assms(2)]
  by (auto simp: engine_ready_def run_closure_def split: option.splits list.splits)

text \<open>
  A small nushell: the state is a list of blocks, a block the variables of its parameters; a script
  is a closure with one parameter for each \<open>x\<close>, and running a closure returns its parameter.
\<close>

definition toy_nu :: "(nat option list list, nat option list, nat option list, (nat \<times> nu_value) list) nushell" where
  "toy_nu = \<lparr>ns_parse = (\<lambda>st f s. ([], if s = ''bad'' then [''unclosed''] else [], [], map (\<lambda>_. Some 7) (filter (\<lambda>c. c = CHR ''x'') s))),
     ns_debug = (\<lambda>e. e), ns_merge_delta = (\<lambda>d st. Ok (st @ [d])), ns_merge_env = (\<lambda>k st. Ok st), ns_new_stack = [],
     ns_capture_stack = (\<lambda>c k. c @ k), ns_pipe_output = (\<lambda>k. k), ns_add_var = (\<lambda>i v k. (i, v) # k),
     ns_eval = (\<lambda>st b p k. (Ok (PValue (case map_of k 7 of Some v \<Rightarrow> v | None \<Rightarrow> VOther ''closure'' (length st - 1)) None), k)),
     ns_get_block = (\<lambda>st i. if i < length st then Some (st ! i) else None), ns_required = (\<lambda>b. filter (\<lambda>v. v \<noteq> None) b),
     ns_into_value = (\<lambda>p. case p of PValue v _ \<Rightarrow> Ok v | _ \<Rightarrow> Ok VNothing),
     ns_into_closure = (\<lambda>v. case v of VOther n i \<Rightarrow> Ok \<lparr>cl_block_id = i, cl_captures = []\<rparr> | _ \<Rightarrow> Err (OtherShellError ''cannot convert'')),
     ns_set_file = (\<lambda>f st. st), ns_set_const = (\<lambda>n v st. Ok st), ns_add_decls = (\<lambda>ds st. Ok st), ns_store_decls = (\<lambda>s. []),
     ns_find_decl = (\<lambda>st n. None), ns_format_error = (\<lambda>st e. ''error''), ns_format_in = (\<lambda>st d e. ''error''),
     ns_show_error = (\<lambda>e. ''error''), ns_strip_ansi = (\<lambda>s. s), ns_expand = (\<lambda>v. ''value''), ns_into_string = (\<lambda>s. Ok [])\<rparr>"

definition toy_base :: "nat option list list engine" where
  "toy_base = \<lparr>eg_state = [], eg_closure = None, eg_bus = 3, eg_token = 0\<rparr>"

lemma toy_nu_ok: "nushell_ok toy_nu"
  by (auto simp: nushell_ok_def toy_nu_def split: if_splits)

lemma toy_script_engine:
  "script_to_engine toy_nu token toy_base ''x'' f =
    (Ok (Some \<lparr>eg_state = [[Some 7]], eg_closure = Some \<lparr>cl_block_id = 0, cl_captures = []\<rparr>, eg_bus = 3, eg_token = token\<rparr>), [])"
  by (simp add: script_to_engine_def parse_closure_def toy_nu_def toy_base_def eval_closure_def check_arity_def map_err_def Let_def)

theorem accepted_script_runs_witness:
  "\<exists>eng. script_to_engine toy_nu 5 toy_base ''x'' None = (Ok (Some eng), []) \<and> eg_token eng = 5 \<and>
    run_closure toy_nu (VBool True) PEmpty eng = Ok (PValue (VBool True) None)"
proof -
  let ?eng = "\<lparr>eg_state = [[Some (7::nat)]], eg_closure = Some \<lparr>cl_block_id = 0, cl_captures = []\<rparr>, eg_bus = 3, eg_token = 5\<rparr>"
  have s: "script_to_engine toy_nu 5 toy_base ''x'' None = (Ok (Some ?eng), [])" by (rule toy_script_engine)
  obtain c block v where "eg_closure ?eng = Some c" "ns_get_block toy_nu (eg_state ?eng) (cl_block_id c) = Some block"
    "ns_required toy_nu block = [Some v]" "eg_token ?eng = 5"
    and run: "run_closure toy_nu (VBool True) PEmpty ?eng =
      map_err (ns_format_error toy_nu (eg_state ?eng)) (fst (ns_eval toy_nu (eg_state ?eng) block PEmpty
        (ns_add_var toy_nu v (VBool True) (ns_pipe_output toy_nu (ns_capture_stack toy_nu (cl_captures c) (ns_new_stack toy_nu))))))"
    using accepted_script_runs [OF toy_nu_ok s] by blast
  then have "run_closure toy_nu (VBool True) PEmpty ?eng = Ok (PValue (VBool True) None)"
    by (auto simp: toy_nu_def map_err_def)
  with s show ?thesis by (intro exI [of _ ?eng]) simp
qed

text \<open>
  A script that does not parse, does not compile, fails, does not give a closure, or gives one
  that does not take exactly one required argument is rejected: no engine, and one log entry with
  the first error.
\<close>

theorem rejected_script_logged:
  assumes "ns_parse N (ns_set_file N file (eg_state base)) file script = (block, perrs, cerrs, delta)"
    and "ns_merge_delta N delta (ns_set_file N file (eg_state base)) = Ok st1"
    and "eval_closure N st1 block = (result, stack)"
    and "perrs \<noteq> [] \<or> cerrs \<noteq> [] \<or> (\<exists>e. result = Err e) \<or>
      (\<exists>c b. result = Ok c \<and> ns_get_block N st1 (cl_block_id c) = Some b \<and> length (ns_required N b) \<noteq> 1)"
  shows "script_to_engine N token base script file =
    (Ok None, [ns_strip_ansi N
      (if perrs \<noteq> [] then ns_format_in N (ns_set_file N file (eg_state base)) delta (parse_error (ns_debug N (hd perrs)))
       else if cerrs \<noteq> [] then ns_format_in N (ns_set_file N file (eg_state base)) delta (compile_error (hd cerrs))
       else case result of
              Err e \<Rightarrow> e
            | Ok c \<Rightarrow> ''Closure must accept exactly one request argument, found '' @
                nat_str (length (ns_required N (the (ns_get_block N st1 (cl_block_id c)))))
            | Panic m \<Rightarrow> m)])"
  using assms
  by (cases result; cases perrs; cases cerrs)
    (auto simp: script_to_engine_def parse_closure_def check_arity_def map_err_def Let_def)

theorem rejected_script_logged_witness:
  "script_to_engine toy_nu 5 toy_base ''xx'' None =
    (Ok None, [''Closure must accept exactly one request argument, found 2''])"
proof -
  have 1: "ns_parse toy_nu (ns_set_file toy_nu None (eg_state toy_base)) None ''xx'' = ([], [], [], [Some 7, Some 7])"
    and 2: "ns_merge_delta toy_nu [Some 7, Some 7] (ns_set_file toy_nu None (eg_state toy_base)) = Ok [[Some 7, Some 7]]"
    and 3: "eval_closure toy_nu [[Some 7, Some 7]] [] = (Ok \<lparr>cl_block_id = 0, cl_captures = []\<rparr>, [])"
    and 4: "ns_get_block toy_nu [[Some 7, Some 7]] 0 = Some [Some 7, Some 7]" "ns_required toy_nu [Some 7, Some 7] = [Some 7, Some 7]"
    by (simp_all add: toy_nu_def toy_base_def eval_closure_def map_err_def)
  have 5: "ns_strip_ansi toy_nu s = s" for s by (simp add: toy_nu_def)
  have 6: "nat_str (Suc (Suc 0)) = ''2''" by code_simp
  show ?thesis using rejected_script_logged [OF 1 2 3, of 5] 4 5 6 by simp
qed

end
