(* ===== verification/Broadcast.thy ===== *)
theory Broadcast
  imports Prelude
begin

text \<open>
  The broadcast channel of the \<open>tokio\<close> crate, which the bus (\<open>src/bus.rs\<close>) and the event log
  (\<open>src/logging.rs\<close>) are built on. It is not part of the sources, so it is an argument: a record of
  the operations. The locale states what its documentation promises, in terms of everything sent so
  far and of where each receiver stands; what both clients need is proved inside it. A channel that
  keeps everything shows that the promises can be kept.
\<close>

section \<open>Operations\<close>

text \<open>What a receiver gets: a value, the count of values it missed, or nothing yet.\<close>

datatype 'e rx = Got 'e | Lag nat | Empty

record ('e, 'c) broadcast_lib =
  bc_new :: "nat \<Rightarrow> 'c"
  bc_send :: "'e \<Rightarrow> 'c \<Rightarrow> 'c"
  bc_subscribe :: "'c \<Rightarrow> nat \<times> 'c"
  bc_recv :: "nat \<Rightarrow> 'c \<Rightarrow> 'e rx \<times> 'c"

text \<open>
  What the tasks around a channel do with it, in any order: senders send, receivers (by number) look
  for a value, new receivers subscribe. A run collects what receiver \<open>r\<close> gets.
\<close>

datatype 'e act = Send 'e | Recv nat | Subscribe

fun bc_run :: "('e, 'c) broadcast_lib \<Rightarrow> nat \<Rightarrow> 'e act list \<Rightarrow> 'c \<Rightarrow> 'e rx list \<times> 'c" where
  "bc_run L r [] c = ([], c)"
| "bc_run L r (Send e # acts) c = bc_run L r acts (bc_send L e c)"
| "bc_run L r (Subscribe # acts) c = bc_run L r acts (snd (bc_subscribe L c))"
| "bc_run L r (Recv q # acts) c =
     (case bc_recv L q c of
        (x, c') \<Rightarrow> (case bc_run L r acts c' of (xs, c'') \<Rightarrow> (if q = r then x # xs else xs, c'')))"

fun sends :: "'e act list \<Rightarrow> 'e list" where
  "sends [] = []"
| "sends (Send e # acts) = e # sends acts"
| "sends (a # acts) = sends acts"

text \<open>
  How many values receiver \<open>r\<close>, now \<open>b\<close> values behind, has unread after the actions if it misses
  none; and whether it misses none with \<open>k\<close> values retained.
\<close>

fun unread :: "nat \<Rightarrow> nat \<Rightarrow> 'e act list \<Rightarrow> nat" where
  "unread r b [] = b"
| "unread r b (Send e # acts) = unread r (Suc b) acts"
| "unread r b (Subscribe # acts) = unread r b acts"
| "unread r b (Recv q # acts) = unread r (if q = r then b - 1 else b) acts"

fun keeps_up :: "nat \<Rightarrow> nat \<Rightarrow> nat \<Rightarrow> 'e act list \<Rightarrow> bool" where
  "keeps_up k r b [] = True"
| "keeps_up k r b (Send e # acts) = keeps_up k r (Suc b) acts"
| "keeps_up k r b (Subscribe # acts) = keeps_up k r b acts"
| "keeps_up k r b (Recv q # acts) = (if q = r then b \<le> k \<and> keeps_up k r (b - 1) acts else keeps_up k r b acts)"

lemma keeps_up_mono: "keeps_up k r b acts \<Longrightarrow> k \<le> k' \<Longrightarrow> keeps_up k' r b acts"
  by (induction k r b acts rule: keeps_up.induct) auto

section \<open>What results say about the values sent\<close>

text \<open>\<open>explains rs es\<close>: the results account for exactly the values \<open>es\<close>, each got or counted as missed.\<close>

fun explains :: "'e rx list \<Rightarrow> 'e list \<Rightarrow> bool" where
  "explains [] es = (es = [])"
| "explains (Got e # rs) es = (es \<noteq> [] \<and> hd es = e \<and> explains rs (tl es))"
| "explains (Lag n # rs) es = (n \<le> length es \<and> explains rs (drop n es))"
| "explains (Empty # rs) es = explains rs es"

fun got :: "'e rx list \<Rightarrow> 'e list" where
  "got [] = []"
| "got (Got e # rs) = e # got rs"
| "got (x # rs) = got rs"

fun missed :: "'e rx list \<Rightarrow> nat" where
  "missed [] = 0"
| "missed (Lag n # rs) = n + missed rs"
| "missed (x # rs) = missed rs"

fun is_lag :: "'e rx \<Rightarrow> bool" where
  "is_lag (Lag n) = True"
| "is_lag x = False"

lemma explains_count: "explains rs es \<Longrightarrow> length (got rs) + missed rs = length es"
  by (induction rs es rule: explains.induct) (auto simp: neq_Nil_conv)

lemma explains_no_lag: "explains rs es \<Longrightarrow> \<not> list_ex is_lag rs \<Longrightarrow> got rs = es"
  by (induction rs es rule: explains.induct) (auto simp: neq_Nil_conv)

lemma explains_subseq: "explains rs es \<Longrightarrow> subseq (got rs) es"
proof (induction rs es rule: explains.induct)
  case (3 n rs es)
  then have "subseq (got rs) (drop n es)" by simp
  then have "subseq (got rs) (take n es @ drop n es)" by (rule list_emb_append2)
  then show ?case by simp
qed (auto simp: neq_Nil_conv)

lemma explains_append:
  "explains (rs @ rs') es \<longleftrightarrow> (\<exists>m\<le>length es. explains rs (take m es) \<and> explains rs' (drop m es))"
proof (induction rs es rule: explains.induct)
  case (1 es)
  show ?case by (auto intro: exI [of _ 0])
next
  case (2 e rs es)
  show ?case
  proof (cases es)
    case (Cons x es')
    have "(\<exists>m\<le>length es. explains (Got e # rs) (take m es) \<and> explains rs' (drop m es)) \<longleftrightarrow>
        (\<exists>m\<le>length es'. x = e \<and> explains rs (take m es') \<and> explains rs' (drop m es'))"
      (is "?L \<longleftrightarrow> ?R")
    proof
      assume ?L
      then obtain m where "m \<le> length es" "explains (Got e # rs) (take m es)" "explains rs' (drop m es)" by blast
      then show ?R using Cons by (cases m) auto
    next
      assume ?R
      then obtain m where "m \<le> length es'" "x = e" "explains rs (take m es')" "explains rs' (drop m es')" by blast
      then show ?L using Cons by (intro exI [of _ "Suc m"]) simp
    qed
    with 2 Cons show ?thesis by auto
  qed simp
next
  case (3 n rs es)
  have "(\<exists>m\<le>length es. explains (Lag n # rs) (take m es) \<and> explains rs' (drop m es)) \<longleftrightarrow>
      (\<exists>m\<le>length es - n. n \<le> length es \<and> explains rs (take m (drop n es)) \<and> explains rs' (drop m (drop n es)))"
    (is "?L \<longleftrightarrow> ?R")
  proof
    assume ?L
    then obtain m where "m \<le> length es" "explains (Lag n # rs) (take m es)" "explains rs' (drop m es)" by blast
    then show ?R by (intro exI [of _ "m - n"]) (auto simp: drop_take)
  next
    assume ?R
    then obtain m where "m \<le> length es - n" "n \<le> length es" "explains rs (take m (drop n es))" "explains rs' (drop m (drop n es))"
      by blast
    then show ?L by (intro exI [of _ "n + m"]) (auto simp: drop_take add.commute)
  qed
  with 3 show ?case by auto
qed auto

lemma got_missed_append [simp]: "got (rs @ rs') = got rs @ got rs'" "missed (rs @ rs') = missed rs + missed rs'"
  by (induction rs rule: got.induct) auto

text \<open>Up to the first lag nothing is missing.\<close>

fun before_lag :: "'e rx list \<Rightarrow> 'e list" where
  "before_lag [] = []"
| "before_lag (Got e # rs) = e # before_lag rs"
| "before_lag (Lag n # rs) = []"
| "before_lag (Empty # rs) = before_lag rs"

lemma explains_before_lag: "explains rs es \<Longrightarrow> \<exists>k\<le>length es. before_lag rs = take k es"
proof (induction rs es rule: explains.induct)
  case (2 e rs es)
  then obtain k es' where "es = e # es'" "k \<le> length es'" "before_lag rs = take k es'" by (auto simp: neq_Nil_conv)
  then show ?case by (intro exI [of _ "Suc k"]) simp
qed auto

lemma before_lag_got: "\<not> list_ex is_lag rs \<Longrightarrow> before_lag rs = got rs"
  by (induction rs rule: before_lag.induct) auto

section \<open>The contract\<close>

text \<open>
  \<open>hist\<close> is everything sent, \<open>pos\<close> how much of it a receiver has behind it, \<open>cap\<close> how many of the last
  values are retained; a receiver further behind is told how many it missed and goes on with the
  oldest retained one. A new receiver sees what is sent from then on.
\<close>

locale broadcast_channel =
  fixes L :: "('e, 'c) broadcast_lib"
    and hist :: "'c \<Rightarrow> 'e list"
    and pos :: "'c \<Rightarrow> nat \<Rightarrow> nat option"
    and cap :: "'c \<Rightarrow> nat"
  assumes new_laws: "hist (bc_new L n) = []" "n \<le> cap (bc_new L n)"
    and send_laws: "hist (bc_send L e c) = hist c @ [e]" "pos (bc_send L e c) = pos c" "cap (bc_send L e c) = cap c"
    and subscribe_laws: "bc_subscribe L c = (r, c') \<Longrightarrow>
      pos c r = None \<and> pos c' = (pos c)(r \<mapsto> length (hist c)) \<and> hist c' = hist c \<and> cap c' = cap c"
    and recv_frame: "bc_recv L r c = (x, c') \<Longrightarrow>
      hist c' = hist c \<and> cap c' = cap c \<and> (\<forall>q. q \<noteq> r \<longrightarrow> pos c' q = pos c q)"
    and recv_lagged: "pos c r = Some p \<Longrightarrow> cap c < length (hist c) - p \<Longrightarrow>
      fst (bc_recv L r c) = Lag (length (hist c) - cap c - p) \<and>
      pos (snd (bc_recv L r c)) r = Some (length (hist c) - cap c)"
    and recv_value: "pos c r = Some p \<Longrightarrow> length (hist c) - p \<le> cap c \<Longrightarrow> p < length (hist c) \<Longrightarrow>
      fst (bc_recv L r c) = Got (hist c ! p) \<and> pos (snd (bc_recv L r c)) r = Some (Suc p)"
    and recv_empty: "pos c r = Some p \<Longrightarrow> length (hist c) \<le> p \<Longrightarrow>
      fst (bc_recv L r c) = Empty \<and> pos (snd (bc_recv L r c)) r = Some p"
begin

lemma take_drop_Cons: "p < p' \<Longrightarrow> p' \<le> length h \<Longrightarrow> take (p' - p) (drop p h) = h ! p # take (p' - Suc p) (drop (Suc p) h)"
  by (simp add: Cons_nth_drop_Suc [symmetric] take_Cons' Suc_diff_Suc)

text \<open>One look of a receiver accounts for what it moves past.\<close>

lemma step_explains:
  assumes "pos c r = Some p" "p \<le> length (hist c)" "bc_recv L r c = (x, c1)"
  shows "\<exists>p1\<ge>p. pos c1 r = Some p1 \<and> p1 \<le> length (hist c) \<and>
    (\<forall>h p' rs. p1 \<le> p' \<longrightarrow> p' \<le> length (hist c @ h) \<longrightarrow> explains rs (take (p' - p1) (drop p1 (hist c @ h))) \<longrightarrow>
      explains (x # rs) (take (p' - p) (drop p (hist c @ h))))"
proof -
  consider (lagged) "cap c < length (hist c) - p" | (next_one) "length (hist c) - p \<le> cap c" "p < length (hist c)"
    | (empty) "p = length (hist c)" using assms(2) by linarith
  then show ?thesis
  proof cases
    case lagged
    let ?p1 = "length (hist c) - cap c"
    have x: "x = Lag (?p1 - p)" "pos c1 r = Some ?p1" using recv_lagged [OF assms(1) lagged] assms(3) by auto
    have "explains (Lag (?p1 - p) # rs) (take (p' - p) (drop p (hist c @ h)))"
      if "?p1 \<le> p'" "p' \<le> length (hist c @ h)" "explains rs (take (p' - ?p1) (drop ?p1 (hist c @ h)))" for h p' rs
    proof -
      have "drop (?p1 - p) (take (p' - p) (drop p (hist c @ h))) = take (p' - ?p1) (drop ?p1 (hist c @ h))"
        using lagged by (simp add: drop_take del: drop_append)
      with that lagged show ?thesis by (simp del: drop_append)
    qed
    with x lagged show ?thesis by (intro exI [of _ ?p1]) (simp del: drop_append explains.simps)
  next
    case next_one
    have x: "x = Got (hist c ! p)" "pos c1 r = Some (Suc p)"
      using recv_value [OF assms(1) next_one] assms(3) by auto
    have "explains (Got (hist c ! p) # rs) (take (p' - p) (drop p (hist c @ h)))"
      if "Suc p \<le> p'" "p' \<le> length (hist c @ h)" "explains rs (take (p' - Suc p) (drop (Suc p) (hist c @ h)))" for h p' rs
      using that next_one take_drop_Cons [of p p' "hist c @ h"] by (simp add: nth_append del: drop_append)
    with x next_one show ?thesis by (intro exI [of _ "Suc p"]) (simp del: drop_append explains.simps)
  next
    case empty
    then have "x = Empty" "pos c1 r = Some p" using recv_empty [OF assms(1)] assms(3) by auto
    with empty show ?thesis by (intro exI [of _ p]) simp
  qed
qed

lemma run_explains:
  assumes "pos c r = Some p" "p \<le> length (hist c)" "bc_run L r acts c = (rs, c')"
  shows "\<exists>p'\<ge>p. pos c' r = Some p' \<and> p' \<le> length (hist c') \<and> hist c' = hist c @ sends acts \<and> cap c' = cap c \<and>
    explains rs (take (p' - p) (drop p (hist c')))"
  using assms
proof (induction acts arbitrary: c p rs)
  case Nil
  then show ?case by auto
next
  case (Cons a acts)
  show ?case
  proof (cases a)
    case (Send e)
    with Cons.prems Cons.IH [of "bc_send L e c" p rs] show ?thesis by (simp add: send_laws)
  next
    case Subscribe
    obtain q c1 where sub: "bc_subscribe L c = (q, c1)" by fastforce
    from subscribe_laws [OF this] Cons.prems(1) have "q \<noteq> r" "pos c1 r = Some p" "hist c1 = hist c" "cap c1 = cap c" by auto
    with Cons.prems Subscribe sub Cons.IH [of c1 p rs] show ?thesis by simp
  next
    case (Recv q)
    obtain x c1 where rx: "bc_recv L q c = (x, c1)" by fastforce
    obtain xs where run: "bc_run L r acts c1 = (xs, c')" and rs: "rs = (if q = r then x # xs else xs)"
      using Cons.prems(3) Recv rx by (auto split: prod.splits)
    note frame = recv_frame [OF rx]
    show ?thesis
    proof (cases "q = r")
      case False
      then have "pos c1 r = Some p" using frame Cons.prems(1) by auto
      with Cons.IH [OF this _ run] Cons.prems(2) frame False Recv rs show ?thesis by simp
    next
      case True
      obtain p1 where p1: "p \<le> p1" "pos c1 r = Some p1" "p1 \<le> length (hist c)"
        and x: "\<And>h p' rs. p1 \<le> p' \<Longrightarrow> p' \<le> length (hist c @ h) \<Longrightarrow>
          explains rs (take (p' - p1) (drop p1 (hist c @ h))) \<Longrightarrow>
          explains (x # rs) (take (p' - p) (drop p (hist c @ h)))"
        using step_explains [of c r p] Cons.prems(1,2) rx True by auto
      from Cons.IH [OF p1(2) _ run] frame p1(3) obtain p' where
        p': "p1 \<le> p'" "pos c' r = Some p'" "p' \<le> length (hist c')" "hist c' = hist c @ sends acts" "cap c' = cap c"
          "explains xs (take (p' - p1) (drop p1 (hist c')))" by auto
      from x [of p' "sends acts" xs] p' have "explains (x # xs) (take (p' - p) (drop p (hist c')))" by simp
      with p' p1(1) True rs Recv show ?thesis by (intro exI [of _ p']) auto
    qed
  qed
qed

lemma run_lags:
  assumes "pos c r = Some p" "p \<le> length (hist c)" "bc_run L r acts c = (rs, c')" "b = length (hist c) - p"
  shows "(list_ex is_lag rs \<longleftrightarrow> \<not> keeps_up (cap c) r b acts) \<and>
    (keeps_up (cap c) r b acts \<longrightarrow> length (hist c') - the (pos c' r) = unread r b acts)"
  using assms
proof (induction acts arbitrary: c p rs b)
  case (Cons a acts)
  show ?case
  proof (cases a)
    case (Send e)
    with Cons.prems Cons.IH [of "bc_send L e c" p rs "Suc b"] show ?thesis by (simp add: send_laws Suc_diff_le)
  next
    case Subscribe
    obtain q c1 where sub: "bc_subscribe L c = (q, c1)" by fastforce
    from subscribe_laws [OF this] Cons.prems(1) have "q \<noteq> r" "pos c1 r = Some p" "hist c1 = hist c" "cap c1 = cap c" by auto
    with Cons.prems Subscribe sub Cons.IH [of c1 p rs b] show ?thesis by simp
  next
    case (Recv q)
    obtain x c1 where rx: "bc_recv L q c = (x, c1)" by fastforce
    obtain xs where run: "bc_run L r acts c1 = (xs, c')" and rs: "rs = (if q = r then x # xs else xs)"
      using Cons.prems(3) Recv rx by (auto split: prod.splits)
    note frame = recv_frame [OF rx]
    show ?thesis
    proof (cases "q = r")
      case False
      then have "pos c1 r = Some p" using frame Cons.prems(1) by auto
      with Cons.IH [OF this _ run, of b] Cons.prems(2,4) frame False Recv rs show ?thesis by simp
    next
      case True
      show ?thesis
      proof (cases "b \<le> cap c")
        case False
        with True Cons.prems rx recv_lagged [of c r p] rs Recv show ?thesis by simp
      next
        case le: True
        have "\<not> is_lag x" "\<exists>p1. pos c1 r = Some p1 \<and> p1 \<le> length (hist c) \<and> length (hist c) - p1 = b - 1"
          using recv_value [of c r p] recv_empty [of c r p] Cons.prems rx True le
          by (cases "p < length (hist c)"; auto)+
        with Cons.IH [OF _ _ run, of _ "b - 1"] frame le True rs Recv show ?thesis by auto
      qed
    qed
  qed
qed simp

lemma run_cap: "bc_run L r acts c = (rs, c') \<Longrightarrow> cap c' = cap c"
proof (induction acts arbitrary: c rs)
  case (Cons a acts)
  show ?case
  proof (cases a)
    case (Send e)
    with Cons show ?thesis by (simp add: send_laws)
  next
    case Subscribe
    with Cons subscribe_laws [of c "fst (bc_subscribe L c)" "snd (bc_subscribe L c)"] show ?thesis by simp
  next
    case (Recv q)
    with Cons recv_frame [of q c "fst (bc_recv L q c)" "snd (bc_recv L q c)"] show ?thesis by (auto split: prod.splits)
  qed
qed simp

text \<open>What a new receiver gets of the actions that follow.\<close>

lemma subscriber_explains:
  assumes "bc_subscribe L c = (r, c0)" "bc_run L r acts c0 = (rs, c')"
  shows "\<exists>k\<le>length (sends acts). explains rs (take k (sends acts)) \<and> (list_ex is_lag rs \<longleftrightarrow> \<not> keeps_up (cap c) r 0 acts) \<and>
    (keeps_up (cap c) r 0 acts \<longrightarrow> k + unread r 0 acts = length (sends acts))"
proof -
  have sub: "pos c0 r = Some (length (hist c))" "hist c0 = hist c" "cap c0 = cap c"
    using subscribe_laws [OF assms(1)] by auto
  from run_explains [OF sub(1) _ assms(2)] sub obtain p' where
    p': "length (hist c) \<le> p'" "pos c' r = Some p'" "p' \<le> length (hist c')" "hist c' = hist c @ sends acts"
      "explains rs (take (p' - length (hist c)) (sends acts))" by auto
  with run_lags [OF sub(1) _ assms(2)] sub show ?thesis
    by (intro exI [of _ "p' - length (hist c)"]) auto
qed

end

section \<open>A channel that keeps everything\<close>

record 'e kept =
  kp_cap :: nat
  kp_hist :: "'e list"
  kp_pos :: "nat list"

definition kept_recv :: "nat \<Rightarrow> 'e kept \<Rightarrow> 'e rx \<times> 'e kept" where
  "kept_recv r c =
     (if r < length (kp_pos c) then
        let p = kp_pos c ! r; n = length (kp_hist c) in
        if kp_cap c < n - p then (Lag (n - kp_cap c - p), c\<lparr>kp_pos := (kp_pos c)[r := n - kp_cap c]\<rparr>)
        else if p < n then (Got (kp_hist c ! p), c\<lparr>kp_pos := (kp_pos c)[r := Suc p]\<rparr>)
        else (Empty, c)
      else (Empty, c))"

definition kept_lib :: "('e, 'e kept) broadcast_lib" where
  "kept_lib = \<lparr>bc_new = (\<lambda>n. \<lparr>kp_cap = n, kp_hist = [], kp_pos = []\<rparr>),
     bc_send = (\<lambda>e c. c\<lparr>kp_hist := kp_hist c @ [e]\<rparr>),
     bc_subscribe = (\<lambda>c. (length (kp_pos c), c\<lparr>kp_pos := kp_pos c @ [length (kp_hist c)]\<rparr>)),
     bc_recv = kept_recv\<rparr>"

definition kept_position :: "'e kept \<Rightarrow> nat \<Rightarrow> nat option" where
  "kept_position c r = (if r < length (kp_pos c) then Some (kp_pos c ! r) else None)"

interpretation kept: broadcast_channel kept_lib kp_hist kept_position kp_cap
  by unfold_locales
    (auto simp: kept_lib_def kept_recv_def kept_position_def fun_eq_iff nth_append Let_def split: if_splits)

end
