(* ===== verification/Bus.thy ===== *)
theory Bus
  imports Nu_Value Broadcast
begin

text \<open>
  The in-process bus (\<open>src/bus.rs\<close>) and the commands \<open>.bus pub\<close> and \<open>.bus sub\<close>
  (\<open>src/commands.rs\<close>): glob patterns, the subscription loop over what the broadcast receiver
  delivers, and the stream of records a script sees. The broadcast channel itself is tokio's, under
  the contract of \<open>Broadcast\<close>: a subscription is driven by the results of its \<open>recv\<close> calls, in order.
\<close>

section \<open>Glob patterns\<close>

datatype glob_part = Literal string | Star

definition is_star :: "glob_part \<Rightarrow> bool" where
  "is_star p \<longleftrightarrow> p = Star"

text \<open>One turn of the loop of \<open>GlobMatcher::new\<close> over the pattern: the parts so far, the buffer.\<close>

fun glob_step :: "glob_part list \<times> string \<Rightarrow> char \<Rightarrow> glob_part list \<times> string" where
  "glob_step (parts, buf) ch =
     (if ch = CHR ''*'' then
        (let parts1 = (if buf \<noteq> [] then parts @ [Literal buf] else parts);
             parts2 = (if parts1 \<noteq> [] \<and> last parts1 = Star then parts1 else parts1 @ [Star])
         in (parts2, []))
      else (parts, buf @ [ch]))"

fun glob_finish :: "glob_part list \<times> string \<Rightarrow> glob_part list" where
  "glob_finish (parts, buf) = (if buf \<noteq> [] then parts @ [Literal buf] else parts)"

definition glob_new :: "string \<Rightarrow> glob_part list" where
  "glob_new pattern = glob_finish (foldl glob_step ([], []) pattern)"

text \<open>
  \<open>match_parts\<close>: a star that is last matches everything; otherwise every character boundary is
  tried, and then the empty rest.
\<close>

fun match_parts :: "glob_part list \<Rightarrow> string \<Rightarrow> bool" where
  "match_parts [] s = (s = [])"
| "match_parts (Literal lit # rest) s =
     (case strip_prefix s lit of
        Some remainder \<Rightarrow> match_parts rest remainder
      | None \<Rightarrow> False)"
| "match_parts (Star # rest) s =
     (if rest = [] then True
      else list_ex (\<lambda>i. match_parts rest (drop i s)) (char_indices s) \<or> match_parts rest [])"

definition glob_matches :: "glob_part list \<Rightarrow> string \<Rightarrow> bool" where
  "glob_matches m s = match_parts m s"

section \<open>What a pattern means\<close>

text \<open>
  The documented meaning, on the pattern itself: a star matches any run of characters, any other
  character itself.
\<close>

inductive glob_rel :: "string \<Rightarrow> string \<Rightarrow> bool" where
  glob_rel_Nil: "glob_rel [] []"
| glob_rel_char: "c \<noteq> CHR ''*'' \<Longrightarrow> glob_rel p s \<Longrightarrow> glob_rel (c # p) (c # s)"
| glob_rel_star: "glob_rel p s \<Longrightarrow> glob_rel (CHR ''*'' # p) (t @ s)"

inductive_simps glob_rel_Nil_iff [simp]: "glob_rel [] s"
inductive_simps glob_rel_Cons_iff: "glob_rel (c # p) s"

lemma glob_rel_char_iff:
  "c \<noteq> CHR ''*'' \<Longrightarrow> glob_rel (c # p) s \<longleftrightarrow> (\<exists>r. s = c # r \<and> glob_rel p r)"
  by (auto simp: glob_rel_Cons_iff)

lemma glob_rel_star_iff:
  "glob_rel (CHR ''*'' # p) s \<longleftrightarrow> (\<exists>t r. s = t @ r \<and> glob_rel p r)"
  by (auto simp: glob_rel_Cons_iff)

lemma glob_rel_literal:
  "CHR ''*'' \<notin> set lit \<Longrightarrow> glob_rel (lit @ p) s \<longleftrightarrow> (\<exists>r. s = lit @ r \<and> glob_rel p r)"
  by (induction lit arbitrary: s) (auto simp: glob_rel_char_iff)

lemma glob_rel_only_star [simp]: "glob_rel ''*'' s"
  using glob_rel_star [OF glob_rel_Nil, of s] by simp

lemma glob_rel_star_star:
  "glob_rel (CHR ''*'' # CHR ''*'' # p) s \<longleftrightarrow> glob_rel (CHR ''*'' # p) s"
  by (auto simp: glob_rel_star_iff) (metis append.assoc append_Nil)+

text \<open>The same meaning on the parts a pattern is compiled to, with no character boundaries.\<close>

fun parts_rel :: "glob_part list \<Rightarrow> string \<Rightarrow> bool" where
  "parts_rel [] s = (s = [])"
| "parts_rel (Literal lit # rest) s = (\<exists>r. s = lit @ r \<and> parts_rel rest r)"
| "parts_rel (Star # rest) s = (\<exists>t r. s = t @ r \<and> parts_rel rest r)"

text \<open>The compiled form: literals are not empty and start at a character, no star follows a star.\<close>

fun parts_wf :: "glob_part list \<Rightarrow> bool" where
  "parts_wf [] = True"
| "parts_wf (Literal lit # rest) =
     (lit \<noteq> [] \<and> \<not> is_cont (hd lit) \<and> CHR ''*'' \<notin> set lit \<and> parts_wf rest)"
| "parts_wf (Star # rest) = ((rest = [] \<or> hd rest \<noteq> Star) \<and> parts_wf rest)"

fun unparse :: "glob_part list \<Rightarrow> string" where
  "unparse [] = []"
| "unparse (Literal lit # rest) = lit @ unparse rest"
| "unparse (Star # rest) = CHR ''*'' # unparse rest"

lemma match_parts_Literal_iff:
  "match_parts (Literal lit # rest) s \<longleftrightarrow> (\<exists>r. s = lit @ r \<and> match_parts rest r)"
  by (auto simp: strip_prefix_None_iff strip_prefix_Some_iff split: option.splits)

lemma parts_rel_unparse: "parts_wf ps \<Longrightarrow> parts_rel ps s \<longleftrightarrow> glob_rel (unparse ps) s"
  by (induction ps arbitrary: s rule: parts_wf.induct)
    (auto simp: glob_rel_literal glob_rel_star_iff)

text \<open>
  On well-formed parts the restriction to character boundaries loses nothing: what follows a star
  is a literal that starts with a lead byte, so it only matches at a boundary.
\<close>

lemma match_parts_rel: "parts_wf ps \<Longrightarrow> match_parts ps s \<longleftrightarrow> parts_rel ps s"
proof (induction ps arbitrary: s rule: parts_wf.induct)
  case (2 lit rest)
  then show ?case
    by (simp add: match_parts_Literal_iff del: match_parts.simps(2))
next
  case (3 rest)
  show ?case
  proof (cases rest)
    case Nil
    then show ?thesis by (auto intro: exI [of _ "[]"])
  next
    case (Cons p rest')
    with 3 obtain lit where p: "rest = Literal lit # rest'" and lit: "lit \<noteq> []" "\<not> is_cont (hd lit)"
      by (cases p) auto
    have IH: "\<And>s. match_parts rest s = parts_rel rest s" using 3 by simp
    have "(\<exists>t r. s = t @ r \<and> parts_rel rest r) \<longleftrightarrow>
      (\<exists>i. i < length s \<and> char_boundary s i \<and> parts_rel rest (drop i s)) \<or> parts_rel rest []"
      (is "?L = ?R")
    proof
      assume ?L
      then obtain t r where s: "s = t @ r" and r: "parts_rel rest r" by blast
      then obtain r' where "r = lit @ r'" using p by auto
      with s lit have "char_boundary s (length t)" "length t < length s" "drop (length t) s = r"
        by (auto simp: char_boundary_def nth_append hd_conv_nth)
      with r show ?R by metis
    next
      assume ?R
      then show ?L by (metis append_take_drop_id append_Nil2)
    qed
    with p IH show ?thesis by (auto simp: list_ex_iff)
  qed
qed simp

subsection \<open>Compiling a pattern\<close>

lemma parts_wf_append_Literal:
  "parts_wf ps \<Longrightarrow> lit \<noteq> [] \<Longrightarrow> \<not> is_cont (hd lit) \<Longrightarrow> CHR ''*'' \<notin> set lit \<Longrightarrow> parts_wf (ps @ [Literal lit])"
  by (induction ps rule: parts_wf.induct) (auto simp: hd_append)

lemma parts_wf_append_Star:
  "parts_wf ps \<Longrightarrow> ps = [] \<or> last ps \<noteq> Star \<Longrightarrow> parts_wf (ps @ [Star])"
  by (induction ps rule: parts_wf.induct) (auto simp: hd_append split: if_splits)

lemma unparse_append: "unparse (ps @ qs) = unparse ps @ unparse qs"
  by (induction ps rule: unparse.induct) auto

text \<open>
  A piece of a pattern may follow \<open>buf\<close>: it starts with a lead byte unless it continues a
  character of \<open>buf\<close>, and every star is followed by a lead byte.
\<close>

fun star_ok :: "bool \<Rightarrow> string \<Rightarrow> bool" where
  "star_ok mid [] = True"
| "star_ok mid (c # cs) = ((mid \<or> \<not> is_cont c) \<and> star_ok (c \<noteq> CHR ''*'') cs)"

lemma star_ok_mono: "star_ok False cs \<Longrightarrow> star_ok mid cs"
  by (cases cs) auto

lemma byte_of_star [simp]: "byte_of CHR ''*'' = 42"
  by (simp add: byte_of_def)

lemma is_cont_not_star: "is_cont c \<Longrightarrow> c \<noteq> CHR ''*''"
  by (auto simp: is_cont_def)

lemma utf8_ok_star_ok: "utf8_ok s \<Longrightarrow> star_ok False s"
proof (induction s rule: utf8_ok.induct)
  case (2 c cs)
  have lead: "\<not> is_cont c" using 2(5) by (rule utf8_ok_hd)
  show ?case
  proof (cases "byte_of c < 128")
    case True
    with 2 lead show ?thesis by (auto intro: star_ok_mono)
  next
    case False
    then have "c \<noteq> CHR ''*''" by auto
    with 2 lead False show ?thesis
      by (auto split: if_splits list.splits simp: is_cont_not_star intro: star_ok_mono)
  qed
qed simp

lemma glob_rel_prefix_cong:
  "(\<And>s. glob_rel p s \<longleftrightarrow> glob_rel q s) \<Longrightarrow> glob_rel (u @ p) s \<longleftrightarrow> glob_rel (u @ q) s"
  by (induction u arbitrary: s) (auto simp: glob_rel_Cons_iff)

lemma unparse_last_Star: "ps \<noteq> [] \<Longrightarrow> last ps = Star \<Longrightarrow> \<exists>u. unparse ps = u @ ''*''"
  by (cases ps rule: rev_cases) (auto simp: unparse_append)

lemma glob_rel_collapse:
  assumes "ps \<noteq> []" "last ps = Star"
  shows "glob_rel (unparse ps @ CHR ''*'' # p) s \<longleftrightarrow> glob_rel (unparse ps @ p) s"
proof -
  obtain u where "unparse ps = u @ ''*''" using unparse_last_Star [OF assms] by blast
  then show ?thesis
    by (simp add: glob_rel_prefix_cong [of "CHR ''*'' # CHR ''*'' # p" "CHR ''*'' # p"] glob_rel_star_star)
qed

lemma glob_fold_rel:
  assumes "parts_wf ps" "CHR ''*'' \<notin> set buf" "buf \<noteq> [] \<longrightarrow> \<not> is_cont (hd buf)"
    and "star_ok (buf \<noteq> []) p"
  shows "parts_wf (glob_finish (foldl glob_step (ps, buf) p)) \<and>
    (\<forall>s. glob_rel (unparse (glob_finish (foldl glob_step (ps, buf) p))) s \<longleftrightarrow>
         glob_rel (unparse ps @ buf @ p) s)"
  using assms
proof (induction p arbitrary: ps buf)
  case Nil
  then show ?case by (auto simp: parts_wf_append_Literal unparse_append)
next
  case (Cons c p)
  show ?case
  proof (cases "c = CHR ''*''")
    case False
    with Cons.prems Cons.IH [of ps "buf @ [c]"] show ?thesis
      by (auto simp: hd_append)
  next
    case True
    define ps1 where "ps1 = (if buf \<noteq> [] then ps @ [Literal buf] else ps)"
    define ps2 where "ps2 = (if ps1 \<noteq> [] \<and> last ps1 = Star then ps1 else ps1 @ [Star])"
    have wf1: "parts_wf ps1" and u1: "unparse ps1 = unparse ps @ buf"
      using Cons.prems by (auto simp: ps1_def parts_wf_append_Literal unparse_append)
    have wf2: "parts_wf ps2"
      using wf1 by (auto simp: ps2_def intro: parts_wf_append_Star)
    have u2: "glob_rel (unparse ps2 @ p) s = glob_rel (unparse ps1 @ CHR ''*'' # p) s" for s
      using glob_rel_collapse [of ps1 p s] by (auto simp: ps2_def unparse_append)
    have "foldl glob_step (ps, buf) (c # p) = foldl glob_step (ps2, []) p"
      using True by (simp add: ps1_def ps2_def Let_def)
    with Cons.IH [of ps2 "[]"] Cons.prems True wf2 u1 u2 show ?thesis by simp
  qed
qed

lemmas glob_new_rel = glob_fold_rel [where ps = "[]" and buf = "[]", simplified, folded glob_new_def]

lemma glob_new_wf: "utf8_ok p \<Longrightarrow> parts_wf (glob_new p)"
  using glob_new_rel [of p] by (simp add: utf8_ok_star_ok)

lemma glob_new_matches: "utf8_ok p \<Longrightarrow> glob_matches (glob_new p) s \<longleftrightarrow> glob_rel p s"
  using glob_new_rel [of p]
  by (simp add: utf8_ok_star_ok glob_matches_def match_parts_rel glob_new_wf parts_rel_unparse)

section \<open>Subscriptions\<close>

record bus_event =
  topic :: string
  bus_value :: nu_value

text \<open>What one \<open>recv\<close> of the broadcast receiver delivers.\<close>

datatype recv_result = Received bus_event | RecvLagged nat | RecvClosed

definition sub_matches :: "glob_part list option \<Rightarrow> string \<Rightarrow> bool" where
  "sub_matches matcher t = (case matcher of None \<Rightarrow> True | Some m \<Rightarrow> glob_matches m t)"

definition subscribe_matcher :: "string option \<Rightarrow> glob_part list option" where
  "subscribe_matcher pattern = map_option glob_new pattern"

text \<open>
  \<open>BusSubscription::recv\<close> against the results still to come: \<open>None\<close> while the loop waits for a
  result that has not arrived; otherwise what the call returns, and the results it left.
\<close>

fun sub_recv :: "glob_part list option \<Rightarrow> recv_result list \<Rightarrow>
    (bus_event option \<times> recv_result list) option" where
  "sub_recv m [] = None"
| "sub_recv m (Received ev # rs) = (if sub_matches m (topic ev) then Some (Some ev, rs) else sub_recv m rs)"
| "sub_recv m (RecvLagged n # rs) = Some (None, rs)"
| "sub_recv m (RecvClosed # rs) = Some (None, rs)"

text \<open>
  The forwarding thread of \<open>.bus sub\<close>: events go to the channel until \<open>recv\<close> returns nothing, the
  channel's receiver is gone (it takes \<open>k\<close> events; then the thread ends, \<open>True\<close>), or no result has
  arrived.
\<close>

function sub_forward :: "glob_part list option \<Rightarrow> nat \<Rightarrow> recv_result list \<Rightarrow> bus_event list \<times> bool" where
  "sub_forward m k rs =
     (case sub_recv m rs of
        None \<Rightarrow> ([], False)
      | Some (None, rs') \<Rightarrow> ([], True)
      | Some (Some ev, rs') \<Rightarrow>
          (if k = 0 then ([], True)
           else (case sub_forward m (k - 1) rs' of (evs, closed) \<Rightarrow> (ev # evs, closed))))"
  by pat_completeness auto

lemma sub_recv_shorter: "sub_recv m rs = Some (r, rs') \<Longrightarrow> length rs' < length rs"
  by (induction m rs rule: sub_recv.induct) (auto split: if_splits)

termination sub_forward
  by (relation "measure (\<lambda>(m, k, rs). length rs)") (auto dest: sub_recv_shorter)

declare sub_forward.simps [simp del]

lemma sub_forward_simps [simp]:
  "sub_forward m k [] = ([], False)"
  "sub_forward m k (Received ev # rs) =
     (if sub_matches m (topic ev)
      then if k = 0 then ([], True) else (ev # fst (sub_forward m (k - 1) rs), snd (sub_forward m (k - 1) rs))
      else sub_forward m k rs)"
  "sub_forward m k (RecvLagged n # rs) = ([], True)"
  "sub_forward m k (RecvClosed # rs) = ([], True)"
  by (simp_all add: sub_forward.simps [of m k "_ # _"] sub_forward.simps [of m k "[]"]
      sub_forward.simps [of m k rs] split: prod.split)

text \<open>
  The list stream of \<open>.bus sub\<close>: before each wait (100 ms) the engine's interrupt flag is read; a
  timeout waits again. Each step of the loop is the flag and the outcome of the wait.
\<close>

datatype wait_result = WaitOk bus_event | WaitTimeout | WaitDisconnected

definition bus_record :: "bus_event \<Rightarrow> nu_value" where
  "bus_record ev = VRecord [(''topic'', VString (topic ev)), (''value'', bus_value ev)]"

fun bus_sub_next :: "(bool \<times> wait_result) list \<Rightarrow> (nu_value option \<times> (bool \<times> wait_result) list) option" where
  "bus_sub_next [] = None"
| "bus_sub_next ((interrupted, w) # ws) =
     (if interrupted then Some (None, ws)
      else (case w of
              WaitOk ev \<Rightarrow> Some (Some (bus_record ev), ws)
            | WaitTimeout \<Rightarrow> bus_sub_next ws
            | WaitDisconnected \<Rightarrow> Some (None, ws)))"

text \<open>
  The bus itself: a channel, here its capacity in the engine; publishing sends, and a subscription is
  a receiver with a compiled pattern.
\<close>

definition bus_capacity :: nat where
  "bus_capacity = 64"

definition bus_new :: "(bus_event, 'c) broadcast_lib \<Rightarrow> nat \<Rightarrow> 'c" where
  "bus_new L capacity = bc_new L capacity"

definition bus_publish :: "(bus_event, 'c) broadcast_lib \<Rightarrow> string \<Rightarrow> nu_value \<Rightarrow> 'c \<Rightarrow> 'c" where
  "bus_publish L t v c = bc_send L \<lparr>topic = t, bus_value = v\<rparr> c"

definition bus_subscribe :: "(bus_event, 'c) broadcast_lib \<Rightarrow> string option \<Rightarrow> 'c \<Rightarrow> (nat \<times> glob_part list option) \<times> 'c" where
  "bus_subscribe L pattern c = (case bc_subscribe L c of (r, c') \<Rightarrow> ((r, subscribe_matcher pattern), c'))"

text \<open>The results of a receiver's \<open>recv\<close>, which waits while there is nothing.\<close>

fun recv_results :: "bus_event rx list \<Rightarrow> recv_result list" where
  "recv_results [] = []"
| "recv_results (Got ev # rs) = Received ev # recv_results rs"
| "recv_results (Lag n # rs) = RecvLagged n # recv_results rs"
| "recv_results (Empty # rs) = recv_results rs"

text \<open>\<open>.bus pub\<close>: the input as one value, published under the topic; errors of the input are returned.\<close>

definition bus_pub :: "(pipeline_data \<Rightarrow> (shell_error, nu_value) outcome) \<Rightarrow> string \<Rightarrow> pipeline_data \<Rightarrow>
    (shell_error, bus_event) outcome" where
  "bus_pub into_value t input = obind (into_value input) (\<lambda>v. Ok \<lparr>topic = t, bus_value = v\<rparr>)"

section \<open>The contract of a topic filter\<close>

text \<open>
  A subscription only needs a compiled pattern that agrees with the meaning of patterns. Its
  delivery guarantee is proved from that contract.
\<close>

definition is_event :: "recv_result \<Rightarrow> bool" where
  "is_event r \<longleftrightarrow> (\<exists>ev. r = Received ev)"

fun events_of :: "recv_result list \<Rightarrow> bus_event list" where
  "events_of (Received ev # rs) = ev # events_of rs"
| "events_of _ = []"

locale topic_filter =
  fixes compile :: "string \<Rightarrow> 'm"
    and matches :: "'m \<Rightarrow> string \<Rightarrow> bool"
    and means :: "string \<Rightarrow> string \<Rightarrow> bool"
  assumes matches_compile: "utf8_ok p \<Longrightarrow> matches (compile p) t \<longleftrightarrow> means p t"
begin

definition wanted :: "string option \<Rightarrow> string \<Rightarrow> bool" where
  "wanted pat t = (case pat of None \<Rightarrow> True | Some p \<Rightarrow> means p t)"

lemma wanted_matches:
  "(\<And>p. pat = Some p \<Longrightarrow> utf8_ok p) \<Longrightarrow>
    (case map_option compile pat of None \<Rightarrow> True | Some m \<Rightarrow> matches m t) = wanted pat t"
  by (auto simp: wanted_def matches_compile split: option.splits)

end

interpretation bus_filter: topic_filter glob_new glob_matches glob_rel
  by unfold_locales (rule glob_new_matches)

lemma sub_matches_wanted:
  "(\<And>p. pat = Some p \<Longrightarrow> utf8_ok p) \<Longrightarrow>
    sub_matches (subscribe_matcher pat) t \<longleftrightarrow> (case pat of None \<Rightarrow> True | Some p \<Rightarrow> glob_rel p t)"
  using bus_filter.wanted_matches [of pat t]
  by (simp add: sub_matches_def subscribe_matcher_def bus_filter.wanted_def)

lemma sub_forward_filter:
  "fst (sub_forward m k rs) = take k (filter (\<lambda>ev. sub_matches m (topic ev)) (events_of rs))"
  by (induction rs arbitrary: k rule: events_of.induct) (auto simp: take_Cons')

lemma sub_forward_closed:
  "snd (sub_forward m k rs) \<longleftrightarrow>
    (\<exists>r \<in> set rs. \<not> is_event r) \<or> k < length (filter (\<lambda>ev. sub_matches m (topic ev)) (events_of rs))"
proof (induction rs arbitrary: k rule: events_of.induct)
  case (1 ev rs)
  then show ?case by (cases k) (auto simp: is_event_def)
qed (auto simp: is_event_def)

lemma sub_forward_delivers:
  assumes "\<And>p. pat = Some p \<Longrightarrow> utf8_ok p"
  shows "fst (sub_forward (subscribe_matcher pat) k rs) =
    take k (filter (\<lambda>ev. case pat of None \<Rightarrow> True | Some p \<Rightarrow> glob_rel p (topic ev)) (events_of rs))"
  by (simp add: sub_forward_filter sub_matches_wanted [OF assms])

text \<open>The same over the channel.\<close>

lemma events_of_recv_results: "events_of (recv_results rs) = before_lag rs"
  by (induction rs rule: recv_results.induct) auto

lemma recv_results_end: "(\<exists>r\<in>set (recv_results rs). \<not> is_event r) \<longleftrightarrow> list_ex is_lag rs"
  by (induction rs rule: recv_results.induct) (auto simp: is_event_def)

text \<open>A subscription over the channel, from the receiver's contract and the filter's.\<close>

lemma bus_delivers:
  assumes "broadcast_channel L hist pos cap" "\<And>p. pat = Some p \<Longrightarrow> utf8_ok p"
    and "bc_run L q earlier (bus_new L bus_capacity) = (ys, c)"
    and "bus_subscribe L pat c = ((r, m), c0)" "bc_run L r acts c0 = (rs, c')"
  shows "\<exists>j\<le>length (sends acts).
    let wanted = filter (\<lambda>ev. case pat of None \<Rightarrow> True | Some p \<Rightarrow> glob_rel p (topic ev)) (take j (sends acts))
    in sub_forward m k (recv_results rs) = (take k wanted, list_ex is_lag rs \<or> k < length wanted) \<and>
      (keeps_up bus_capacity r 0 acts \<longrightarrow> \<not> list_ex is_lag rs \<and> j + unread r 0 acts = length (sends acts))"
proof -
  have sub: "bc_subscribe L c = (r, c0)" "m = subscribe_matcher pat"
    using assms(4) by (auto simp: bus_subscribe_def split: prod.splits)
  have cap: "bus_capacity \<le> cap c"
    using broadcast_channel.run_cap [OF assms(1,3)] broadcast_channel.new_laws(2) [OF assms(1)] by (simp add: bus_new_def)
  from broadcast_channel.subscriber_explains [OF assms(1) sub(1) assms(5)] obtain i where
    i: "i \<le> length (sends acts)" "explains rs (take i (sends acts))" "list_ex is_lag rs \<longleftrightarrow> \<not> keeps_up (cap c) r 0 acts"
      "keeps_up (cap c) r 0 acts \<longrightarrow> i + unread r 0 acts = length (sends acts)" by blast
  obtain j where j: "j \<le> length (sends acts)" "before_lag rs = take j (sends acts)" "\<not> list_ex is_lag rs \<longrightarrow> j = i"
  proof (cases "list_ex is_lag rs")
    case True
    obtain k where "k \<le> length (take i (sends acts))" "before_lag rs = take k (take i (sends acts))"
      using explains_before_lag [OF i(2)] by blast
    with i(1) True that [of k] show ?thesis by (simp add: min_def split: if_splits)
  next
    case False
    with explains_no_lag [OF i(2)] before_lag_got [of rs] i(1) that [of i] show ?thesis by simp
  qed
  have up: "keeps_up bus_capacity r 0 acts \<Longrightarrow> keeps_up (cap c) r 0 acts" using cap keeps_up_mono by blast
  let ?wanted = "filter (\<lambda>ev. case pat of None \<Rightarrow> True | Some p \<Rightarrow> glob_rel p (topic ev)) (take j (sends acts))"
  have "sub_forward m k (recv_results rs) = (take k ?wanted, list_ex is_lag rs \<or> k < length ?wanted)"
    by (simp add: prod_eq_iff sub(2) sub_forward_filter sub_forward_closed sub_matches_wanted [OF assms(2)]
        events_of_recv_results recv_results_end j(2))
  with i j up show ?thesis unfolding Let_def by blast
qed

text \<open>The values of \<open>.bus sub\<close>, until its stream ends, and the events that make them.\<close>

function bus_sub_values :: "(bool \<times> wait_result) list \<Rightarrow> nu_value list" where
  "bus_sub_values ws =
     (case bus_sub_next ws of
        None \<Rightarrow> []
      | Some (None, ws') \<Rightarrow> []
      | Some (Some v, ws') \<Rightarrow> v # bus_sub_values ws')"
  by pat_completeness auto

lemma bus_sub_next_shorter: "bus_sub_next ws = Some (r, ws') \<Longrightarrow> length ws' < length ws"
  by (induction ws rule: bus_sub_next.induct) (auto split: if_splits wait_result.splits)

termination bus_sub_values
  by (relation "measure length") (auto dest: bus_sub_next_shorter)

declare bus_sub_values.simps [simp del]

fun wait_events :: "(bool \<times> wait_result) list \<Rightarrow> bus_event list" where
  "wait_events ((False, WaitOk ev) # ws) = ev # wait_events ws"
| "wait_events ((False, WaitTimeout) # ws) = wait_events ws"
| "wait_events ws = []"

lemma bus_sub_values_events: "bus_sub_values ws = map bus_record (wait_events ws)"
proof (induction ws rule: wait_events.induct)
  case (2 ws)
  then show ?case by (simp add: bus_sub_values.simps [of "(False, WaitTimeout) # ws"] bus_sub_values.simps [of ws])
qed (simp_all add: bus_sub_values.simps)

section \<open>Properties\<close>

text \<open>
  C11. A compiled glob pattern matches a topic exactly when the pattern means it: a star stands for
  any run of characters (an empty one too, dots included), every other character for itself, and
  the search at character boundaries loses no match.
\<close>

theorem glob_pattern_meaning:
  assumes "utf8_ok p"
  shows "glob_matches (glob_new p) s \<longleftrightarrow> glob_rel p s"
  using assms by (rule glob_new_matches)

theorem glob_pattern_meaning_witness:
  "glob_rel ''orders.*.new'' ''orders.17.new'' \<and> \<not> glob_rel ''orders.*.new'' ''orders.new''"
proof -
  have "utf8_ok ''orders.*.new''" by code_simp
  from glob_pattern_meaning [OF this]
  have "glob_rel ''orders.*.new'' s \<longleftrightarrow> glob_matches (glob_new ''orders.*.new'') s" for s by simp
  moreover have "glob_matches (glob_new ''orders.*.new'') ''orders.17.new''" by code_simp
  moreover have "\<not> glob_matches (glob_new ''orders.*.new'') ''orders.new''" by code_simp
  ultimately show ?thesis by simp
qed

text \<open>
  A bus subscription forwards exactly the published events its pattern means, each once and in
  the order of publication, up to the first lag or the closing of the bus, at which the
  subscription ends, and as long as the script reads them (\<open>k\<close> events).
\<close>

theorem bus_subscription_delivers:
  assumes "\<And>p. pat = Some p \<Longrightarrow> utf8_ok p"
  shows "sub_forward (subscribe_matcher pat) k rs =
    (let wanted = filter (\<lambda>ev. case pat of None \<Rightarrow> True | Some p \<Rightarrow> glob_rel p (topic ev)) (events_of rs)
     in (take k wanted, (\<exists>r\<in>set rs. \<not> is_event r) \<or> k < length wanted))"
  by (simp add: prod_eq_iff Let_def sub_forward_filter sub_forward_closed sub_matches_wanted [OF assms])

theorem bus_subscription_delivers_witness:
  "sub_forward (subscribe_matcher (Some ''a.*'')) 5
      [Received \<lparr>topic = ''a.1'', bus_value = VNothing\<rparr>, Received \<lparr>topic = ''b'', bus_value = VNothing\<rparr>, RecvLagged 3,
       Received \<lparr>topic = ''a.2'', bus_value = VNothing\<rparr>] =
    ([\<lparr>topic = ''a.1'', bus_value = VNothing\<rparr>], True)"
proof -
  have "\<And>p. Some ''a.*'' = Some p \<Longrightarrow> utf8_ok p" by (simp only: option.inject, hypsubst) code_simp
  note th = bus_subscription_delivers [OF this]
  have ok: "utf8_ok ''a.*''" by code_simp
  have "glob_matches (glob_new ''a.*'') ''a.1''" "\<not> glob_matches (glob_new ''a.*'') ''b''" by code_simp+
  then have "glob_rel ''a.*'' ''a.1''" "\<not> glob_rel ''a.*'' ''b''" by (simp_all add: glob_new_matches [OF ok])
  then show ?thesis by (subst th) (simp_all add: is_event_def Let_def)
qed

text \<open>
  C12. Publishing and subscribing over the bus of 64 events: a subscription gets exactly the events
  published after it, by whatever request, that its pattern means, each once and in order, up to the
  point where it has read. While it stays at most 64 events behind, that point is as far as it looked
  and it goes on; the first time it has missed an event it ends there rather than skip one.
\<close>

theorem bus_pub_sub:
  assumes "broadcast_channel L hist pos cap" "\<And>p. pat = Some p \<Longrightarrow> utf8_ok p"
    and "bc_run L q earlier (bus_new L bus_capacity) = (ys, c)"
    and "bus_subscribe L pat c = ((r, m), c0)" "bc_run L r acts c0 = (rs, c')"
  shows "\<exists>j\<le>length (sends acts).
    let wanted = filter (\<lambda>ev. case pat of None \<Rightarrow> True | Some p \<Rightarrow> glob_rel p (topic ev)) (take j (sends acts))
    in sub_forward m k (recv_results rs) = (take k wanted, list_ex is_lag rs \<or> k < length wanted) \<and>
      (keeps_up bus_capacity r 0 acts \<longrightarrow> \<not> list_ex is_lag rs \<and> j + unread r 0 acts = length (sends acts))"
  by (rule bus_delivers [OF assms])

text \<open>Two requests publish while a third one listens.\<close>

definition demo_acts :: "bus_event act list" where
  "demo_acts = [Send \<lparr>topic = ''a.1'', bus_value = VInt 1\<rparr>, Recv 0, Subscribe, Send \<lparr>topic = ''b'', bus_value = VNothing\<rparr>,
     Send \<lparr>topic = ''a.2'', bus_value = VInt 2\<rparr>, Recv 0, Recv 0, Recv 0]"

theorem bus_pub_sub_witness:
  "\<exists>r m c0 rs c'. bus_subscribe kept_lib (Some ''a.*'') (bus_publish kept_lib ''a.0'' VNothing (bus_new kept_lib bus_capacity)) =
      ((r, m), c0) \<and> bc_run kept_lib r demo_acts c0 = (rs, c') \<and>
    sub_forward m 9 (recv_results rs) = ([\<lparr>topic = ''a.1'', bus_value = VInt 1\<rparr>, \<lparr>topic = ''a.2'', bus_value = VInt 2\<rparr>], False)"
proof -
  let ?c = "bus_publish kept_lib ''a.0'' VNothing (bus_new kept_lib bus_capacity)"
  have before: "bc_run kept_lib 0 [Send \<lparr>topic = ''a.0'', bus_value = VNothing\<rparr>] (bus_new kept_lib bus_capacity) = ([], ?c)"
    by (simp add: bus_publish_def)
  obtain r m c0 where sub: "bus_subscribe kept_lib (Some ''a.*'') ?c = ((r, m), c0)" by (metis surj_pair)
  then have r: "r = 0" by (simp add: bus_subscribe_def kept_lib_def bus_publish_def bus_new_def)
  obtain rs c' where run: "bc_run kept_lib r demo_acts c0 = (rs, c')" by (metis surj_pair)
  have ok: "\<And>p. Some ''a.*'' = Some p \<Longrightarrow> utf8_ok p" by (simp only: option.inject, hypsubst) code_simp
  have up: "keeps_up bus_capacity 0 0 demo_acts" "unread 0 0 demo_acts = 0" by code_simp+
  have "glob_matches (glob_new ''a.*'') ''a.1''" "glob_matches (glob_new ''a.*'') ''a.2''"
    "\<not> glob_matches (glob_new ''a.*'') ''b''" by code_simp+
  then have rel: "glob_rel ''a.*'' ''a.1''" "glob_rel ''a.*'' ''a.2''" "\<not> glob_rel ''a.*'' ''b''"
    by (simp_all add: glob_new_matches [OF ok [OF refl]])
  from bus_pub_sub [OF kept.broadcast_channel_axioms ok before sub run, of 9] up r
  have "sub_forward m 9 (recv_results rs) = (take 9 (filter (\<lambda>ev. glob_rel ''a.*'' (topic ev)) (sends demo_acts)),
      9 < length (filter (\<lambda>ev. glob_rel ''a.*'' (topic ev)) (sends demo_acts)))"
    by (auto simp: Let_def)
  with rel have "sub_forward m 9 (recv_results rs) =
      ([\<lparr>topic = ''a.1'', bus_value = VInt 1\<rparr>, \<lparr>topic = ''a.2'', bus_value = VInt 2\<rparr>], False)"
    by (simp add: demo_acts_def)
  with sub run show ?thesis by blast
qed

end
