(* ===== verification/Logging.thy ===== *)
theory Logging
  imports Request Broadcast
begin

text \<open>
  The event log (\<open>src/logging.rs\<close>): the events, the functions that emit them, their JSON form and
  the JSONL writer. A function that logs returns its events in order; \<open>emit\<close> sends them on a channel
  under the contract of \<open>Broadcast\<close>, whose receiver drives the writers. An identifier of a request is its text.
\<close>

section \<open>Events\<close>

record startup_options =
  so_watch :: bool
  so_tls :: "string option"
  so_store :: "string option"
  so_topic :: "string option"
  so_expose :: "string option"
  so_services :: bool
  so_datastar :: bool

record request_data =
  rd_proto :: string
  rd_method :: string
  rd_remote_ip :: "string option"
  rd_remote_port :: "16 word option"
  rd_trusted_ip :: "string option"
  rd_headers :: "(string \<times> string) list"
  rd_uri :: string
  rd_path :: string
  rd_query :: "(string \<times> string) list"

datatype log_event =
    EvRequest string request_data
  | EvResponse string "16 word" "(string \<times> string) list" "64 word"
  | EvComplete string "64 word" "64 word"
  | EvStarted string "64 word" startup_options
  | EvReloaded
  | EvError string
  | EvPrint string
  | EvStopping "64 word"
  | EvStopped
  | EvStopTimedOut
  | EvShutdown

text \<open>
  Collecting the pairs of a header map into a \<open>HashMap\<close>: the last value of a name stays. A value
  that is not text becomes the empty string.
\<close>

definition header_text :: "'h header_lib \<Rightarrow> string \<Rightarrow> string" where
  "header_text L v = (case value_to_str L v of Some s \<Rightarrow> s | None \<Rightarrow> [])"

definition headers_text_map :: "'h header_lib \<Rightarrow> 'h \<Rightarrow> (string \<times> string) list" where
  "headers_text_map L h = foldl (\<lambda>m e. map_insert (fst e) (header_text L (snd e)) m) [] (hl_iter L h)"

text \<open>\<open>RequestData::from\<close>.\<close>

definition request_data_of :: "'h header_lib \<Rightarrow> (ip_addr \<Rightarrow> string) \<Rightarrow> 'h request \<Rightarrow> request_data" where
  "request_data_of L show_ip req =
     \<lparr>rd_proto = proto req, rd_method = req_method req,
      rd_remote_ip = map_option show_ip (remote_ip req), rd_remote_port = remote_port req,
      rd_trusted_ip = map_option show_ip (trusted_ip req),
      rd_headers = headers_text_map L (headers req),
      rd_uri = uri_text (req_uri req), rd_path = path req, rd_query = query req\<rparr>"

definition log_request :: "'h header_lib \<Rightarrow> (ip_addr \<Rightarrow> string) \<Rightarrow> string \<Rightarrow> 'h request \<Rightarrow> log_event list" where
  "log_request L show_ip request_id req = [EvRequest request_id (request_data_of L show_ip req)]"

text \<open>The elapsed times are read from the clock; the argument is their value in milliseconds.\<close>

definition log_response :: "'h header_lib \<Rightarrow> string \<Rightarrow> 16 word \<Rightarrow> 'h \<Rightarrow> 64 word \<Rightarrow> log_event list" where
  "log_response L request_id status hs latency_ms =
     [EvResponse request_id status (headers_text_map L hs) latency_ms]"

definition log_complete :: "string \<Rightarrow> 64 word \<Rightarrow> 64 word \<Rightarrow> log_event list" where
  "log_complete request_id nbytes duration_ms = [EvComplete request_id nbytes duration_ms]"

text \<open>
  The functions that emit the events of the server's life. The count of connections is a \<open>usize\<close>, the
  startup time is cut to 64 bits.
\<close>

definition log_started :: "string \<Rightarrow> nat \<Rightarrow> startup_options \<Rightarrow> log_event list" where
  "log_started address startup_ms opts = [EvStarted address (of_nat startup_ms) opts]"

definition log_reloaded :: "log_event list" where
  "log_reloaded = [EvReloaded]"

definition log_error_event :: "string \<Rightarrow> log_event list" where
  "log_error_event err = [EvError err]"

definition log_print_event :: "string \<Rightarrow> log_event list" where
  "log_print_event message = [EvPrint message]"

definition log_stopping :: "nat \<Rightarrow> log_event list" where
  "log_stopping inflight = [EvStopping (of_nat inflight)]"

definition log_stopped :: "log_event list" where
  "log_stopped = [EvStopped]"

definition log_stop_timed_out :: "log_event list" where
  "log_stop_timed_out = [EvStopTimedOut]"

definition shutdown :: "log_event list" where
  "shutdown = [EvShutdown]"

section \<open>Broadcast results\<close>

datatype event_result = RxEvent log_event | RxLagged "64 word" | RxClosed

text \<open>
  \<open>SENDER\<close> is the channel once \<open>init_broadcast\<close> has set it; an event emitted before goes nowhere.
\<close>

definition log_capacity :: nat where
  "log_capacity = 65536"

definition init_broadcast :: "(log_event, 'c) broadcast_lib \<Rightarrow> nat \<times> 'c" where
  "init_broadcast L = bc_subscribe L (bc_new L log_capacity)"

definition emit :: "(log_event, 'c) broadcast_lib \<Rightarrow> log_event \<Rightarrow> 'c option \<Rightarrow> 'c option" where
  "emit L ev sender = (case sender of Some tx \<Rightarrow> Some (bc_send L ev tx) | None \<Rightarrow> None)"

text \<open>The results of \<open>blocking_recv\<close>, which waits while there is nothing.\<close>

fun log_results :: "log_event rx list \<Rightarrow> event_result list" where
  "log_results [] = []"
| "log_results (Got ev # rs) = RxEvent ev # log_results rs"
| "log_results (Lag n # rs) = RxLagged (of_nat n) # log_results rs"
| "log_results (Empty # rs) = log_results rs"

section \<open>JSON lines\<close>

definition json_obj :: "(string \<times> json) list \<Rightarrow> json" where
  "json_obj fs = JObject (map_of fs)"

definition json_opt_str :: "string option \<Rightarrow> json" where
  "json_opt_str s = (case s of None \<Rightarrow> JNull | Some x \<Rightarrow> JString x)"

definition json_str_map :: "(string \<times> string) list \<Rightarrow> json" where
  "json_str_map m = JObject (map_option JString \<circ> map_of m)"

definition request_data_json :: "request_data \<Rightarrow> json" where
  "request_data_json r = json_obj
     [(''proto'', JString (rd_proto r)), (''method'', JString (rd_method r)),
      (''remote_ip'', json_opt_str (rd_remote_ip r)),
      (''remote_port'', case rd_remote_port r of None \<Rightarrow> JNull | Some p \<Rightarrow> JUInt (ucast p)),
      (''trusted_ip'', json_opt_str (rd_trusted_ip r)),
      (''headers'', json_str_map (rd_headers r)), (''uri'', JString (rd_uri r)),
      (''path'', JString (rd_path r)), (''query'', json_str_map (rd_query r))]"

text \<open>The versions the build fixes; \<open>xs_version\<close> is absent without the cross-stream feature.\<close>

record build_info =
  pkg_version :: string
  nu_version :: string
  xs_version :: "string option"

definition datastar_version :: string where
  "datastar_version = ''1.0.1''"

fun event_json :: "build_info \<Rightarrow> string \<Rightarrow> log_event \<Rightarrow> json option" where
  "event_json bi stamp (EvRequest rid r) = Some (json_obj
     [(''stamp'', JString stamp), (''message'', JString ''request''), (''request_id'', JString rid),
      (''method'', JString (rd_method r)), (''path'', JString (rd_path r)),
      (''trusted_ip'', json_opt_str (rd_trusted_ip r)), (''request'', request_data_json r)])"
| "event_json bi stamp (EvResponse rid status hs latency) = Some (json_obj
     [(''stamp'', JString stamp), (''message'', JString ''response''), (''request_id'', JString rid),
      (''status'', JUInt (ucast status)), (''headers'', json_str_map hs), (''latency_ms'', JUInt latency)])"
| "event_json bi stamp (EvComplete rid nbytes duration) = Some (json_obj
     [(''stamp'', JString stamp), (''message'', JString ''complete''), (''request_id'', JString rid),
      (''bytes'', JUInt nbytes), (''duration_ms'', JUInt duration)])"
| "event_json bi stamp (EvStarted addr startup_ms opts) = Some (json_obj
     [(''stamp'', JString stamp), (''message'', JString ''started''), (''address'', JString addr),
      (''startup_ms'', JUInt startup_ms), (''watch'', JBool (so_watch opts)), (''tls'', json_opt_str (so_tls opts)),
      (''store'', json_opt_str (so_store opts)), (''topic'', json_opt_str (so_topic opts)),
      (''expose'', json_opt_str (so_expose opts)), (''services'', JBool (so_services opts)),
      (''nu_version'', JString (nu_version bi)),
      (''xs_version'', json_opt_str (if so_store opts \<noteq> None then xs_version bi else None)),
      (''datastar_version'', JString datastar_version)])"
| "event_json bi stamp EvReloaded = Some (json_obj
     [(''stamp'', JString stamp), (''message'', JString ''reloaded'')])"
| "event_json bi stamp (EvError e) = Some (json_obj
     [(''stamp'', JString stamp), (''message'', JString ''error''), (''error'', JString e)])"
| "event_json bi stamp (EvPrint m) = Some (json_obj
     [(''stamp'', JString stamp), (''message'', JString ''print''), (''content'', JString m)])"
| "event_json bi stamp (EvStopping n) = Some (json_obj
     [(''stamp'', JString stamp), (''message'', JString ''stopping''), (''inflight'', JUInt n)])"
| "event_json bi stamp EvStopped = Some (json_obj
     [(''stamp'', JString stamp), (''message'', JString ''stopped'')])"
| "event_json bi stamp EvStopTimedOut = Some (json_obj
     [(''stamp'', JString stamp), (''message'', JString ''stop_timed_out'')])"
| "event_json bi stamp EvShutdown = None"

definition lagged_json :: "string \<Rightarrow> 64 word \<Rightarrow> json" where
  "lagged_json stamp n = json_obj
     [(''stamp'', JString stamp), (''message'', JString ''lagged''), (''dropped'', JUInt n)]"

fun needs_flush :: "log_event \<Rightarrow> bool" where
  "needs_flush (EvStarted a ms opts) = True"
| "needs_flush EvStopped = True"
| "needs_flush EvStopTimedOut = True"
| "needs_flush EvReloaded = True"
| "needs_flush (EvError e) = True"
| "needs_flush (EvPrint m) = True"
| "needs_flush _ = False"

text \<open>
  \<open>run_jsonl_handler\<close>: each turn of the loop gets a result, a fresh stamp, and whether the channel
  is empty afterwards. What it does to the buffered standard output is a list of writes and
  flushes. The loop ends on \<open>Shutdown\<close> or when the channel is closed; it keeps waiting when the
  results run out (the flag).
\<close>

datatype out_op = WriteLine string | Flush

definition write_json :: "(json \<Rightarrow> string option) \<Rightarrow> json \<Rightarrow> out_op list" where
  "write_json json_str j = (case json_str j of Some line \<Rightarrow> [WriteLine line] | None \<Rightarrow> [])"

fun run_jsonl :: "(json \<Rightarrow> string option) \<Rightarrow> build_info \<Rightarrow> (event_result \<times> string \<times> bool) list \<Rightarrow> out_op list \<times> bool" where
  "run_jsonl js bi [] = ([], False)"
| "run_jsonl js bi ((RxLagged n, stamp, empty_after) # rs) =
     (let ops = (case js (lagged_json stamp n) of Some line \<Rightarrow> [WriteLine line, Flush] | None \<Rightarrow> [])
      in case run_jsonl js bi rs of (ops', fin) \<Rightarrow> (ops @ ops', fin))"
| "run_jsonl js bi ((RxClosed, stamp, empty_after) # rs) = ([Flush], True)"
| "run_jsonl js bi ((RxEvent ev, stamp, empty_after) # rs) =
     (if ev = EvShutdown then ([Flush, Flush], True)
      else
        let ops = (case event_json bi stamp ev of Some j \<Rightarrow> write_json js j | None \<Rightarrow> []) @
                  (if needs_flush ev \<or> empty_after then [Flush] else [])
        in case run_jsonl js bi rs of (ops', fin) \<Rightarrow> (ops @ ops', fin))"

text \<open>What has reached the terminal: everything written up to the last flush.\<close>

fun flushed :: "string list \<Rightarrow> string list \<Rightarrow> out_op list \<Rightarrow> string list \<times> string list" where
  "flushed done pending [] = (done, pending)"
| "flushed done pending (WriteLine l # ops) = flushed done (pending @ [l]) ops"
| "flushed done pending (Flush # ops) = flushed (done @ pending) [] ops"

section \<open>Laws\<close>

lemma event_json_None_iff [simp]: "event_json bi stamp ev = None \<longleftrightarrow> ev = EvShutdown"
  by (cases ev) auto

definition line_of :: "(json \<Rightarrow> string option) \<Rightarrow> build_info \<Rightarrow> event_result \<times> string \<times> bool \<Rightarrow> string list" where
  "line_of js bi r =
     (case r of (res, stamp, _) \<Rightarrow>
        (case res of
           RxEvent ev \<Rightarrow> (case Option.bind (event_json bi stamp ev) js of Some l \<Rightarrow> [l] | None \<Rightarrow> [])
         | RxLagged n \<Rightarrow> (case js (lagged_json stamp n) of Some l \<Rightarrow> [l] | None \<Rightarrow> [])
         | RxClosed \<Rightarrow> []))"

fun is_end :: "event_result \<times> string \<times> bool \<Rightarrow> bool" where
  "is_end (RxEvent ev, s) = (ev = EvShutdown)"
| "is_end (RxLagged n, s) = False"
| "is_end (RxClosed, s) = True"

lemma flushed_append:
  "flushed d p (ops @ ops') = (case flushed d p ops of (d', p') \<Rightarrow> flushed d' p' ops')"
  by (induction d p ops rule: flushed.induct) auto

lemma flushed_shift: "fst (flushed d p ops) @ snd (flushed d p ops) = d @ p @ concat (map (\<lambda>oper. case oper of WriteLine l \<Rightarrow> [l] | Flush \<Rightarrow> []) ops)"
  by (induction d p ops rule: flushed.induct) auto

lemma run_jsonl_lines:
  "concat (map (\<lambda>oper. case oper of WriteLine l \<Rightarrow> [l] | Flush \<Rightarrow> []) (fst (run_jsonl js bi rs))) =
    concat (map (line_of js bi) (takeWhile (\<lambda>r. \<not> is_end r) rs))"
  by (induction js bi rs rule: run_jsonl.induct)
    (auto simp: Let_def line_of_def write_json_def split: prod.splits option.splits)

lemma run_jsonl_fin: "snd (run_jsonl js bi rs) \<longleftrightarrow> (\<exists>r \<in> set rs. is_end r)"
  by (induction js bi rs rule: run_jsonl.induct) (auto simp: Let_def split: prod.splits)

lemma run_jsonl_end_flush:
  "snd (run_jsonl js bi rs) \<Longrightarrow> fst (run_jsonl js bi rs) \<noteq> [] \<and> last (fst (run_jsonl js bi rs)) = Flush"
  by (induction js bi rs rule: run_jsonl.induct) (auto simp: Let_def split: prod.splits if_splits)

lemma flushed_last_Flush: "ops \<noteq> [] \<Longrightarrow> last ops = Flush \<Longrightarrow> snd (flushed d p ops) = []"
  by (cases ops rule: rev_cases) (auto simp: flushed_append split: prod.splits)

lemma jsonl_output:
  assumes "\<exists>r \<in> set rs. is_end r"
  shows "flushed [] [] (fst (run_jsonl js bi rs)) =
    (concat (map (line_of js bi) (takeWhile (\<lambda>r. \<not> is_end r) rs)), [])"
proof -
  have "snd (run_jsonl js bi rs)" using assms by (simp add: run_jsonl_fin)
  then have "snd (flushed [] [] (fst (run_jsonl js bi rs))) = []"
    using run_jsonl_end_flush flushed_last_Flush by blast
  with flushed_shift [of "[]" "[]" "fst (run_jsonl js bi rs)"] show ?thesis
    by (cases "flushed [] [] (fst (run_jsonl js bi rs))") (simp add: run_jsonl_lines)
qed

subsection \<open>What the channel's receiver makes of it\<close>

fun seen_events :: "event_result list \<Rightarrow> log_event list" where
  "seen_events [] = []"
| "seen_events (RxEvent ev # rs) = ev # seen_events rs"
| "seen_events (r # rs) = seen_events rs"

fun dropped_count :: "event_result list \<Rightarrow> nat" where
  "dropped_count [] = 0"
| "dropped_count (RxLagged n # rs) = unat n + dropped_count rs"
| "dropped_count (r # rs) = dropped_count rs"

lemma log_results_append [simp]: "log_results (rs @ rs') = log_results rs @ log_results rs'"
  by (induction rs rule: log_results.induct) auto

lemma seen_log_results: "seen_events (log_results rs) = got rs"
  by (induction rs rule: log_results.induct) auto

lemma dropped_log_results: "missed rs < 2 ^ 64 \<Longrightarrow> dropped_count (log_results rs) = missed rs"
  by (induction rs rule: log_results.induct) (auto simp: unat_of_nat take_bit_nat_eq_self)

lemma log_results_shutdown: "RxEvent EvShutdown \<in> set (log_results rs) \<longleftrightarrow> Got EvShutdown \<in> set rs"
  by (induction rs rule: log_results.induct) auto

lemma log_results_open: "RxClosed \<notin> set (log_results rs)"
  by (induction rs rule: log_results.induct) auto

lemma is_end_iff: "is_end r \<longleftrightarrow> fst r = RxEvent EvShutdown \<or> fst r = RxClosed"
  by (cases r rule: is_end.cases) auto

lemma takeWhile_map_fst: "map fst (takeWhile (\<lambda>r. \<not> is_end r) rs) = takeWhile (\<lambda>x. x \<noteq> RxEvent EvShutdown \<and> x \<noteq> RxClosed) (map fst rs)"
  by (induction rs) (auto simp: is_end_iff)

lemma explains_until_shutdown:
  assumes "explains rs (take k (evs @ EvShutdown # later))" "EvShutdown \<notin> set evs \<union> set later" "Got EvShutdown \<in> set rs"
  shows "\<exists>rs1 rs2. rs = rs1 @ Got EvShutdown # rs2 \<and> Got EvShutdown \<notin> set rs1 \<and> explains rs1 evs"
proof -
  obtain rs1 rs2 where rs: "rs = rs1 @ Got EvShutdown # rs2" "Got EvShutdown \<notin> set rs1"
    using split_list_first [OF assms(3)] by blast
  let ?all = "evs @ EvShutdown # later"
  obtain m where m: "m \<le> length (take k ?all)" "explains rs1 (take m (take k ?all))"
    and rest: "explains (Got EvShutdown # rs2) (drop m (take k ?all))"
    using assms(1) rs(1) by (auto simp: explains_append simp del: explains.simps)
  have hd: "drop m (take k ?all) \<noteq> []" "hd (drop m (take k ?all)) = EvShutdown"
    using rest by (simp_all del: take_append drop_append)
  then have "m < length (take k ?all)" by (simp add: not_le del: take_append drop_append)
  with hd(2) have "take k ?all ! m = EvShutdown" by (simp add: hd_drop_conv_nth del: take_append drop_append)
  with \<open>m < length (take k ?all)\<close> have at: "m < length ?all" "?all ! m = EvShutdown" "m < k"
    by (simp_all add: not_le min_less_iff_conj del: take_append)
  have "m = length evs"
  proof (cases m "length evs" rule: linorder_cases)
    case less
    with at(2) assms(2) nth_mem [of m evs] show ?thesis by (simp add: nth_append)
  next
    case greater
    with at(1) have "m - length evs - 1 < length later" by simp
    with greater at(2) assms(2) nth_mem [of "m - length evs - 1" later] show ?thesis by (simp add: nth_append nth_Cons')
  qed simp
  with m(2) at(3) have "explains rs1 evs" by (simp add: min_def)
  with rs show ?thesis by blast
qed

text \<open>What the handler has seen when it ends at the shutdown: the results that explain the events before it.\<close>

lemma log_until_shutdown:
  assumes "broadcast_channel L hist pos cap" "init_broadcast L = (r, c0)" "bc_run L r acts c0 = (rs, c')"
    and "sends acts = evs @ EvShutdown # later" "EvShutdown \<notin> set evs \<union> set later"
    and "map fst results = log_results rs" "snd (run_jsonl js bi results)"
  shows "(\<exists>x\<in>set results. is_end x) \<and>
    (\<exists>rs1. map fst (takeWhile (\<lambda>x. \<not> is_end x) results) = log_results rs1 \<and> explains rs1 evs \<and>
      (keeps_up log_capacity r 0 acts \<longrightarrow> \<not> list_ex is_lag rs1))"
proof -
  note sub = broadcast_channel.subscriber_explains [OF assms(1) assms(2) [unfolded init_broadcast_def] assms(3)]
  then obtain k where k: "explains rs (take k (evs @ EvShutdown # later))"
    and lag: "list_ex is_lag rs \<longleftrightarrow> \<not> keeps_up (cap (bc_new L log_capacity)) r 0 acts" unfolding assms(4) by blast
  have fin: "\<exists>x\<in>set results. is_end x" using assms(7) by (simp add: run_jsonl_fin)
  then have "\<exists>y\<in>set (log_results rs). y = RxEvent EvShutdown \<or> y = RxClosed"
    unfolding assms(6) [symmetric] by (auto simp: is_end_iff)
  then have "Got EvShutdown \<in> set rs" using log_results_shutdown log_results_open by blast
  from explains_until_shutdown [OF k assms(5) this] obtain rs1 rs2 where
    rs: "rs = rs1 @ Got EvShutdown # rs2" "Got EvShutdown \<notin> set rs1" "explains rs1 evs" by blast
  have "takeWhile (\<lambda>x. x \<noteq> RxEvent EvShutdown \<and> x \<noteq> RxClosed) (log_results rs) = log_results rs1"
  proof -
    have "x \<noteq> RxEvent EvShutdown \<and> x \<noteq> RxClosed" if "x \<in> set (log_results rs1)" for x
      using that rs(2) log_results_shutdown [of rs1] log_results_open [of rs1] by metis
    then show ?thesis by (simp add: rs(1) takeWhile_append2)
  qed
  then have "map fst (takeWhile (\<lambda>x. \<not> is_end x) results) = log_results rs1" by (simp add: takeWhile_map_fst assms(6))
  moreover have "\<not> list_ex is_lag rs1" if "keeps_up log_capacity r 0 acts"
  proof -
    have "keeps_up (cap (bc_new L log_capacity)) r 0 acts"
      using that keeps_up_mono broadcast_channel.new_laws(2) [OF assms(1)] by blast
    then show ?thesis using lag rs(1) by simp
  qed
  ultimately show ?thesis using fin rs(3) by blast
qed

section \<open>Properties\<close>

text \<open>
  When the JSON-lines handler ends, standard output has every line of every event before the
  end, in order, and nothing is left in its buffer; the end is at the first shutdown event or at
  the closing of the channel, and only there.
\<close>

theorem jsonl_log_complete:
  assumes "\<exists>r\<in>set rs. is_end r"
  shows "flushed [] [] (fst (run_jsonl js bi rs)) = (concat (map (line_of js bi) (takeWhile (\<lambda>r. \<not> is_end r) rs)), []) \<and>
    snd (run_jsonl js bi rs)"
  using jsonl_output [OF assms] assms by (simp add: run_jsonl_fin)

theorem jsonl_log_complete_witness:
  "flushed [] [] (fst (run_jsonl (\<lambda>j. Some ''line'') \<lparr>pkg_version = '''', nu_version = '''', xs_version = None\<rparr>
      [(RxEvent (EvPrint ''a''), ''t1'', False), (RxLagged 4, ''t2'', True), (RxEvent EvShutdown, ''t3'', True), (RxClosed, ''t4'', True)])) =
    ([''line'', ''line''], [])"
  using jsonl_log_complete [of "[(RxEvent (EvPrint ''a''), ''t1'', False), (RxLagged 4, ''t2'', True), (RxEvent EvShutdown, ''t3'', True),
      (RxClosed, ''t4'', True)]" "\<lambda>j. Some ''line''" "\<lparr>pkg_version = '''', nu_version = '''', xs_version = None\<rparr>"]
  by (simp add: line_of_def)

text \<open>
  C9. The log accounts for every event: when the JSON-lines handler ends at the shutdown event, the
  entries on standard output are one for each event it received, in the order of emission, and one
  for each time it fell behind; the events received and the counts of the dropped ones add up to
  the events emitted before the shutdown. While it stays at most 65536 events behind, none is
  dropped.
\<close>

theorem log_accounts_for_events:
  assumes "broadcast_channel L hist pos cap" "init_broadcast L = (r, c0)" "bc_run L r acts c0 = (rs, c')"
    and "sends acts = evs @ EvShutdown # later" "EvShutdown \<notin> set evs \<union> set later" "length evs < 2 ^ 64"
    and "map fst results = log_results rs" "snd (run_jsonl js bi results)"
  shows "\<exists>received. flushed [] [] (fst (run_jsonl js bi results)) = (concat (map (line_of js bi) received), []) \<and>
    prefix received results \<and> subseq (seen_events (map fst received)) evs \<and>
    length (seen_events (map fst received)) + dropped_count (map fst received) = length evs \<and>
    (keeps_up log_capacity r 0 acts \<longrightarrow> seen_events (map fst received) = evs)"
proof -
  let ?received = "takeWhile (\<lambda>x. \<not> is_end x) results"
  from log_until_shutdown [OF assms(1-5,7,8)] obtain rs1 where fin: "\<exists>x\<in>set results. is_end x"
    and received: "map fst ?received = log_results rs1" and rs: "explains rs1 evs"
    and lag: "keeps_up log_capacity r 0 acts \<longrightarrow> \<not> list_ex is_lag rs1" by blast
  have "missed rs1 < 2 ^ 64" using explains_count [OF rs] assms(6) by simp
  then have count: "length (seen_events (map fst ?received)) + dropped_count (map fst ?received) = length evs"
    using explains_count [OF rs] by (simp add: received seen_log_results dropped_log_results)
  have "seen_events (map fst ?received) = evs" if "keeps_up log_capacity r 0 acts"
    using that lag explains_no_lag [OF rs] by (simp add: received seen_log_results)
  with count show ?thesis using jsonl_output [OF fin] explains_subseq [OF rs]
    by (intro exI [of _ ?received]) (simp add: received seen_log_results takeWhile_is_prefix)
qed

theorem log_accounts_for_events_witness:
  "\<exists>r c0 rs c' received. init_broadcast kept_lib = (r, c0) \<and>
    bc_run kept_lib r [Send (EvPrint ''a''), Recv 0, Send (EvError ''b''), Send EvShutdown, Recv 0, Recv 0] c0 = (rs, c') \<and>
    flushed [] [] (fst (run_jsonl (\<lambda>j. Some ''line'') \<lparr>pkg_version = [], nu_version = [], xs_version = None\<rparr>
      (map (\<lambda>x. (x, ''t'', False)) (log_results rs)))) = (received, [])"
proof -
  let ?acts = "[Send (EvPrint ''a''), Recv 0, Send (EvError ''b''), Send EvShutdown, Recv 0, Recv 0]"
  let ?bi = "\<lparr>pkg_version = [], nu_version = [], xs_version = None\<rparr>"
  obtain r c0 where init: "init_broadcast (kept_lib :: (log_event, log_event kept) broadcast_lib) = (r, c0)" by (metis surj_pair)
  obtain rs c' where run: "bc_run kept_lib r ?acts c0 = (rs, c')" by (metis surj_pair)
  let ?results = "map (\<lambda>x. (x, ''t'', False)) (log_results rs)"
  have rs: "rs = [Got (EvPrint ''a''), Got (EvError ''b''), Got EvShutdown]"
    using init run by (auto simp: init_broadcast_def kept_lib_def kept_recv_def log_capacity_def Let_def)
  have "map fst ?results = log_results rs" by (simp add: o_def)
  moreover have "snd (run_jsonl (\<lambda>j. Some ''line'') ?bi ?results)" by (simp add: rs run_jsonl_fin)
  moreover have "sends ?acts = [EvPrint ''a'', EvError ''b''] @ EvShutdown # []" by simp
  ultimately show ?thesis
    using log_accounts_for_events [OF kept.broadcast_channel_axioms init run, of "[EvPrint ''a'', EvError ''b'']" "[]"] init run
    by fastforce
qed

end
