(* ===== verification/Commands.thy ===== *)
theory Commands
  imports Worker Markdown Templates Engine Bus Logging
begin

text \<open>
  The commands as nushell sees them (\<open>src/commands.rs\<close>): the declaration of each (its name, help
  texts and signature), how its \<open>run\<close> reads its arguments from the call, and its effect on the state
  the commands share: the response slot, the template cache, the bus and the log. What a command
  computes from its arguments is defined with its component; here the pieces are put together the way
  the \<open>run\<close> functions do. The call itself is nushell's: a record of its operations, whose promises are
  a locale.
\<close>

section \<open>Declarations\<close>

text \<open>
  What a declaration is built from. \<open>SyntaxShape::Record(vec![])\<close> and \<open>Type::record()\<close>, the records
  without required columns, are the only record shape and type the commands name.
\<close>

datatype syntax_shape = Shape_String | Shape_Any | Shape_Record

datatype nu_type = Type_Any | Type_Nothing | Type_String | Type_Record | Type_List nu_type | Type_Custom string

datatype category = Category_Custom string | Category_Formats | Category_Strings | Category_Experimental

record positional =
  pos_name :: string
  pos_shape :: syntax_shape
  pos_desc :: string

text \<open>A flag without a shape is a switch.\<close>

record flag =
  fl_name :: string
  fl_shape :: "syntax_shape option"
  fl_desc :: string
  fl_short :: "char option"

record signature =
  sg_name :: string
  sg_required :: "positional list"
  sg_optional :: "positional list"
  sg_rest :: "positional option"
  sg_flags :: "flag list"
  sg_io :: "(nu_type \<times> nu_type) list"
  sg_variants :: bool
  sg_category :: "category option"

text \<open>The builder: \<open>Signature::build\<close> and the calls chained to it, in their order.\<close>

definition required :: "string \<Rightarrow> syntax_shape \<Rightarrow> string \<Rightarrow> signature \<Rightarrow> signature" where
  "required n sh d s = s\<lparr>sg_required := sg_required s @ [\<lparr>pos_name = n, pos_shape = sh, pos_desc = d\<rparr>]\<rparr>"

definition optional :: "string \<Rightarrow> syntax_shape \<Rightarrow> string \<Rightarrow> signature \<Rightarrow> signature" where
  "optional n sh d s = s\<lparr>sg_optional := sg_optional s @ [\<lparr>pos_name = n, pos_shape = sh, pos_desc = d\<rparr>]\<rparr>"

definition rest_args :: "string \<Rightarrow> syntax_shape \<Rightarrow> string \<Rightarrow> signature \<Rightarrow> signature" where
  "rest_args n sh d s = s\<lparr>sg_rest := Some \<lparr>pos_name = n, pos_shape = sh, pos_desc = d\<rparr>\<rparr>"

definition named :: "string \<Rightarrow> syntax_shape \<Rightarrow> string \<Rightarrow> char option \<Rightarrow> signature \<Rightarrow> signature" where
  "named n sh d c s = s\<lparr>sg_flags := sg_flags s @ [\<lparr>fl_name = n, fl_shape = Some sh, fl_desc = d, fl_short = c\<rparr>]\<rparr>"

definition switch :: "string \<Rightarrow> string \<Rightarrow> char option \<Rightarrow> signature \<Rightarrow> signature" where
  "switch n d c s = s\<lparr>sg_flags := sg_flags s @ [\<lparr>fl_name = n, fl_shape = None, fl_desc = d, fl_short = c\<rparr>]\<rparr>"

definition input_output_types :: "(nu_type \<times> nu_type) list \<Rightarrow> signature \<Rightarrow> signature" where
  "input_output_types io s = s\<lparr>sg_io := io\<rparr>"

definition allow_variants_without_examples :: "bool \<Rightarrow> signature \<Rightarrow> signature" where
  "allow_variants_without_examples b s = s\<lparr>sg_variants := b\<rparr>"

definition in_category :: "category \<Rightarrow> signature \<Rightarrow> signature" where
  "in_category c s = s\<lparr>sg_category := Some c\<rparr>"

definition build :: "string \<Rightarrow> (signature \<Rightarrow> signature) list \<Rightarrow> signature" where
  "build n calls = fold (\<lambda>f s. f s) calls
     \<lparr>sg_name = n, sg_required = [], sg_optional = [], sg_rest = None, sg_flags = [], sg_io = [], sg_variants = False,
      sg_category = None\<rparr>"

lemmas builder_defs = build_def required_def optional_def rest_args_def named_def switch_def input_output_types_def
  allow_variants_without_examples_def in_category_def

record command_info =
  dc_name :: string
  dc_description :: string
  dc_signature :: signature

definition http_category :: category where
  "http_category = Category_Custom ''http''"

section \<open>The fourteen commands\<close>

definition static_command :: command_info where
  "static_command = \<lparr>dc_name = ''.static'', dc_description = ''Serve static files from a directory'',
     dc_signature = build ''.static''
       [required ''root'' Shape_String ''root directory path'',
        required ''path'' Shape_String ''request path'',
        named ''fallback'' Shape_String ''fallback file when request missing'' None,
        input_output_types [(Type_Nothing, Type_Nothing)],
        in_category http_category]\<rparr>"

definition to_sse_command :: command_info where
  "to_sse_command = \<lparr>dc_name = ''to sse'', dc_description = ''Convert records into text/event-stream format'',
     dc_signature = build ''to sse''
       [input_output_types [(Type_Record, Type_String), (Type_List Type_Record, Type_String)],
        in_category Category_Formats]\<rparr>"

definition reverse_proxy_command :: command_info where
  "reverse_proxy_command = \<lparr>dc_name = ''.reverse-proxy'',
     dc_description = ''Forward HTTP requests to a backend server'',
     dc_signature = build ''.reverse-proxy''
       [required ''target_url'' Shape_String ''backend URL to proxy to'',
        optional ''config'' Shape_Record ''optional configuration (headers, preserve_host, strip_prefix, query)'',
        input_output_types [(Type_Any, Type_Nothing)],
        in_category http_category]\<rparr>"

definition mj_command :: command_info where
  "mj_command = \<lparr>dc_name = ''.mj'', dc_description = ''Render a minijinja template with context from input'',
     dc_signature = build ''.mj''
       [optional ''file'' Shape_String ''template file path'',
        named ''inline'' Shape_String ''inline template string'' (Some (CHR ''i'')),
        named ''topic'' Shape_String ''load template from a store topic'' (Some (CHR ''t'')),
        input_output_types [(Type_Record, Type_String)],
        in_category http_category]\<rparr>"

definition mj_compile_command :: command_info where
  "mj_compile_command = \<lparr>dc_name = ''.mj compile'',
     dc_description = ''Compile a minijinja template, returning a reusable compiled template'',
     dc_signature = build ''.mj compile''
       [optional ''file'' Shape_String ''template file path'',
        named ''inline'' Shape_Any ''inline template (string or {__html: string})'' (Some (CHR ''i'')),
        named ''topic'' Shape_String ''load template from a store topic'' (Some (CHR ''t'')),
        input_output_types [(Type_Nothing, Type_Custom ''CompiledTemplate'')],
        in_category http_category]\<rparr>"

definition mj_render_command :: command_info where
  "mj_render_command = \<lparr>dc_name = ''.mj render'',
     dc_description = ''Render a compiled minijinja template with context from input'',
     dc_signature = build ''.mj render''
       [required ''template'' Shape_Any (''compiled template from '' @ [CHR 0x27] @ ''.mj compile'' @ [CHR 0x27]),
        input_output_types [(Type_Record, Type_String)],
        in_category http_category]\<rparr>"

definition highlight_command :: command_info where
  "highlight_command = \<lparr>dc_name = ''.highlight'',
     dc_description = ''Syntax highlight code, outputting HTML with CSS classes'',
     dc_signature = build ''.highlight''
       [required ''lang'' Shape_String ''language for highlighting'',
        input_output_types [(Type_String, Type_Record)],
        in_category http_category]\<rparr>"

definition highlight_theme_command :: command_info where
  "highlight_theme_command = \<lparr>dc_name = ''.highlight theme'',
     dc_description = ''List available themes or get CSS for a specific theme'',
     dc_signature = build ''.highlight theme''
       [optional ''name'' Shape_String ''theme name (omit to list all)'',
        input_output_types [(Type_Nothing, Type_List Type_String), (Type_Nothing, Type_String)],
        in_category http_category]\<rparr>"

definition highlight_lang_command :: command_info where
  "highlight_lang_command = \<lparr>dc_name = ''.highlight lang'',
     dc_description = ''List available languages for syntax highlighting'',
     dc_signature = build ''.highlight lang''
       [input_output_types [(Type_Nothing, Type_List Type_Record)],
        in_category http_category]\<rparr>"

definition md_command :: command_info where
  "md_command = \<lparr>dc_name = ''.md'', dc_description = ''Convert Markdown to HTML with syntax-highlighted code blocks'',
     dc_signature = build ''.md''
       [input_output_types [(Type_String, Type_Record), (Type_Record, Type_Record)],
        in_category http_category]\<rparr>"

definition print_command :: command_info where
  "print_command = \<lparr>dc_name = ''print'', dc_description = ''Print the given values to the http-nu logging system.'',
     dc_signature = build ''print''
       [input_output_types [(Type_Nothing, Type_Nothing), (Type_Any, Type_Nothing)],
        allow_variants_without_examples True,
        rest_args ''rest'' Shape_Any ''the values to print'',
        switch ''no-newline'' ''print without inserting a newline for the line ending'' (Some (CHR ''n'')),
        switch ''stderr'' ''print to stderr instead of stdout'' (Some (CHR ''e'')),
        switch ''raw'' ''print without formatting (including binary data)'' (Some (CHR ''r'')),
        in_category Category_Strings]\<rparr>"

definition run_nu_command :: command_info where
  "run_nu_command = \<lparr>dc_name = ''.run'',
     dc_description = ''Parse, compile, and evaluate a nushell pipeline string in a sandboxed engine state.'',
     dc_signature = build ''.run''
       [input_output_types [(Type_Any, Type_Any)],
        required ''script'' Shape_String ''nushell source to evaluate'',
        in_category Category_Experimental]\<rparr>"

definition bus_pub_command :: command_info where
  "bus_pub_command = \<lparr>dc_name = ''.bus pub'', dc_description = ''Publish a value to an ephemeral in-process topic.'',
     dc_signature = build ''.bus pub''
       [input_output_types [(Type_Any, Type_Nothing)],
        required ''topic'' Shape_String ''topic to publish to'',
        in_category Category_Experimental]\<rparr>"

definition bus_sub_command :: command_info where
  "bus_sub_command = \<lparr>dc_name = ''.bus sub'',
     dc_description = ''Subscribe to ephemeral in-process topics; yields {topic, value} records.'',
     dc_signature = build ''.bus sub''
       [input_output_types [(Type_Nothing, Type_Any)],
        optional ''pattern'' Shape_String ''glob pattern; omit for all topics'',
        in_category Category_Experimental]\<rparr>"

lemmas command_defs = static_command_def to_sse_command_def reverse_proxy_command_def mj_command_def
    mj_compile_command_def mj_render_command_def highlight_command_def highlight_theme_command_def
    highlight_lang_command_def md_command_def print_command_def run_nu_command_def bus_pub_command_def
    bus_sub_command_def http_category_def

datatype command =
    Cmd_Reverse_Proxy
  | Cmd_Static
  | Cmd_To_Sse
  | Cmd_Mj
  | Cmd_Mj_Compile
  | Cmd_Mj_Render
  | Cmd_Highlight
  | Cmd_Highlight_Theme
  | Cmd_Highlight_Lang
  | Cmd_Md
  | Cmd_Print
  | Cmd_Run_Nu
  | Cmd_Bus_Pub
  | Cmd_Bus_Sub

fun info_of :: "command \<Rightarrow> command_info" where
  "info_of Cmd_Reverse_Proxy = reverse_proxy_command"
| "info_of Cmd_Static = static_command"
| "info_of Cmd_To_Sse = to_sse_command"
| "info_of Cmd_Mj = mj_command"
| "info_of Cmd_Mj_Compile = mj_compile_command"
| "info_of Cmd_Mj_Render = mj_render_command"
| "info_of Cmd_Highlight = highlight_command"
| "info_of Cmd_Highlight_Theme = highlight_theme_command"
| "info_of Cmd_Highlight_Lang = highlight_lang_command"
| "info_of Cmd_Md = md_command"
| "info_of Cmd_Print = print_command"
| "info_of Cmd_Run_Nu = run_nu_command"
| "info_of Cmd_Bus_Pub = bus_pub_command"
| "info_of Cmd_Bus_Sub = bus_sub_command"

text \<open>The commands in the order in which the engine registers them.\<close>

definition all_commands :: "command list" where
  "all_commands = [Cmd_Reverse_Proxy, Cmd_Static, Cmd_To_Sse, Cmd_Mj, Cmd_Mj_Compile, Cmd_Mj_Render, Cmd_Highlight,
    Cmd_Highlight_Theme, Cmd_Highlight_Lang, Cmd_Md, Cmd_Print, Cmd_Run_Nu, Cmd_Bus_Pub, Cmd_Bus_Sub]"

abbreviation signature_of :: "command \<Rightarrow> signature" where
  "signature_of cmd \<equiv> dc_signature (info_of cmd)"

abbreviation name_of :: "command \<Rightarrow> string" where
  "name_of cmd \<equiv> dc_name (info_of cmd)"

lemma all_commands_complete: "cmd \<in> set all_commands"
  by (cases cmd) (simp_all add: all_commands_def)

text \<open>nushell registers a declaration under its signature's name; the engine's list names the same commands.\<close>

lemma signature_name: "sg_name (signature_of cmd) = name_of cmd"
  by (cases cmd) (simp_all add: command_defs builder_defs)

lemma registered_commands:
  "add_custom_commands N eng = add_commands N
     (map (\<lambda>cmd. if cmd \<in> {Cmd_Bus_Pub, Cmd_Bus_Sub} then Bus_Command (name_of cmd) (eg_bus eng) else Plain_Command (name_of cmd))
       all_commands) eng"
  by (simp add: add_custom_commands_def all_commands_def command_defs)

section \<open>Help\<close>

text \<open>
  What four of the commands say beyond their descriptions: a longer text, the terms a search finds them
  by, and examples with their results. The others keep the defaults of nushell's \<open>Command\<close>, which
  are empty.
\<close>

record example =
  ex_description :: string
  ex_example :: string
  ex_result :: "nu_value option"

definition quoted :: "char \<Rightarrow> string \<Rightarrow> string" where
  "quoted q s = q # s @ [q]"

definition to_sse_terms :: "string list" where
  "to_sse_terms = [''sse'', ''server'', ''event'']"

definition to_sse_examples :: "example list" where
  "to_sse_examples =
     [\<lparr>ex_description = ''Convert a record into a server-sent event'',
       ex_example = ''{data: '' @ quoted (CHR 0x27) ''hello'' @ ''} | to sse'',
       ex_result = Some (VString (''data: hello'' @ [newline, newline]))\<rparr>]"

definition print_extra :: string where
  "print_extra = join_str [newline]
     [''This command outputs to http-nu'' @ CHR 0x27 # ''s logging system rather than stdout/stderr.'',
      ''Messages appear in both human-readable and JSONL output modes.'',
      '''',
      quoted (CHR 0x60) ''print'' @ '' may be used inside blocks of code (e.g.: hooks) to display text during execution without interfering with the pipeline.'']"

definition print_terms :: "string list" where
  "print_terms = [''display'']"

definition print_examples :: "example list" where
  "print_examples =
     [\<lparr>ex_description = ''Print '' @ quoted (CHR 0x27) ''hello world'', ex_example = ''print '' @ quoted (CHR 0x22) ''hello world'',
       ex_result = None\<rparr>,
      \<lparr>ex_description = ''Print the sum of 2 and 3'', ex_example = ''print (2 + 3)'', ex_result = None\<rparr>]"

definition run_nu_extra :: string where
  "run_nu_extra = join_str [newline]
     [''The submitted script is parsed and compiled against a clone of the current engine state.'',
      ''Any defs, lets, or modules introduced by the script live only for the duration of the call --'',
      ''they do not leak back into the calling engine. Pipeline input is forwarded to the script as '' @ quoted (CHR 0x60) ''$in'' @ '';'',
      ''the caller'' @ CHR 0x27 # ''s local bindings and environment are not visible inside the sandbox.'']"

definition bus_sub_extra :: string where
  "bus_sub_extra = join_str [newline]
     [''With no argument, yields every published event. With a glob pattern (e.g. '' @ quoted (CHR 0x22) ''tab-abc.*'' @ ''),'',
      ''yields only events whose topic matches. '' @ quoted (CHR 0x60) ''*'' @ '' matches any run of characters including dots.'']"

record command_help =
  hp_extra :: string
  hp_terms :: "string list"
  hp_examples :: "example list"

fun help_of :: "command \<Rightarrow> command_help" where
  "help_of Cmd_To_Sse = \<lparr>hp_extra = [], hp_terms = to_sse_terms, hp_examples = to_sse_examples\<rparr>"
| "help_of Cmd_Print = \<lparr>hp_extra = print_extra, hp_terms = print_terms, hp_examples = print_examples\<rparr>"
| "help_of Cmd_Run_Nu = \<lparr>hp_extra = run_nu_extra, hp_terms = [], hp_examples = []\<rparr>"
| "help_of Cmd_Bus_Sub = \<lparr>hp_extra = bus_sub_extra, hp_terms = [], hp_examples = []\<rparr>"
| "help_of cmd = \<lparr>hp_extra = [], hp_terms = [], hp_examples = []\<rparr>"

text \<open>
  The example of \<open>to sse\<close> is true of the code, under any rendering of values: the record it shows gives the
  text it shows.
\<close>

lemma to_sse_example_holds:
  "ex \<in> set (hp_examples (help_of Cmd_To_Sse)) \<Longrightarrow> ex_result ex = Some v \<Longrightarrow>
    to_sse C (PValue (VRecord [(''data'', VString ''hello'')]) None) = Ok (PValue v (update_metadata None))"
proof -
  have "str_lines ''hello'' = [''hello'']" by code_simp
  then show "ex \<in> set (hp_examples (help_of Cmd_To_Sse)) \<Longrightarrow> ex_result ex = Some v \<Longrightarrow>
    to_sse C (PValue (VRecord [(''data'', VString ''hello'')]) None) = Ok (PValue v (update_metadata None))"
    by (auto simp: to_sse_examples_def to_sse_def event_to_string_def data_lines_def field_line_def rec_get_def
        value_to_data_string_def emit_data_lines_def line_ending_def)
qed

text \<open>The meaning of a pattern that the help of \<open>.bus sub\<close> gives is that of the compiled one.\<close>

lemma bus_sub_help_holds:
  "glob_matches (glob_new ''tab-abc.*'') t \<longleftrightarrow> (\<exists>r. t = ''tab-abc.'' @ r)"
proof -
  have "glob_new ''tab-abc.*'' = [Literal ''tab-abc.'', Star]" by code_simp
  then show ?thesis by (auto simp: glob_matches_def strip_prefix_Some_iff split: option.split)
qed

section \<open>Reading a call\<close>

text \<open>
  nushell's \<open>Call\<close>: the value of a required or optional positional argument by its position, of a
  flag by its name, the values after a position, whether a switch is set, and \<open>String::from_value\<close>.
  \<open>call.req::<T>\<close> and its like read the value and convert it to \<open>T\<close>.
\<close>

record 'call call_lib =
  cl_req :: "'call \<Rightarrow> nat \<Rightarrow> shell_error + nu_value"
  cl_opt :: "'call \<Rightarrow> nat \<Rightarrow> shell_error + nu_value option"
  cl_flag :: "'call \<Rightarrow> string \<Rightarrow> shell_error + nu_value option"
  cl_rest :: "'call \<Rightarrow> nat \<Rightarrow> shell_error + nu_value list"
  cl_has_flag :: "'call \<Rightarrow> string \<Rightarrow> shell_error + bool"
  cl_string :: "nu_value \<Rightarrow> shell_error + string"

fun of_result :: "'e + 'a \<Rightarrow> ('e, 'a) outcome" where
  "of_result (Inl e) = Err e"
| "of_result (Inr x) = Ok x"

fun some_string :: "'call call_lib \<Rightarrow> nu_value option \<Rightarrow> (shell_error, string option) outcome" where
  "some_string L None = Ok None"
| "some_string L (Some v) = obind (of_result (cl_string L v)) (\<lambda>s. Ok (Some s))"

definition req_string :: "'call call_lib \<Rightarrow> 'call \<Rightarrow> nat \<Rightarrow> (shell_error, string) outcome" where
  "req_string L call i = obind (of_result (cl_req L call i)) (\<lambda>v. of_result (cl_string L v))"

definition opt_string :: "'call call_lib \<Rightarrow> 'call \<Rightarrow> nat \<Rightarrow> (shell_error, string option) outcome" where
  "opt_string L call i = obind (of_result (cl_opt L call i)) (some_string L)"

definition flag_string :: "'call call_lib \<Rightarrow> 'call \<Rightarrow> string \<Rightarrow> (shell_error, string option) outcome" where
  "flag_string L call n = obind (of_result (cl_flag L call n)) (some_string L)"

section \<open>The arguments of each command\<close>

definition static_args :: "'call call_lib \<Rightarrow> 'call \<Rightarrow> (shell_error, string \<times> string \<times> string option) outcome" where
  "static_args L call =
     obind (req_string L call 0) (\<lambda>root.
     obind (req_string L call 1) (\<lambda>path.
     obind (flag_string L call ''fallback'') (\<lambda>fallback. Ok (root, path, fallback))))"

text \<open>An argument \<open>config\<close> that cannot be read counts as none: \<open>if let Ok(Some(config_value)) = config\<close>.\<close>

definition reverse_proxy_args :: "'call call_lib \<Rightarrow> 'call \<Rightarrow> (shell_error, string \<times> nu_value option) outcome" where
  "reverse_proxy_args L call =
     obind (req_string L call 0) (\<lambda>target_url.
     Ok (target_url, case cl_opt L call 1 of Inr config \<Rightarrow> config | Inl e \<Rightarrow> None))"

definition mj_args :: "'call call_lib \<Rightarrow> 'call \<Rightarrow> (shell_error, string option \<times> string option \<times> string option) outcome" where
  "mj_args L call =
     obind (opt_string L call 0) (\<lambda>template_file.
     obind (flag_string L call ''inline'') (\<lambda>inline_arg.
     obind (flag_string L call ''topic'') (\<lambda>topic_arg. Ok (template_file, inline_arg, topic_arg))))"

definition mj_compile_args :: "'call call_lib \<Rightarrow> 'call \<Rightarrow>
    (shell_error, string option \<times> nu_value option \<times> string option) outcome" where
  "mj_compile_args L call =
     obind (opt_string L call 0) (\<lambda>template_file.
     obind (of_result (cl_flag L call ''inline'')) (\<lambda>inline_arg.
     obind (flag_string L call ''topic'') (\<lambda>topic_arg. Ok (template_file, inline_arg, topic_arg))))"

definition mj_render_args :: "'call call_lib \<Rightarrow> 'call \<Rightarrow> (shell_error, nu_value) outcome" where
  "mj_render_args L call = of_result (cl_req L call 0)"

definition highlight_args :: "'call call_lib \<Rightarrow> 'call \<Rightarrow> (shell_error, string) outcome" where
  "highlight_args L call = req_string L call 0"

definition highlight_theme_args :: "'call call_lib \<Rightarrow> 'call \<Rightarrow> (shell_error, string option) outcome" where
  "highlight_theme_args L call = opt_string L call 0"

definition print_args :: "'call call_lib \<Rightarrow> 'call \<Rightarrow> (shell_error, nu_value list \<times> bool) outcome" where
  "print_args L call =
     obind (of_result (cl_rest L call 0)) (\<lambda>args.
     obind (of_result (cl_has_flag L call ''no-newline'')) (\<lambda>no_newline. Ok (args, no_newline)))"

definition run_nu_args :: "'call call_lib \<Rightarrow> 'call \<Rightarrow> (shell_error, string) outcome" where
  "run_nu_args L call = req_string L call 0"

definition bus_pub_args :: "'call call_lib \<Rightarrow> 'call \<Rightarrow> (shell_error, string) outcome" where
  "bus_pub_args L call = req_string L call 0"

definition bus_sub_args :: "'call call_lib \<Rightarrow> 'call \<Rightarrow> (shell_error, string option) outcome" where
  "bus_sub_args L call = opt_string L call 0"

lemmas args_defs = static_args_def reverse_proxy_args_def mj_args_def mj_compile_args_def mj_render_args_def
  highlight_args_def highlight_theme_args_def print_args_def run_nu_args_def bus_pub_args_def bus_sub_args_def

section \<open>Running a command\<close>

text \<open>
  What the commands share: the response slot of the evaluating thread, the process's template cache,
  the engine's bus and the log's sender (\<open>SENDER\<close>).
\<close>

record ('env, 'c, 'l) cmd_state =
  cs_slot :: response_slot
  cs_cache :: "'env tmpl_cache"
  cs_bus :: 'c
  cs_log :: "'l option"

text \<open>
  A command returns pipeline data; \<open>.bus sub\<close> returns a stream that goes on receiving
  (\<open>sub_forward\<close> and \<open>bus_sub_next\<close> say what it yields), here the receiver and its pattern.
\<close>

datatype cmd_output = Data pipeline_data | Subscription nat "glob_part list option"

text \<open>
  What a command finds around it. \<open>ce_nested\<close> is what the script of a \<open>.run\<close> does to the shared
  state when it is evaluated.
\<close>

record ('call, 'env, 'tmpl, 's, 't, 'st, 'b, 'd, 'k, 'c, 'l) cmd_env =
  ce_call :: "'call call_lib"
  ce_show_f64 :: "f64 \<Rightarrow> string"
  ce_json_str :: "json \<Rightarrow> string option"
  ce_sse :: sse_config
  ce_minijinja :: "('env, 'tmpl) minijinja"
  ce_hasher :: hasher
  ce_tmpl :: tmpl_services
  ce_input :: nu_input
  ce_markdown :: "'s markdown"
  ce_themes :: "'t theme_assets"
  ce_nushell :: "('st, 'b, 'd, 'k) nushell"
  ce_engine :: 'st
  ce_bus :: "(bus_event, 'c) broadcast_lib"
  ce_log :: "(log_event, 'l) broadcast_lib"
  ce_nested :: "string \<Rightarrow> pipeline_data \<Rightarrow> ('env, 'c, 'l) cmd_state \<Rightarrow> ('env, 'c, 'l) cmd_state"

definition as_data :: "(shell_error, pipeline_data) outcome \<Rightarrow> (shell_error, cmd_output) outcome" where
  "as_data res = obind res (\<lambda>out. Ok (Data out))"

text \<open>A failed read of an argument ends the command: \<open>call.req(..)?\<close>.\<close>

fun with_args :: "(shell_error, 'a) outcome \<Rightarrow> ('a \<Rightarrow> 'st \<Rightarrow> (shell_error, 'o) outcome \<times> 'st) \<Rightarrow> 'st \<Rightarrow>
    (shell_error, 'o) outcome \<times> 'st" where
  "with_args (Ok a) k st = k a st"
| "with_args (Err e) k st = (Err e, st)"
| "with_args (Panic m) k st = (Panic m, st)"

type_synonym ('call, 'env, 'tmpl, 's, 't, 'st, 'b, 'd, 'k, 'c, 'l) cmd_run =
  "('call, 'env, 'tmpl, 's, 't, 'st, 'b, 'd, 'k, 'c, 'l) cmd_env \<Rightarrow> 'call \<Rightarrow> pipeline_data \<Rightarrow>
     ('env, 'c, 'l) cmd_state \<Rightarrow> (shell_error, cmd_output) outcome \<times> ('env, 'c, 'l) cmd_state"

definition static_cmd :: "('call, 'env, 'tmpl, 's, 't, 'st, 'b, 'd, 'k, 'c, 'l) cmd_run" where
  "static_cmd E call input =
     with_args (static_args (ce_call E) call) (\<lambda>(root, path, fallback) st.
       case static_run root path fallback (cs_slot st) of (res, s) \<Rightarrow> (as_data res, st\<lparr>cs_slot := s\<rparr>))"

definition reverse_proxy_cmd :: "('call, 'env, 'tmpl, 's, 't, 'st, 'b, 'd, 'k, 'c, 'l) cmd_run" where
  "reverse_proxy_cmd E call input =
     with_args (reverse_proxy_args (ce_call E) call) (\<lambda>(target_url, config) st.
       case reverse_proxy_run (ce_show_f64 E) (ce_json_str E) target_url config input (cs_slot st) of
         (res, s) \<Rightarrow> (as_data res, st\<lparr>cs_slot := s\<rparr>))"

definition to_sse_cmd :: "('call, 'env, 'tmpl, 's, 't, 'st, 'b, 'd, 'k, 'c, 'l) cmd_run" where
  "to_sse_cmd E call input st = (as_data (to_sse (ce_sse E) input), st)"

definition mj_cmd :: "('call, 'env, 'tmpl, 's, 't, 'st, 'b, 'd, 'k, 'c, 'l) cmd_run" where
  "mj_cmd E call input =
     with_args (mj_args (ce_call E) call) (\<lambda>(template_file, inline_arg, topic_arg) st.
       (as_data (mj_run (ce_minijinja E) (ce_tmpl E) (ce_sse E) template_file inline_arg topic_arg input), st))"

definition mj_compile_cmd :: "('call, 'env, 'tmpl, 's, 't, 'st, 'b, 'd, 'k, 'c, 'l) cmd_run" where
  "mj_compile_cmd E call input =
     with_args (mj_compile_args (ce_call E) call) (\<lambda>(template_file, inline_arg, topic_arg) st.
       case mj_compile_run (ce_minijinja E) (ce_hasher E) (ce_tmpl E) template_file inline_arg topic_arg (cs_cache st) of
         (res, cache) \<Rightarrow> (as_data res, st\<lparr>cs_cache := cache\<rparr>))"

definition mj_render_cmd :: "('call, 'env, 'tmpl, 's, 't, 'st, 'b, 'd, 'k, 'c, 'l) cmd_run" where
  "mj_render_cmd E call input =
     with_args (mj_render_args (ce_call E) call) (\<lambda>template_val st.
       (as_data (mj_render_run (ce_minijinja E) (ce_sse E) template_val input (cs_cache st)), st))"

definition highlight_cmd :: "('call, 'env, 'tmpl, 's, 't, 'st, 'b, 'd, 'k, 'c, 'l) cmd_run" where
  "highlight_cmd E call input =
     with_args (highlight_args (ce_call E) call) (\<lambda>lang st.
       (as_data (highlight_run (mk_syntax (ce_markdown E)) (ce_input E) lang input), st))"

definition highlight_theme_cmd :: "('call, 'env, 'tmpl, 's, 't, 'st, 'b, 'd, 'k, 'c, 'l) cmd_run" where
  "highlight_theme_cmd E call input =
     with_args (highlight_theme_args (ce_call E) call) (\<lambda>theme st.
       (as_data (highlight_theme_run (ce_themes E) theme), st))"

definition highlight_lang_cmd :: "('call, 'env, 'tmpl, 's, 't, 'st, 'b, 'd, 'k, 'c, 'l) cmd_run" where
  "highlight_lang_cmd E call input st = (as_data (highlight_lang_run (mk_syntax (ce_markdown E))), st)"

definition md_cmd :: "('call, 'env, 'tmpl, 's, 't, 'st, 'b, 'd, 'k, 'c, 'l) cmd_run" where
  "md_cmd E call input st = (as_data (md_run (ce_markdown E) (ce_input E) input), st)"

text \<open>\<open>log_print\<close> emits one event for the message, if there is one.\<close>

definition print_cmd :: "('call, 'env, 'tmpl, 's, 't, 'st, 'b, 'd, 'k, 'c, 'l) cmd_run" where
  "print_cmd E call input =
     with_args (print_args (ce_call E) call) (\<lambda>(args, no_newline) st.
       case print_run (ce_nushell E) args no_newline input of
         (res, message) \<Rightarrow>
           (as_data res,
            case message of
              Some m \<Rightarrow> st\<lparr>cs_log := fold (emit (ce_log E)) (log_print_event m) (cs_log st)\<rparr>
            | None \<Rightarrow> st))"

text \<open>A script that does not parse or compile, or whose delta cannot be merged, is not evaluated.\<close>

definition run_nu_evaluates :: "('st, 'b, 'd, 'k) nushell \<Rightarrow> string \<Rightarrow> 'st \<Rightarrow> bool" where
  "run_nu_evaluates N script st =
     (case ns_parse N st (Some ''<.run>'') script of
        (block, parse_errors, compile_errors, delta) \<Rightarrow>
          parse_errors = [] \<and> compile_errors = [] \<and> (case ns_merge_delta N delta st of Ok s \<Rightarrow> True | _ \<Rightarrow> False))"

definition run_nu_cmd :: "('call, 'env, 'tmpl, 's, 't, 'st, 'b, 'd, 'k, 'c, 'l) cmd_run" where
  "run_nu_cmd E call input =
     with_args (run_nu_args (ce_call E) call) (\<lambda>script st.
       (as_data (run_nu_run (ce_nushell E) script input (ce_engine E)),
        if run_nu_evaluates (ce_nushell E) script (ce_engine E) then ce_nested E script input st else st))"

definition bus_pub_cmd :: "('call, 'env, 'tmpl, 's, 't, 'st, 'b, 'd, 'k, 'c, 'l) cmd_run" where
  "bus_pub_cmd E call input =
     with_args (bus_pub_args (ce_call E) call) (\<lambda>name st.
       with_args (bus_pub (ni_into_value (ce_input E)) name input) (\<lambda>ev s.
         (Ok (Data PEmpty), s\<lparr>cs_bus := bus_publish (ce_bus E) (topic ev) (bus_value ev) (cs_bus s)\<rparr>)) st)"

definition bus_sub_cmd :: "('call, 'env, 'tmpl, 's, 't, 'st, 'b, 'd, 'k, 'c, 'l) cmd_run" where
  "bus_sub_cmd E call input =
     with_args (bus_sub_args (ce_call E) call) (\<lambda>pattern st.
       case bus_subscribe (ce_bus E) pattern (cs_bus st) of
         ((r, m), c) \<Rightarrow> (Ok (Subscription r m), st\<lparr>cs_bus := c\<rparr>))"

fun run_command :: "command \<Rightarrow> ('call, 'env, 'tmpl, 's, 't, 'st, 'b, 'd, 'k, 'c, 'l) cmd_run" where
  "run_command Cmd_Reverse_Proxy = reverse_proxy_cmd"
| "run_command Cmd_Static = static_cmd"
| "run_command Cmd_To_Sse = to_sse_cmd"
| "run_command Cmd_Mj = mj_cmd"
| "run_command Cmd_Mj_Compile = mj_compile_cmd"
| "run_command Cmd_Mj_Render = mj_render_cmd"
| "run_command Cmd_Highlight = highlight_cmd"
| "run_command Cmd_Highlight_Theme = highlight_theme_cmd"
| "run_command Cmd_Highlight_Lang = highlight_lang_cmd"
| "run_command Cmd_Md = md_cmd"
| "run_command Cmd_Print = print_cmd"
| "run_command Cmd_Run_Nu = run_nu_cmd"
| "run_command Cmd_Bus_Pub = bus_pub_cmd"
| "run_command Cmd_Bus_Sub = bus_sub_cmd"

lemmas cmd_defs = static_cmd_def reverse_proxy_cmd_def to_sse_cmd_def mj_cmd_def mj_compile_cmd_def mj_render_cmd_def
  highlight_cmd_def highlight_theme_cmd_def highlight_lang_cmd_def md_cmd_def print_cmd_def run_nu_cmd_def
  bus_pub_cmd_def bus_sub_cmd_def

section \<open>What nushell promises of a call\<close>

fun has_shape :: "syntax_shape \<Rightarrow> nu_value \<Rightarrow> bool" where
  "has_shape Shape_String v = (as_str v \<noteq> None)"
| "has_shape Shape_Any v = True"
| "has_shape Shape_Record v = (as_record v \<noteq> None)"

definition opt_has_shape :: "syntax_shape \<Rightarrow> nu_value option \<Rightarrow> bool" where
  "opt_has_shape sh vo = (case vo of None \<Rightarrow> True | Some v \<Rightarrow> has_shape sh v)"

text \<open>
  A call that matches a signature gives the signature's arguments in the declared shapes; and a
  string converts to itself. Nothing is promised of positions or flags that are not declared.
\<close>

locale command_calls =
  fixes L :: "'call call_lib"
    and accepts :: "signature \<Rightarrow> 'call \<Rightarrow> bool"
  assumes required_given: "accepts s call \<Longrightarrow> i < length (sg_required s) \<Longrightarrow>
      \<exists>v. cl_req L call i = Inr v \<and> has_shape (pos_shape (sg_required s ! i)) v"
    and optional_given: "accepts s call \<Longrightarrow> i < length (sg_optional s) \<Longrightarrow>
      \<exists>vo. cl_opt L call (length (sg_required s) + i) = Inr vo \<and> opt_has_shape (pos_shape (sg_optional s ! i)) vo"
    and flag_given: "accepts s call \<Longrightarrow> f \<in> set (sg_flags s) \<Longrightarrow> fl_shape f = Some sh \<Longrightarrow>
      \<exists>vo. cl_flag L call (fl_name f) = Inr vo \<and> opt_has_shape sh vo"
    and switch_given: "accepts s call \<Longrightarrow> f \<in> set (sg_flags s) \<Longrightarrow> fl_shape f = None \<Longrightarrow>
      \<exists>b. cl_has_flag L call (fl_name f) = Inr b"
    and rest_given: "accepts s call \<Longrightarrow> sg_rest s = Some p \<Longrightarrow>
      \<exists>vs. cl_rest L call (length (sg_required s) + length (sg_optional s)) = Inr vs \<and> list_all (has_shape (pos_shape p)) vs"
    and string_converts: "cl_string L (VString x) = Inr x"
begin

lemma some_string_ok: "opt_has_shape Shape_String vo \<Longrightarrow> \<exists>x. some_string L vo = Ok x"
  by (cases vo) (auto simp: opt_has_shape_def string_converts)

lemma req_string_ok:
  assumes "accepts s call" "i < length (sg_required s)" "pos_shape (sg_required s ! i) = Shape_String"
  shows "\<exists>x. req_string L call i = Ok x"
  using required_given [OF assms(1,2)] assms(3) by (auto simp: req_string_def string_converts)

lemma opt_string_ok:
  assumes "accepts s call" "i < length (sg_optional s)" "pos_shape (sg_optional s ! i) = Shape_String"
    and "p = length (sg_required s) + i"
  shows "\<exists>x. opt_string L call p = Ok x"
  using optional_given [OF assms(1,2)] some_string_ok assms(3,4) by (auto simp: opt_string_def)

lemma flag_string_ok:
  assumes "accepts s call" "\<exists>f\<in>set (sg_flags s). fl_name f = n \<and> fl_shape f = Some Shape_String"
  shows "\<exists>x. flag_string L call n = Ok x"
  using flag_given [OF assms(1)] some_string_ok assms(2) by (fastforce simp: flag_string_def)

lemma flag_value_ok:
  assumes "accepts s call" "\<exists>f\<in>set (sg_flags s). fl_name f = n \<and> fl_shape f = Some sh"
  shows "\<exists>x. cl_flag L call n = Inr x"
  using flag_given [OF assms(1)] assms(2) by blast

lemma switch_ok:
  assumes "accepts s call" "\<exists>f\<in>set (sg_flags s). fl_name f = n \<and> fl_shape f = None"
  shows "\<exists>b. cl_has_flag L call n = Inr b"
  using switch_given [OF assms(1)] assms(2) by blast

end

text \<open>
  Calls as nushell's parser leaves them, positional values in order and flags by name: they keep the
  promises.
\<close>

record plain_call =
  pc_pos :: "nu_value list"
  pc_flags :: "(string \<times> nu_value option) list"

definition plain_lib :: "plain_call call_lib" where
  "plain_lib = \<lparr>
     cl_req = (\<lambda>c i. if i < length (pc_pos c) then Inr (pc_pos c ! i) else Inl (OtherShellError ''missing argument'')),
     cl_opt = (\<lambda>c i. Inr (if i < length (pc_pos c) then Some (pc_pos c ! i) else None)),
     cl_flag = (\<lambda>c n. Inr (Option.bind (map_of (pc_flags c) n) id)),
     cl_rest = (\<lambda>c i. Inr (drop i (pc_pos c))),
     cl_has_flag = (\<lambda>c n. Inr (map_of (pc_flags c) n \<noteq> None)),
     cl_string = (\<lambda>v. case as_str v of Some s \<Rightarrow> Inr s | None \<Rightarrow> Inl (TypeMismatch ''expected string''))\<rparr>"

definition plain_accepts :: "signature \<Rightarrow> plain_call \<Rightarrow> bool" where
  "plain_accepts s c \<longleftrightarrow>
     length (sg_required s) \<le> length (pc_pos c) \<and>
     (\<forall>i<length (sg_required s). has_shape (pos_shape (sg_required s ! i)) (pc_pos c ! i)) \<and>
     (\<forall>i<length (sg_optional s). length (sg_required s) + i < length (pc_pos c) \<longrightarrow>
        has_shape (pos_shape (sg_optional s ! i)) (pc_pos c ! (length (sg_required s) + i))) \<and>
     (case sg_rest s of
        Some p \<Rightarrow> list_all (has_shape (pos_shape p)) (drop (length (sg_required s) + length (sg_optional s)) (pc_pos c))
      | None \<Rightarrow> length (pc_pos c) \<le> length (sg_required s) + length (sg_optional s)) \<and>
     (\<forall>(n, vo)\<in>set (pc_flags c). \<exists>f\<in>set (sg_flags s). fl_name f = n) \<and>
     (\<forall>f\<in>set (sg_flags s). \<forall>sh. fl_shape f = Some sh \<longrightarrow>
        opt_has_shape sh (Option.bind (map_of (pc_flags c) (fl_name f)) id))"

interpretation plain: command_calls plain_lib plain_accepts
proof unfold_locales
  fix s :: signature and c and p :: positional
  assume "plain_accepts s c" "sg_rest s = Some p"
  then show "\<exists>vs. cl_rest plain_lib c (length (sg_required s) + length (sg_optional s)) = Inr vs \<and>
      list_all (has_shape (pos_shape p)) vs"
    by (simp add: plain_accepts_def plain_lib_def)
qed (auto simp: plain_accepts_def plain_lib_def opt_has_shape_def)

section \<open>Typing\<close>

fun is_ok :: "('e, 'a) outcome \<Rightarrow> bool" where
  "is_ok (Ok x) = True"
| "is_ok (Err e) = False"
| "is_ok (Panic m) = False"

lemma is_ok_iff: "is_ok m \<longleftrightarrow> (\<exists>x. m = Ok x)"
  by (cases m) auto

text \<open>Whether a command's \<open>run\<close> gets its arguments from a call.\<close>

fun args_readable :: "'call call_lib \<Rightarrow> command \<Rightarrow> 'call \<Rightarrow> bool" where
  "args_readable L Cmd_Reverse_Proxy call = (is_ok (reverse_proxy_args L call) \<and> (\<exists>vo. cl_opt L call 1 = Inr vo))"
| "args_readable L Cmd_Static call = is_ok (static_args L call)"
| "args_readable L Cmd_To_Sse call = True"
| "args_readable L Cmd_Mj call = is_ok (mj_args L call)"
| "args_readable L Cmd_Mj_Compile call = is_ok (mj_compile_args L call)"
| "args_readable L Cmd_Mj_Render call = is_ok (mj_render_args L call)"
| "args_readable L Cmd_Highlight call = is_ok (highlight_args L call)"
| "args_readable L Cmd_Highlight_Theme call = is_ok (highlight_theme_args L call)"
| "args_readable L Cmd_Highlight_Lang call = True"
| "args_readable L Cmd_Md call = True"
| "args_readable L Cmd_Print call = is_ok (print_args L call)"
| "args_readable L Cmd_Run_Nu call = is_ok (run_nu_args L call)"
| "args_readable L Cmd_Bus_Pub call = is_ok (bus_pub_args L call)"
| "args_readable L Cmd_Bus_Sub call = is_ok (bus_sub_args L call)"

text \<open>
  nushell's types of values and of what a command returns. The only byte streams the commands make
  are those of \<open>to sse\<close>, declared \<open>ByteStreamType::String\<close>. The type of a compiled template is named
  by \<open>CompiledTemplate::type_name\<close>.
\<close>

fun custom_type_name :: "custom_value \<Rightarrow> string" where
  "custom_type_name (CompiledTemplate h) = ''CompiledTemplate''"
| "custom_type_name (OtherCustom n) = n"

fun has_type :: "nu_type \<Rightarrow> nu_value \<Rightarrow> bool" where
  "has_type Type_Any v = True"
| "has_type Type_Nothing v = (v = VNothing)"
| "has_type Type_String v = (as_str v \<noteq> None)"
| "has_type Type_Record v = (as_record v \<noteq> None)"
| "has_type (Type_List t) v = (case v of VList vs \<Rightarrow> list_all (has_type t) vs | _ \<Rightarrow> False)"
| "has_type (Type_Custom n) v = (case v of VCustom c \<Rightarrow> custom_type_name c = n | _ \<Rightarrow> False)"

fun out_has_type :: "nu_type \<Rightarrow> cmd_output \<Rightarrow> bool" where
  "out_has_type Type_Any out = True"
| "out_has_type t (Data PEmpty) = (t = Type_Nothing)"
| "out_has_type t (Data (PValue v md)) = has_type t v"
| "out_has_type t (Data (PByteStream s md)) = (t = Type_String)"
| "out_has_type t (Data (PListStream vs md)) = has_type t (VList vs)"
| "out_has_type t (Subscription r m) = False"

definition declared_output :: "signature \<Rightarrow> cmd_output \<Rightarrow> bool" where
  "declared_output s out = list_ex (\<lambda>(i, o'). out_has_type o' out) (sg_io s)"

context command_calls
begin

lemma accepted_args_readable:
  assumes "accepts (signature_of cmd) call"
  shows "args_readable L cmd call"
proof (cases cmd)
  case Cmd_Reverse_Proxy
  then show ?thesis using req_string_ok [OF assms, of 0] optional_given [OF assms, of 0]
    by (auto simp: args_defs is_ok_iff reverse_proxy_command_def builder_defs)
next
  case Cmd_Static
  then show ?thesis
    using req_string_ok [OF assms, of 0] req_string_ok [OF assms, of 1] flag_string_ok [OF assms, of "''fallback''"]
    by (auto simp: args_defs is_ok_iff static_command_def builder_defs)
next
  case Cmd_Mj
  then show ?thesis
    using opt_string_ok [OF assms, of 0 0] flag_string_ok [OF assms, of "''inline''"] flag_string_ok [OF assms, of "''topic''"]
    by (auto simp: args_defs is_ok_iff mj_command_def builder_defs)
next
  case Cmd_Mj_Compile
  then show ?thesis
    using opt_string_ok [OF assms, of 0 0] flag_value_ok [OF assms, of "''inline''" Shape_Any]
      flag_string_ok [OF assms, of "''topic''"]
    by (auto simp: args_defs is_ok_iff mj_compile_command_def builder_defs)
next
  case Cmd_Mj_Render
  then show ?thesis using required_given [OF assms, of 0]
    by (auto simp: args_defs is_ok_iff mj_render_command_def builder_defs)
next
  case Cmd_Highlight
  then show ?thesis using req_string_ok [OF assms, of 0]
    by (auto simp: args_defs is_ok_iff highlight_command_def builder_defs)
next
  case Cmd_Highlight_Theme
  then show ?thesis using opt_string_ok [OF assms, of 0 0]
    by (auto simp: args_defs is_ok_iff highlight_theme_command_def builder_defs)
next
  case Cmd_Print
  then show ?thesis using rest_given [OF assms] switch_ok [OF assms, of "''no-newline''"]
    by (auto simp: args_defs is_ok_iff print_command_def builder_defs)
next
  case Cmd_Run_Nu
  then show ?thesis using req_string_ok [OF assms, of 0]
    by (auto simp: args_defs is_ok_iff run_nu_command_def builder_defs)
next
  case Cmd_Bus_Pub
  then show ?thesis using req_string_ok [OF assms, of 0]
    by (auto simp: args_defs is_ok_iff bus_pub_command_def builder_defs)
next
  case Cmd_Bus_Sub
  then show ?thesis using opt_string_ok [OF assms, of 0 0]
    by (auto simp: args_defs is_ok_iff bus_sub_command_def builder_defs)
qed simp_all

end

lemma with_args_Ok: "with_args m k st = (Ok out, st') \<longleftrightarrow> (\<exists>a. m = Ok a \<and> k a st = (Ok out, st'))"
  by (cases m) auto

lemma as_data_Ok [outcome_simps]: "as_data res = Ok out \<longleftrightarrow> (\<exists>d. res = Ok d \<and> out = Data d)"
  by (auto simp: as_data_def outcome_simps)

lemma static_run_output: "fst (static_run r p f s) = Ok d \<Longrightarrow> d = PEmpty"
  by (auto simp: static_run_def outcome_simps case_prod_beta)

lemma reverse_proxy_run_output: "fst (reverse_proxy_run sf js url config input s) = Ok d \<Longrightarrow> d = PEmpty"
  by (auto simp: reverse_proxy_run_def outcome_simps case_prod_beta split: outcome.splits)

lemma to_sse_output: "to_sse C input = Ok d \<Longrightarrow> out_has_type Type_String (Data d)"
  by (auto simp: to_sse_def outcome_simps split: pipeline_data.splits nu_value.splits)

lemma mj_run_output: "mj_run M T C f i t input = Ok d \<Longrightarrow> out_has_type Type_String (Data d)"
  by (auto simp: mj_run_def outcome_simps)

lemma mj_compile_run_output:
  "fst (mj_compile_run M H T f i t cache) = Ok d \<Longrightarrow> out_has_type (Type_Custom ''CompiledTemplate'') (Data d)"
  by (auto simp: mj_compile_run_def outcome_simps case_prod_beta split: outcome.splits)

lemma mj_render_run_output: "mj_render_run M C v input cache = Ok d \<Longrightarrow> out_has_type Type_String (Data d)"
  by (auto simp: mj_render_run_def outcome_simps split: nu_value.splits custom_value.splits)

lemma highlight_run_output: "highlight_run S N lang input = Ok d \<Longrightarrow> out_has_type Type_Record (Data d)"
  by (auto simp: highlight_run_def html_record_def outcome_simps)

lemma highlight_theme_run_output:
  "highlight_theme_run T theme = Ok d \<Longrightarrow> out_has_type (Type_List Type_String) (Data d) \<or> out_has_type Type_String (Data d)"
  by (auto simp: highlight_theme_run_def list_all_iff split: option.splits sum.splits)

lemma highlight_lang_run_output: "highlight_lang_run S = Ok d \<Longrightarrow> out_has_type (Type_List Type_Record) (Data d)"
  by (auto simp: highlight_lang_run_def list_all_iff)

lemma md_run_output: "md_run K N input = Ok d \<Longrightarrow> out_has_type Type_Record (Data d)"
  by (auto simp: md_run_def html_record_def outcome_simps)

lemma print_run_output: "fst (print_run N args no_newline input) = Ok d \<Longrightarrow> d = PEmpty"
  by (auto simp: print_run_def split: if_splits outcome.splits)

lemmas run_outputs = static_run_output reverse_proxy_run_output to_sse_output mj_run_output mj_compile_run_output
  mj_render_run_output highlight_run_output highlight_theme_run_output highlight_lang_run_output md_run_output
  print_run_output

lemma run_command_output:
  assumes "run_command cmd E call input st = (Ok out, st')"
  shows "declared_output (signature_of cmd) out"
  using assms
  by (cases cmd)
    (auto simp: cmd_defs with_args_Ok outcome_simps declared_output_def command_defs builder_defs
      case_prod_beta dest!: run_outputs)

section \<open>Effects\<close>

text \<open>The part of the shared state a command may change.\<close>

datatype part = Slot_Part | Cache_Part | Bus_Part | Log_Part

fun touches :: "command \<Rightarrow> part option" where
  "touches Cmd_Static = Some Slot_Part"
| "touches Cmd_Reverse_Proxy = Some Slot_Part"
| "touches Cmd_Mj_Compile = Some Cache_Part"
| "touches Cmd_Bus_Pub = Some Bus_Part"
| "touches Cmd_Bus_Sub = Some Bus_Part"
| "touches Cmd_Print = Some Log_Part"
| "touches cmd = None"

text \<open>
  The calls of a script in their order, each with what it finds around it. The calls that the script
  of a \<open>.run\<close> makes are calls of their own.
\<close>

type_synonym ('call, 'env, 'tmpl, 's, 't, 'st, 'b, 'd, 'k, 'c, 'l) cmd_call =
  "('call, 'env, 'tmpl, 's, 't, 'st, 'b, 'd, 'k, 'c, 'l) cmd_env \<times> command \<times> 'call \<times> pipeline_data"

fun run_calls :: "('call, 'env, 'tmpl, 's, 't, 'st, 'b, 'd, 'k, 'c, 'l) cmd_call list \<Rightarrow>
    ('env, 'c, 'l) cmd_state \<Rightarrow> ('env, 'c, 'l) cmd_state" where
  "run_calls [] st = st"
| "run_calls ((E, cmd, call, input) # calls) st = run_calls calls (snd (run_command cmd E call input st))"

definition call_command :: "('call, 'env, 'tmpl, 's, 't, 'st, 'b, 'd, 'k, 'c, 'l) cmd_call \<Rightarrow> command" where
  "call_command c = fst (snd c)"

lemma call_command_simp [simp]: "call_command (E, cmd, call, input) = cmd"
  by (simp add: call_command_def)

lemma snd_with_args: "snd (with_args m k st) = (case m of Ok a \<Rightarrow> snd (k a st) | _ \<Rightarrow> st)"
  by (cases m) auto

lemma slot_step:
  assumes "cmd \<noteq> Cmd_Run_Nu"
  shows "touches cmd \<noteq> Some Slot_Part \<Longrightarrow> cs_slot (snd (run_command cmd E call input st)) = cs_slot st"
    and "cs_slot st = cs_slot st' \<Longrightarrow>
      cs_slot (snd (run_command cmd E call input st)) = cs_slot (snd (run_command cmd E call input st'))"
  using assms
  by (cases cmd; auto simp: cmd_defs snd_with_args case_prod_beta split: outcome.split option.split)+

lemma cache_step:
  assumes "cmd \<noteq> Cmd_Run_Nu"
  shows "touches cmd \<noteq> Some Cache_Part \<Longrightarrow> cs_cache (snd (run_command cmd E call input st)) = cs_cache st"
    and "cs_cache st = cs_cache st' \<Longrightarrow>
      cs_cache (snd (run_command cmd E call input st)) = cs_cache (snd (run_command cmd E call input st'))"
  using assms
  by (cases cmd; auto simp: cmd_defs snd_with_args case_prod_beta split: outcome.split option.split)+

lemma bus_step:
  assumes "cmd \<noteq> Cmd_Run_Nu"
  shows "touches cmd \<noteq> Some Bus_Part \<Longrightarrow> cs_bus (snd (run_command cmd E call input st)) = cs_bus st"
    and "cs_bus st = cs_bus st' \<Longrightarrow>
      cs_bus (snd (run_command cmd E call input st)) = cs_bus (snd (run_command cmd E call input st'))"
  using assms
  by (cases cmd; auto simp: cmd_defs snd_with_args case_prod_beta split: outcome.split option.split)+

lemma log_step:
  assumes "cmd \<noteq> Cmd_Run_Nu"
  shows "touches cmd \<noteq> Some Log_Part \<Longrightarrow> cs_log (snd (run_command cmd E call input st)) = cs_log st"
    and "cs_log st = cs_log st' \<Longrightarrow>
      cs_log (snd (run_command cmd E call input st)) = cs_log (snd (run_command cmd E call input st'))"
  using assms
  by (cases cmd; auto simp: cmd_defs snd_with_args case_prod_beta split: outcome.split option.split)+

lemma run_calls_part:
  fixes calls :: "('call, 'env, 'tmpl, 's, 't, 'st, 'b, 'd, 'k, 'c, 'l) cmd_call list"
  assumes own: "\<And>(E :: ('call, 'env, 'tmpl, 's, 't, 'st, 'b, 'd, 'k, 'c, 'l) cmd_env) cmd call input s. cmd \<noteq> Cmd_Run_Nu \<Longrightarrow> touches cmd \<noteq> Some p \<Longrightarrow>
      P (snd (run_command cmd E call input s)) = P s"
    and agree: "\<And>(E :: ('call, 'env, 'tmpl, 's, 't, 'st, 'b, 'd, 'k, 'c, 'l) cmd_env) cmd call input s s'. cmd \<noteq> Cmd_Run_Nu \<Longrightarrow> P s = P s' \<Longrightarrow>
      P (snd (run_command cmd E call input s)) = P (snd (run_command cmd E call input s'))"
    and calls: "Cmd_Run_Nu \<notin> call_command ` set calls" "P s = P s'"
  shows "P (run_calls calls s) = P (run_calls (filter (\<lambda>c. touches (call_command c) = Some p) calls) s')"
  using calls
proof (induction calls arbitrary: s s')
  case Nil
  then show ?case by simp
next
  case (Cons c calls)
  obtain E cmd call input where c: "c = (E, cmd, call, input)" by (cases c)
  have cmd: "cmd \<noteq> Cmd_Run_Nu" and rest: "Cmd_Run_Nu \<notin> call_command ` set calls"
    using Cons.prems(1) by (auto simp: c)
  show ?case
  proof (cases "touches cmd = Some p")
    case True
    then show ?thesis using Cons.IH [OF rest agree [OF cmd Cons.prems(2)]] by (simp add: c)
  next
    case False
    have "P (snd (run_command cmd E call input s)) = P s'" using own [OF cmd False] Cons.prems(2) by simp
    then show ?thesis using Cons.IH [OF rest] False by (simp add: c)
  qed
qed

section \<open>Responses\<close>

text \<open>The response a call sends if the slot still holds the sender.\<close>

definition call_response :: "('call, 'env, 'tmpl, 's, 't, 'st, 'b, 'd, 'k, 'c, 'l) cmd_call \<Rightarrow> response option" where
  "call_response c =
     (case c of (E, cmd, call, input) \<Rightarrow>
        if cmd = Cmd_Static then
          (case static_args (ce_call E) call of
             Ok (root_dir, req_path, fallback) \<Rightarrow> Some (static_response root_dir req_path fallback)
           | _ \<Rightarrow> None)
        else if cmd = Cmd_Reverse_Proxy then
          (case reverse_proxy_args (ce_call E) call of
             Ok (target_url, config) \<Rightarrow>
               (case proxy_body (ce_show_f64 E) (ce_json_str E) input of
                  Ok request_body \<Rightarrow> Some (proxy_response target_url request_body (parse_proxy_config config))
                | _ \<Rightarrow> None)
           | _ \<Rightarrow> None)
        else None)"

lemma slot_response:
  assumes "cmd \<noteq> Cmd_Run_Nu"
  shows "cs_slot (snd (run_command cmd E call input st)) =
    (case call_response (E, cmd, call, input) of Some r \<Rightarrow> snd (send_response r (cs_slot st)) | None \<Rightarrow> cs_slot st)"
  using assms slot_step(1) [OF assms, of E call input st]
  by (cases cmd)
    (auto simp: call_response_def static_cmd_def reverse_proxy_cmd_def snd_with_args static_run_def reverse_proxy_run_def
      case_prod_beta split: outcome.split)

lemma run_calls_slot:
  "Cmd_Run_Nu \<notin> call_command ` set calls \<Longrightarrow>
   cs_slot (run_calls calls st) = send_all (List.map_filter call_response calls) (cs_slot st)"
proof (induction calls arbitrary: st)
  case Nil
  then show ?case by (simp add: send_all_def map_filter_simps)
next
  case (Cons c calls)
  obtain E cmd call input where c: "c = (E, cmd, call, input)" by (cases c)
  then have "cmd \<noteq> Cmd_Run_Nu" using Cons.prems by auto
  note step = slot_response [OF this, of E call input st]
  show ?case using Cons step
    by (cases "call_response c") (auto simp: c map_filter_simps send_all_Cons)
qed

section \<open>Examples\<close>

definition toy_themes :: "string theme_assets" where
  "toy_themes = \<lparr>ta_themes = [''ansi''], ta_get_theme = (\<lambda>n. n), ta_css = Inr\<rparr>"

definition toy_env :: "(plain_call, (string \<times> string) list, string, string, string, nat option list list, nat option list,
    nat option list, (nat \<times> nu_value) list, bus_event kept, log_event kept) cmd_env" where
  "toy_env = \<lparr>ce_call = plain_lib, ce_show_f64 = (\<lambda>f. ''0''), ce_json_str = string_json, ce_sse = toy_config,
     ce_minijinja = toy_engine, ce_hasher = toy_hash, ce_tmpl = toy_services None, ce_input = toy_input,
     ce_markdown = toy_markdown, ce_themes = toy_themes, ce_nushell = toy_nu, ce_engine = [], ce_bus = kept_lib,
     ce_log = kept_lib, ce_nested = (\<lambda>script input st. st)\<rparr>"

definition toy_state :: "((string \<times> string) list, bus_event kept, log_event kept) cmd_state" where
  "toy_state = \<lparr>cs_slot = armed, cs_cache = [], cs_bus = bus_new kept_lib bus_capacity,
     cs_log = Some (bc_new kept_lib log_capacity)\<rparr>"

definition static_call :: plain_call where
  "static_call = \<lparr>pc_pos = [VString ''/www'', VString ''/a.css''], pc_flags = [(''fallback'', Some (VString ''index.html''))]\<rparr>"

definition proxy_call :: plain_call where
  "proxy_call = \<lparr>pc_pos = [VString ''http://b''], pc_flags = []\<rparr>"

definition print_call :: plain_call where
  "print_call = \<lparr>pc_pos = [VInt 1, VBool True], pc_flags = [(''no-newline'', None)]\<rparr>"

definition pub_call :: plain_call where
  "pub_call = \<lparr>pc_pos = [VString ''tab.1''], pc_flags = []\<rparr>"

lemmas call_toy_defs = toy_env_def toy_state_def static_call_def proxy_call_def print_call_def pub_call_def plain_lib_def

section \<open>Properties\<close>

text \<open>
  C16. The declarations of the commands and their \<open>run\<close> functions agree: a command is registered under
  the name it answers to; a call that matches its signature gives \<open>run\<close> every argument it reads, at
  the position and under the name and in the form it reads them; and what \<open>run\<close> returns has one of the
  declared output types.
\<close>

theorem commands_type_safe:
  assumes "command_calls (ce_call E) accepts" "accepts (dc_signature (info_of cmd)) call"
  shows "sg_name (dc_signature (info_of cmd)) = dc_name (info_of cmd) \<and>
    args_readable (ce_call E) cmd call \<and>
    (\<forall>out st'. run_command cmd E call input st = (Ok out, st') \<longrightarrow> declared_output (dc_signature (info_of cmd)) out)"
  by (intro conjI allI impI signature_name command_calls.accepted_args_readable [OF assms]) (rule run_command_output)

theorem commands_type_safe_witness:
  "args_readable plain_lib Cmd_Static static_call \<and>
   run_command Cmd_Static toy_env static_call PEmpty toy_state =
     (Ok (Data PEmpty), toy_state\<lparr>cs_slot :=
        \<lparr>slot_tx = False, slot_rx = True, slot_chan = Sent (static_response ''/www'' ''/a.css'' (Some ''index.html''))\<rparr>\<rparr>) \<and>
   declared_output (dc_signature static_command) (Data PEmpty)"
proof -
  have acc: "plain_accepts (dc_signature (info_of Cmd_Static)) static_call"
    by (simp add: plain_accepts_def static_command_def static_call_def builder_defs opt_has_shape_def
      less_Suc_eq nth_Cons')
  have calls: "command_calls (ce_call toy_env) plain_accepts"
    using plain.command_calls_axioms by (simp add: toy_env_def)
  have run: "run_command Cmd_Static toy_env static_call PEmpty toy_state =
     (Ok (Data PEmpty), toy_state\<lparr>cs_slot :=
        \<lparr>slot_tx = False, slot_rx = True, slot_chan = Sent (static_response ''/www'' ''/a.css'' (Some ''index.html''))\<rparr>\<rparr>)"
    by (simp add: static_cmd_def call_toy_defs static_args_def req_string_def flag_string_def static_run_def send_response_def
      armed_def as_data_def)
  show ?thesis using commands_type_safe [OF calls acc, of PEmpty toy_state] run by (simp add: toy_env_def)
qed

text \<open>
  C17. The commands of a script do not interfere: whatever calls are made in whatever order, the
  response slot is what the \<open>.static\<close> and \<open>.reverse-proxy\<close> calls alone leave, the template cache what
  the \<open>.mj compile\<close> calls alone leave, the bus what the \<open>.bus\<close> calls alone leave and the log what the
  \<open>print\<close> calls alone leave. (The calls of a \<open>.run\<close>'s script are calls of their own.)
\<close>

theorem commands_do_not_interfere:
  assumes "Cmd_Run_Nu \<notin> call_command ` set calls"
  shows "cs_slot (run_calls calls st) =
      cs_slot (run_calls (filter (\<lambda>c. call_command c \<in> {Cmd_Static, Cmd_Reverse_Proxy}) calls) st) \<and>
    cs_cache (run_calls calls st) = cs_cache (run_calls (filter (\<lambda>c. call_command c = Cmd_Mj_Compile) calls) st) \<and>
    cs_bus (run_calls calls st) = cs_bus (run_calls (filter (\<lambda>c. call_command c \<in> {Cmd_Bus_Pub, Cmd_Bus_Sub}) calls) st) \<and>
    cs_log (run_calls calls st) = cs_log (run_calls (filter (\<lambda>c. call_command c = Cmd_Print) calls) st)"
proof -
  have parts: "(touches cmd = Some Slot_Part) = (cmd \<in> {Cmd_Static, Cmd_Reverse_Proxy})"
    "(touches cmd = Some Cache_Part) = (cmd = Cmd_Mj_Compile)"
    "(touches cmd = Some Bus_Part) = (cmd \<in> {Cmd_Bus_Pub, Cmd_Bus_Sub})"
    "(touches cmd = Some Log_Part) = (cmd = Cmd_Print)" for cmd
    by (cases cmd; simp)+
  show ?thesis
    unfolding parts [symmetric]
    by (intro conjI run_calls_part [OF _ _ assms refl];
        erule (1) slot_step cache_step bus_step log_step)
qed

definition demo_calls where
  "demo_calls = [(toy_env, Cmd_Print, print_call, PEmpty), (toy_env, Cmd_Static, static_call, PEmpty),
     (toy_env, Cmd_Bus_Pub, pub_call, PValue (VInt 1) None), (toy_env, Cmd_Reverse_Proxy, proxy_call, PEmpty)]"

theorem commands_do_not_interfere_witness:
  "cs_bus (run_calls demo_calls toy_state) =
     (cs_bus toy_state)\<lparr>kp_hist := [\<lparr>topic = ''tab.1'', bus_value = VInt 1\<rparr>]\<rparr> \<and>
   cs_cache (run_calls demo_calls toy_state) = [] \<and>
   cs_log (run_calls demo_calls toy_state) =
     Some ((bc_new kept_lib log_capacity)\<lparr>kp_hist := [EvPrint ''valuevalue'']\<rparr>) \<and>
   cs_slot (run_calls demo_calls toy_state) =
     \<lparr>slot_tx = False, slot_rx = True, slot_chan = Sent (static_response ''/www'' ''/a.css'' (Some ''index.html''))\<rparr>"
proof -
  have no_run: "Cmd_Run_Nu \<notin> call_command ` set demo_calls" by (simp add: demo_calls_def)
  have pub: "cs_bus (run_calls [(toy_env, Cmd_Bus_Pub, pub_call, PValue (VInt 1) None)] toy_state) =
      (cs_bus toy_state)\<lparr>kp_hist := [\<lparr>topic = ''tab.1'', bus_value = VInt 1\<rparr>]\<rparr>"
    by (simp add: bus_pub_cmd_def bus_pub_args_def req_string_def call_toy_defs bus_pub_def toy_input_def bus_publish_def
      bus_new_def kept_lib_def)
  have print: "cs_log (run_calls [(toy_env, Cmd_Print, print_call, PEmpty)] toy_state) =
      Some ((bc_new kept_lib log_capacity)\<lparr>kp_hist := [EvPrint ''valuevalue'']\<rparr>)"
    by (simp add: print_cmd_def print_args_def call_toy_defs print_run_def toy_nu_def emit_def log_print_event_def kept_lib_def)
  have respond: "cs_slot (run_calls [(toy_env, Cmd_Static, static_call, PEmpty), (toy_env, Cmd_Reverse_Proxy, proxy_call, PEmpty)]
        toy_state) =
      \<lparr>slot_tx = False, slot_rx = True, slot_chan = Sent (static_response ''/www'' ''/a.css'' (Some ''index.html''))\<rparr>"
    by (simp add: static_cmd_def reverse_proxy_cmd_def static_args_def reverse_proxy_args_def req_string_def flag_string_def
      call_toy_defs static_run_def reverse_proxy_run_def proxy_body_def send_response_def armed_def)
  show ?thesis
    using commands_do_not_interfere [OF no_run, of toy_state] pub print respond
    by (simp add: demo_calls_def toy_state_def)
qed

text \<open>
  C15. Whatever commands a script calls, the handler answers with the response of the first
  \<open>.static\<close> or \<open>.reverse-proxy\<close> call that has its arguments and body, and with no other; if there is
  none, it learns that there is none. This holds however the script ends.
\<close>

theorem first_response_call_wins:
  assumes "Cmd_Run_Nu \<notin> call_command ` set calls" "cs_slot st = armed"
    and "snd (en_run E request (PByteStream stream None) armed) = cs_slot (run_calls calls st)"
  shows "received_meta (spawn_eval_thread E accepts request stream job_id jobs) =
    (case List.map_filter call_response calls of [] \<Rightarrow> None | r # _ \<Rightarrow> Some r)"
proof -
  have "snd (en_run E request (PByteStream stream None) armed) = send_all (List.map_filter call_response calls) armed"
    unfolding assms(3) run_calls_slot [OF assms(1)] assms(2) by (rule refl)
  then show ?thesis by (rule special_response_first)
qed

theorem first_response_call_wins_witness:
  "received_meta (spawn_eval_thread
      ((test_engine [] (Err ''x''))\<lparr>en_run := (\<lambda>request input s. (Err ''x'', cs_slot (run_calls demo_calls (toy_state\<lparr>cs_slot := s\<rparr>))))\<rparr>)
      (\<lambda>n. True) VNothing None 1 {}) = Some (static_response ''/www'' ''/a.css'' (Some ''index.html''))"
proof -
  have no_run: "Cmd_Run_Nu \<notin> call_command ` set demo_calls" by (simp add: demo_calls_def)
  have "List.map_filter call_response demo_calls =
      [static_response ''/www'' ''/a.css'' (Some ''index.html''), proxy_response ''http://b'' [] (parse_proxy_config None)]"
    by (simp add: demo_calls_def call_response_def map_filter_simps static_args_def reverse_proxy_args_def req_string_def
      flag_string_def call_toy_defs proxy_body_def)
  then show ?thesis
    by (subst first_response_call_wins [OF no_run, of "toy_state\<lparr>cs_slot := armed\<rparr>"]) simp_all
qed

end
