(* ===== verification/Rate_Limit.thy ===== *)
theory Rate_Limit
  imports Complex_Main Prelude
begin

text \<open>
  The token bucket of the human log (\<open>TokenBucket\<close> in \<open>src/logging.rs\<close>). An \<open>Instant\<close> is a number
  of nanoseconds. The \<open>f64\<close> arithmetic is exact arithmetic on rationals followed by a rounding,
  the argument \<open>rnd\<close>; all that is assumed of it is that it is monotone and keeps the integers an
  \<open>f64\<close> can hold. With the identity for \<open>rnd\<close> the bucket computes exactly.
\<close>

type_synonym instant = nat

record token_bucket =
  tokens :: rat
  capacity :: rat
  refill_rate :: rat
  last_refill :: instant

definition bucket_new :: "rat \<Rightarrow> rat \<Rightarrow> instant \<Rightarrow> token_bucket" where
  "bucket_new cap rate now = \<lparr>tokens = cap, capacity = cap, refill_rate = rate, last_refill = now\<rparr>"

definition nanos_per_sec :: nat where
  "nanos_per_sec = 1000000000"

text \<open>\<open>Duration::as_secs_f64\<close>: the seconds plus the nanoseconds over 10^9.\<close>

definition as_secs_f64 :: "(rat \<Rightarrow> rat) \<Rightarrow> nat \<Rightarrow> rat" where
  "as_secs_f64 rnd ns =
     rnd (rnd (of_nat (ns div nanos_per_sec)) + rnd (of_nat (ns mod nanos_per_sec) / of_nat nanos_per_sec))"

text \<open>\<open>duration_since\<close> saturates at zero, as subtraction of naturals does.\<close>

definition try_consume :: "(rat \<Rightarrow> rat) \<Rightarrow> token_bucket \<Rightarrow> instant \<Rightarrow> bool \<times> token_bucket" where
  "try_consume rnd b now =
     (let elapsed = as_secs_f64 rnd (now - last_refill b);
          level = min (rnd (tokens b + rnd (elapsed * refill_rate b))) (capacity b);
          b1 = b\<lparr>tokens := level, last_refill := now\<rparr>
      in if 1 \<le> level then (True, b1\<lparr>tokens := rnd (level - 1)\<rparr>) else (False, b1))"

definition f64_rounding :: "(rat \<Rightarrow> rat) \<Rightarrow> bool" where
  "f64_rounding rnd \<longleftrightarrow>
     (\<forall>x y. x \<le> y \<longrightarrow> rnd x \<le> rnd y) \<and> (\<forall>n. n < 2 ^ 53 \<longrightarrow> rnd (of_nat n) = of_nat n)"

lemma f64_rounding_id: "f64_rounding (\<lambda>x. x)"
  by (simp add: f64_rounding_def)

lemma f64_rounding_mono: "f64_rounding rnd \<Longrightarrow> x \<le> y \<Longrightarrow> rnd x \<le> rnd y"
  by (simp add: f64_rounding_def)

lemma f64_rounding_nat: "f64_rounding rnd \<Longrightarrow> n < 2 ^ 53 \<Longrightarrow> rnd (of_nat n) = of_nat n"
  by (simp add: f64_rounding_def)

lemma f64_rounding_0 [simp]: "f64_rounding rnd \<Longrightarrow> rnd 0 = 0"
  using f64_rounding_nat [of rnd 0] by simp

lemma f64_rounding_nonneg: "f64_rounding rnd \<Longrightarrow> 0 \<le> x \<Longrightarrow> 0 \<le> rnd x"
  using f64_rounding_mono [of rnd 0 x] by simp

section \<open>The level stays within the bucket\<close>

definition bucket_inv :: "nat \<Rightarrow> token_bucket \<Rightarrow> bool" where
  "bucket_inv c b \<longleftrightarrow> c < 2 ^ 53 \<and> capacity b = of_nat c \<and> 0 \<le> tokens b \<and> tokens b \<le> of_nat c \<and>
     0 \<le> refill_rate b"

lemma bucket_inv_new: "c < 2 ^ 53 \<Longrightarrow> 0 \<le> rate \<Longrightarrow> bucket_inv c (bucket_new (of_nat c) rate now)"
  by (simp add: bucket_inv_def bucket_new_def)

lemma as_secs_f64_nonneg: "f64_rounding rnd \<Longrightarrow> 0 \<le> as_secs_f64 rnd ns"
  by (simp add: as_secs_f64_def f64_rounding_nonneg)

lemma as_secs_f64_0 [simp]: "f64_rounding rnd \<Longrightarrow> as_secs_f64 rnd 0 = 0"
  by (simp add: as_secs_f64_def)

lemma as_secs_exact: "as_secs_f64 (\<lambda>x. x) ns = of_nat ns / of_nat nanos_per_sec"
proof -
  have "(of_nat ns :: rat) = of_nat (ns div nanos_per_sec) * of_nat nanos_per_sec + of_nat (ns mod nanos_per_sec)"
    by (metis div_mult_mod_eq of_nat_add of_nat_mult)
  moreover have "(of_nat nanos_per_sec :: rat) \<noteq> 0" by (simp add: nanos_per_sec_def)
  ultimately show ?thesis by (simp add: as_secs_f64_def field_simps)
qed

lemma bucket_inv_try_consume:
  assumes "f64_rounding rnd" "bucket_inv c b"
  shows "bucket_inv c (snd (try_consume rnd b now))"
proof -
  define level where "level = min (rnd (tokens b + rnd (as_secs_f64 rnd (now - last_refill b) * refill_rate b))) (capacity b)"
  have level: "0 \<le> level" "level \<le> of_nat c"
    using assms by (auto simp: level_def bucket_inv_def f64_rounding_nonneg as_secs_f64_nonneg)
  have "rnd (level - 1) \<le> of_nat c"
    using f64_rounding_mono [OF assms(1), of "level - 1" "of_nat c"] level assms
    by (simp add: f64_rounding_nat bucket_inv_def)
  moreover have "1 \<le> level \<Longrightarrow> 0 \<le> rnd (level - 1)"
    using assms(1) by (simp add: f64_rounding_nonneg)
  moreover have "try_consume rnd b now =
      (if 1 \<le> level then (True, b\<lparr>tokens := rnd (level - 1), last_refill := now\<rparr>)
       else (False, b\<lparr>tokens := level, last_refill := now\<rparr>))"
    by (simp only: try_consume_def Let_def level_def) simp
  ultimately show ?thesis
    using level assms(2) by (simp add: bucket_inv_def)
qed

section \<open>Bursts\<close>

text \<open>Attempts at the given times, in order: which were granted, and the bucket they leave.\<close>

fun attempts :: "('b \<Rightarrow> instant \<Rightarrow> bool \<times> 'b) \<Rightarrow> 'b \<Rightarrow> instant list \<Rightarrow> bool list \<times> 'b" where
  "attempts attempt b [] = ([], b)"
| "attempts attempt b (t # ts) =
     (case attempt b t of (ok, b') \<Rightarrow> (case attempts attempt b' ts of (oks, b'') \<Rightarrow> (ok # oks, b'')))"

definition granted :: "('b \<Rightarrow> instant \<Rightarrow> bool \<times> 'b) \<Rightarrow> 'b \<Rightarrow> instant list \<Rightarrow> nat" where
  "granted attempt b ts = length (filter (\<lambda>ok. ok) (fst (attempts attempt b ts)))"

lemma attempts_bucket: "snd (attempts attempt b (t # ts)) = snd (attempts attempt (snd (attempt b t)) ts)"
  by (simp split: prod.split)

lemma granted_simps [simp]:
  "granted attempt b [] = 0"
  "granted attempt b (t # ts) = (if fst (attempt b t) then 1 else 0) + granted attempt (snd (attempt b t)) ts"
  by (simp_all add: granted_def split: prod.split)

lemma try_consume_same_instant:
  assumes "f64_rounding rnd" "tokens b = of_nat k" "capacity b = of_nat c" "k \<le> c" "c < 2 ^ 53"
    and "last_refill b = now"
  shows "try_consume rnd b now = (0 < k, b\<lparr>tokens := of_nat (k - 1)\<rparr>)"
proof -
  have k: "k < 2 ^ 53" using assms(4,5) by linarith
  have level: "min (rnd (of_nat k)) (of_nat c) = (of_nat k :: rat)"
    using assms(1,4) k by (simp add: f64_rounding_nat)
  show ?thesis
  proof (cases k)
    case 0
    then show ?thesis using assms level by (simp add: try_consume_def Let_def)
  next
    case (Suc j)
    then have "rnd (of_nat j) = of_nat j" using k assms(1) by (simp add: f64_rounding_nat)
    with Suc assms level show ?thesis by (simp add: try_consume_def Let_def)
  qed
qed

lemma burst_same_instant:
  assumes "f64_rounding rnd" "tokens b = of_nat k" "capacity b = of_nat c" "k \<le> c" "c < 2 ^ 53"
    and "last_refill b = now"
  shows "fst (attempts (try_consume rnd) b (replicate n now)) = replicate (min k n) True @ replicate (n - k) False"
  using assms
proof (induction n arbitrary: b k)
  case (Suc n)
  have step: "try_consume rnd b now = (0 < k, b\<lparr>tokens := of_nat (k - 1)\<rparr>)"
    using Suc.prems by (rule try_consume_same_instant)
  have IH: "fst (attempts (try_consume rnd) (b\<lparr>tokens := of_nat (k - 1)\<rparr>) (replicate n now)) =
      replicate (min (k - 1) n) True @ replicate (n - (k - 1)) False"
    by (rule Suc.IH) (use Suc.prems in auto)
  show ?case
    by (cases k) (use step IH in \<open>auto split: prod.splits\<close>)
qed simp

section \<open>The contract of a rate limiter\<close>

text \<open>
  What a rate limiter promises: a level that grows at a bounded rate, never exceeds the capacity,
  and pays one unit for every grant. From this alone the number of grants in any stretch of time
  is bounded.
\<close>

locale rate_limiter =
  fixes attempt :: "'b \<Rightarrow> instant \<Rightarrow> bool \<times> 'b"
    and level :: "'b \<Rightarrow> rat"
    and clock :: "'b \<Rightarrow> instant"
    and ok :: "'b \<Rightarrow> bool"
    and cap :: rat
    and rate :: rat
  assumes level_bounds: "ok b \<Longrightarrow> 0 \<le> level b \<and> level b \<le> cap"
    and try_ok: "ok b \<Longrightarrow> ok (snd (attempt b t))"
    and try_clock: "ok b \<Longrightarrow> clock (snd (attempt b t)) = t"
    and try_level: "ok b \<Longrightarrow> clock b \<le> t \<Longrightarrow>
      level (snd (attempt b t)) + (if fst (attempt b t) then 1 else 0) \<le>
        level b + rate * of_nat (t - clock b) / of_nat nanos_per_sec"
begin

lemma granted_le:
  assumes "ok b" "sorted (clock b # ts)" "\<forall>t \<in> set ts. t \<le> tmax" "clock b \<le> tmax" "0 \<le> rate"
  shows "of_nat (granted attempt b ts) \<le> level b + rate * of_nat (tmax - clock b) / of_nat nanos_per_sec"
  using assms
proof (induction ts arbitrary: b)
  case Nil
  then show ?case using level_bounds [of b] by (simp add: nanos_per_sec_def)
next
  case (Cons t ts)
  let ?b = "snd (attempt b t)"
  have le: "clock b \<le> t" "t \<le> tmax" using Cons.prems by auto
  have "of_nat (granted attempt ?b ts) \<le> level ?b + rate * of_nat (tmax - clock ?b) / of_nat nanos_per_sec"
    by (rule Cons.IH) (use Cons.prems try_ok try_clock in auto)
  moreover have "clock ?b = t" using Cons.prems by (simp add: try_clock)
  ultimately have "of_nat (granted attempt b (t # ts)) \<le>
      level b + rate * of_nat (t - clock b) / of_nat nanos_per_sec + rate * of_nat (tmax - t) / of_nat nanos_per_sec"
    using try_level [OF Cons.prems(1) le(1)] by (cases "fst (attempt b t)") simp_all
  also have "\<dots> = level b + rate * of_nat (tmax - clock b) / of_nat nanos_per_sec"
    using le by (simp add: of_nat_diff field_simps nanos_per_sec_def)
  finally show ?case .
qed

lemma granted_le_cap:
  assumes "ok b" "sorted (clock b # ts)" "\<forall>t \<in> set ts. t \<le> tmax" "clock b \<le> tmax" "0 \<le> rate"
  shows "of_nat (granted attempt b ts) \<le> cap + rate * of_nat (tmax - clock b) / of_nat nanos_per_sec"
  using granted_le [OF assms] level_bounds [OF assms(1)] by linarith

end

definition human_bucket_ok :: "token_bucket \<Rightarrow> bool" where
  "human_bucket_ok b \<longleftrightarrow> bucket_inv 40 b \<and> refill_rate b = 20"

lemma try_consume_refill_rate [simp]: "refill_rate (snd (try_consume rnd b t)) = refill_rate b"
  by (simp add: try_consume_def Let_def)

lemma try_consume_last_refill [simp]: "last_refill (snd (try_consume rnd b t)) = t"
  by (simp add: try_consume_def Let_def)

lemma try_consume_exact_level:
  "tokens (snd (try_consume (\<lambda>x. x) b t)) + (if fst (try_consume (\<lambda>x. x) b t) then 1 else 0) \<le>
    tokens b + refill_rate b * of_nat (t - last_refill b) / of_nat nanos_per_sec"
  by (auto simp: try_consume_def Let_def as_secs_exact mult.commute)

interpretation human_rate: rate_limiter "try_consume (\<lambda>x. x)" tokens last_refill human_bucket_ok 40 20
proof unfold_locales
  show "human_bucket_ok b \<Longrightarrow> 0 \<le> tokens b \<and> tokens b \<le> 40" for b
    by (auto simp: human_bucket_ok_def bucket_inv_def)
  show "human_bucket_ok b \<Longrightarrow> human_bucket_ok (snd (try_consume (\<lambda>x. x) b t))" for b t
    by (simp add: human_bucket_ok_def bucket_inv_try_consume f64_rounding_id)
  show "human_bucket_ok b \<Longrightarrow> last_refill (snd (try_consume (\<lambda>x. x) b t)) = t" for b t
    by simp
  show "tokens (snd (try_consume (\<lambda>x. x) b t)) + (if fst (try_consume (\<lambda>x. x) b t) then 1 else 0)
      \<le> tokens b + 20 * of_nat (t - last_refill b) / of_nat nanos_per_sec"
    if "human_bucket_ok b" for b t
    using try_consume_exact_level [of b t] that by (simp add: human_bucket_ok_def)
qed

section \<open>Properties\<close>

text \<open>
  Under any rounding of the floating-point operations that is monotone and exact on small
  integers, the bucket's level never leaves the range from zero to its capacity.
\<close>

theorem bucket_stays_in_range:
  assumes "f64_rounding rnd" "c < 2 ^ 53" "0 \<le> rate"
  shows "bucket_inv c (snd (attempts (try_consume rnd) (bucket_new (of_nat c) rate now) ts))"
proof -
  have "bucket_inv c b \<Longrightarrow> bucket_inv c (snd (attempts (try_consume rnd) b ts))" for b
    by (induction ts arbitrary: b) (simp_all add: attempts_bucket bucket_inv_try_consume [OF assms(1)] del: attempts.simps(2))
  then show ?thesis using bucket_inv_new [OF assms(2,3)] by blast
qed

theorem bucket_stays_in_range_witness:
  "bucket_inv 40 (snd (attempts (try_consume (\<lambda>x. x)) (bucket_new 40 20 5) [5, 6, 2000000005]))"
  using bucket_stays_in_range [OF f64_rounding_id, of 40 20 5 "[5, 6, 2000000005]"] by simp

text \<open>
  A burst of \<open>n\<close> requests at one instant on a fresh bucket of capacity \<open>c\<close> gets exactly its
  first \<open>c\<close> requests through, floating-point rounding notwithstanding.
\<close>

theorem burst_exactly_capacity:
  assumes "f64_rounding rnd" "c < 2 ^ 53"
  shows "fst (attempts (try_consume rnd) (bucket_new (of_nat c) rate now) (replicate n now)) =
    replicate (min c n) True @ replicate (n - c) False"
  using assms by (intro burst_same_instant) (simp_all add: bucket_new_def)

theorem burst_exactly_capacity_witness:
  "fst (attempts (try_consume (\<lambda>x. x)) (bucket_new 2 20 7) [7, 7, 7]) = [True, True, False]"
proof -
  have "replicate 3 (7 :: instant) = [7, 7, 7]" "replicate (min 2 3) True @ replicate (3 - 2) False = [True, True, False]"
    by code_simp+
  moreover have "(2 :: nat) < 2 ^ 53" "(of_nat 2 :: rat) = 2" by simp_all
  ultimately show ?thesis using burst_exactly_capacity [OF f64_rounding_id, of 2 20 7 3] by metis
qed

text \<open>
  In exact arithmetic the human log lets through at most its burst of forty requests and
  twenty more for every second, over any stretch of time.
\<close>

theorem human_log_rate_bound:
  assumes "human_bucket_ok b" "sorted (last_refill b # ts)" "\<forall>t\<in>set ts. t \<le> tmax" "last_refill b \<le> tmax"
  shows "of_nat (granted (try_consume (\<lambda>x. x)) b ts) \<le>
    (40 + 20 * of_nat (tmax - last_refill b) / of_nat nanos_per_sec :: rat)"
  using human_rate.granted_le_cap [OF assms] by simp

theorem human_log_rate_bound_witness:
  "of_nat (granted (try_consume (\<lambda>x. x)) (bucket_new 40 20 0) [0, 0, 500000000]) \<le> (50 :: rat)"
proof -
  have "human_bucket_ok (bucket_new 40 20 0)"
    using bucket_inv_new [of 40 20 0] by (simp add: human_bucket_ok_def bucket_new_def)
  from human_log_rate_bound [OF this, of "[0, 0, 500000000]" 500000000] show ?thesis
    by (simp add: bucket_new_def nanos_per_sec_def)
qed

end
