(* ===== verification/Active_Zone.thy ===== *)
theory Active_Zone
  imports Logging Rate_Limit
begin

text \<open>
  The live zone of the human log (\<open>ActiveZone\<close> and the line formats of \<open>src/logging.rs\<close>): the
  lines of the requests in flight are kept at the bottom of the terminal, erased before anything
  permanent is printed and drawn again after it. Writing to the terminal is a list of operations;
  what they do to the screen is stated separately, so that the bookkeeping of \<open>line_count\<close> can be
  proved right.
\<close>

section \<open>Shortening a path\<close>

text \<open>\<open>&s[..i]\<close> and \<open>&s[i..]\<close> panic unless \<open>i\<close> is a character boundary.\<close>

definition slice_to :: "string \<Rightarrow> nat \<Rightarrow> (string, string) outcome" where
  "slice_to s i = (if char_boundary s i then Ok (take i s) else Panic ''byte index is not a char boundary'')"

definition slice_from :: "string \<Rightarrow> nat \<Rightarrow> (string, string) outcome" where
  "slice_from s i = (if char_boundary s i then Ok (drop i s) else Panic ''byte index is not a char boundary'')"

text \<open>
  \<open>truncate_middle\<close>. With \<open>max_len < 3\<close> the subtraction overflows: a panic in a debug build, and in
  a release build a wrapped, far too large index, which panics as well.
\<close>

definition truncate_middle :: "string \<Rightarrow> nat \<Rightarrow> (string, string) outcome" where
  "truncate_middle s max_len =
     (if length s \<le> max_len then Ok s
      else if max_len < 3 then Panic ''attempt to subtract with overflow''
      else
        let keep = (max_len - 3) div 2 in
          obind (slice_to s keep) (\<lambda>a.
          obind (slice_from s (length s - keep)) (\<lambda>b.
            Ok (a @ ''...'' @ b))))"

section \<open>Lines\<close>

record req_state =
  rs_method :: string
  rs_path :: string
  rs_trusted_ip :: "string option"
  rs_start_time :: instant
  rs_status :: "16 word option"
  rs_latency_ms :: "64 word option"

text \<open>Widths of format fields count characters.\<close>

definition char_count :: "string \<Rightarrow> nat" where
  "char_count s = length (filter (\<lambda>c. \<not> is_cont c) s)"

definition pad_left :: "nat \<Rightarrow> string \<Rightarrow> string" where
  "pad_left w s = replicate (w - char_count s) CHR '' '' @ s"

definition pad_right :: "nat \<Rightarrow> string \<Rightarrow> string" where
  "pad_right w s = s @ replicate (w - char_count s) CHR '' ''"

definition word_str :: "'a::len word \<Rightarrow> string" where
  "word_str w = nat_str (unat w)"

text \<open>
  What a turn of the handler reads from its surroundings: the clock, its rendering, the process
  id. \<open>le_elapsed\<close> renders a duration in nanoseconds as seconds, \<open>{:>6.1}\<close>.
\<close>

record log_env =
  le_now :: instant
  le_time :: string
  le_rfc2822 :: string
  le_pid :: "32 word"
  le_elapsed :: "nat \<Rightarrow> string"

definition ip_column :: "req_state \<Rightarrow> string" where
  "ip_column st = pad_left 15 (case rs_trusted_ip st of Some ip \<Rightarrow> ip | None \<Rightarrow> ''-'')"

definition format_active_line :: "log_env \<Rightarrow> req_state \<Rightarrow> (string, string) outcome" where
  "format_active_line env st =
     obind (truncate_middle (rs_path st) 40) (\<lambda>p.
       let elapsed = le_elapsed env (le_now env - rs_start_time st) in
       case (rs_status st, rs_latency_ms st) of
         (Some status, Some latency) \<Rightarrow>
           Ok (le_time env @ '' '' @ ip_column st @ '' '' @ pad_right 6 (rs_method st) @ '' '' @ pad_right 40 p @
               '' '' @ word_str status @ '' '' @ pad_left 6 (word_str latency) @ ''ms '' @ elapsed @ ''s'')
       | _ \<Rightarrow>
           Ok (le_time env @ '' '' @ ip_column st @ '' '' @ pad_right 6 (rs_method st) @ '' '' @ pad_right 40 p @
               '' ... '' @ elapsed @ ''s''))"

definition format_complete_line :: "log_env \<Rightarrow> req_state \<Rightarrow> 64 word \<Rightarrow> 64 word \<Rightarrow> (string, string) outcome" where
  "format_complete_line env st duration_ms nbytes =
     obind (truncate_middle (rs_path st) 40) (\<lambda>p.
       let status = (case rs_status st of Some s \<Rightarrow> s | None \<Rightarrow> 0);
           latency = (case rs_latency_ms st of Some l \<Rightarrow> l | None \<Rightarrow> 0)
       in Ok (le_time env @ '' '' @ ip_column st @ '' '' @ pad_right 6 (rs_method st) @ '' '' @ pad_right 40 p @
              '' '' @ word_str status @ '' '' @ pad_left 6 (word_str latency) @ ''ms '' @
              pad_left 6 (word_str duration_ms) @ ''ms '' @ pad_left 8 (word_str nbytes) @ ''b''))"

section \<open>The zone\<close>

text \<open>
  \<open>MoveUp(n)\<close> with \<open>Clear(FromCursorDown)\<close>, a line on standard output or standard error, a flush.
  The state of the zone is \<open>line_count\<close>; the cursor movement casts it to 16 bits.
\<close>

datatype term_op = MoveUpClear nat | PrintLn string | EPrintLn string | TermFlush

definition zone_clear :: "nat \<Rightarrow> term_op list \<times> nat" where
  "zone_clear n = (if 0 < n then ([MoveUpClear (n mod 65536)], 0) else ([], n))"

definition zone_print :: "string \<Rightarrow> nat \<Rightarrow> term_op list \<times> nat" where
  "zone_print line n = (case zone_clear n of (ops, n') \<Rightarrow> (ops @ [PrintLn line, TermFlush], n'))"

fun active_lines :: "(req_state \<Rightarrow> (string, string) outcome) \<Rightarrow> string list \<Rightarrow> (string \<times> req_state) list \<Rightarrow>
    (string, string list) outcome" where
  "active_lines fmt [] reqs = Ok []"
| "active_lines fmt (i # is) reqs =
     (case map_of reqs i of
        None \<Rightarrow> active_lines fmt is reqs
      | Some st \<Rightarrow> obind (fmt st) (\<lambda>l. obind (active_lines fmt is reqs) (\<lambda>ls. Ok (l # ls))))"

text \<open>The dots and the aeroplane of the headline, in UTF-8.\<close>

definition mid_dot :: string where
  "mid_dot = [CHR 0xC2, CHR 0xB7]"

definition zone_headline :: string where
  "zone_headline = mid_dot @ '' '' @ mid_dot @ '' '' @ mid_dot @ ''  '' @ [CHR 0xE2, CHR 0x9C, CHR 0x88] @
     '' in flight  '' @ mid_dot @ '' '' @ mid_dot @ '' '' @ mid_dot"

definition zone_redraw :: "(req_state \<Rightarrow> (string, string) outcome) \<Rightarrow> string list \<Rightarrow> (string \<times> req_state) list \<Rightarrow>
    (string, term_op list \<times> nat) outcome" where
  "zone_redraw fmt ids reqs =
     (if ids = [] then Ok ([TermFlush], 0)
      else obind (active_lines fmt ids reqs)
        (\<lambda>ls. Ok (PrintLn zone_headline # map PrintLn ls @ [TermFlush], 1 + length ls)))"

section \<open>The screen\<close>

text \<open>
  An ideal terminal: every printed line is one row, and the cursor moves up as many rows as it is
  told. On a real one a line wider than the terminal takes several rows, which the code does not
  count, and the cursor stops at the top of the screen; what is proved of the screen is for lines
  that do not wrap and a zone that fits on it.
\<close>

fun screen_op :: "string list \<Rightarrow> term_op \<Rightarrow> string list" where
  "screen_op scr (MoveUpClear n) = take (length scr - n) scr"
| "screen_op scr (PrintLn l) = scr @ [l]"
| "screen_op scr (EPrintLn l) = scr @ [l]"
| "screen_op scr TermFlush = scr"

definition screen_after :: "string list \<Rightarrow> term_op list \<Rightarrow> string list" where
  "screen_after scr ops = foldl screen_op scr ops"

lemma screen_after_simps [simp]:
  "screen_after scr [] = scr"
  "screen_after scr (oper # ops) = screen_after (screen_op scr oper) ops"
  by (simp_all add: screen_after_def)

lemma screen_after_append [simp]: "screen_after scr (ops @ ops') = screen_after (screen_after scr ops) ops'"
  by (simp add: screen_after_def)

lemma screen_after_PrintLn [simp]: "screen_after scr (map PrintLn ls) = scr @ ls"
  by (induction ls arbitrary: scr) auto

text \<open>The lines above the zone are permanent; the zone is the last \<open>n\<close> lines.\<close>

definition screen_shows :: "string list \<Rightarrow> nat \<Rightarrow> string list \<Rightarrow> bool" where
  "screen_shows scr n perm \<longleftrightarrow> (\<exists>zl. scr = perm @ zl \<and> length zl = n)"

lemma screen_shows_0 [simp]: "screen_shows scr 0 perm \<longleftrightarrow> scr = perm"
  by (simp add: screen_shows_def)

text \<open>
  The contract of a live zone: clearing leaves exactly the permanent lines, printing adds one to
  them, drawing (on a cleared zone) adds none.
\<close>

locale live_zone =
  fixes clear :: "'z \<Rightarrow> term_op list \<times> 'z"
    and print :: "string \<Rightarrow> 'z \<Rightarrow> term_op list \<times> 'z"
    and draw :: "'d \<Rightarrow> (string, term_op list \<times> 'z) outcome"
    and height :: "'z \<Rightarrow> nat"
  assumes clear_shows: "height z < 65536 \<Longrightarrow> screen_shows scr (height z) perm \<Longrightarrow>
      screen_after scr (fst (clear z)) = perm \<and> height (snd (clear z)) = 0"
    and print_shows: "height z < 65536 \<Longrightarrow> screen_shows scr (height z) perm \<Longrightarrow>
      screen_after scr (fst (print l z)) = perm @ [l] \<and> height (snd (print l z)) = 0"
    and draw_shows: "draw d = Ok (ops, z) \<Longrightarrow> screen_shows (screen_after perm ops) (height z) perm"
begin

lemma print_draw_shows:
  assumes "height z < 65536" "screen_shows scr (height z) perm" "draw d = Ok (ops, z')"
  shows "screen_shows (screen_after scr (fst (print l z) @ ops)) (height z') (perm @ [l])"
  using print_shows [OF assms(1,2), of l] draw_shows [OF assms(3)] by simp

lemma clear_draw_shows:
  assumes "height z < 65536" "screen_shows scr (height z) perm" "draw d = Ok (ops, z')"
  shows "screen_shows (screen_after scr (fst (clear z) @ map EPrintLn ls @ ops)) (height z') (perm @ ls)"
proof -
  have "screen_after s (map EPrintLn ls) = s @ ls" for s
    by (induction ls arbitrary: s) auto
  then show ?thesis
    using clear_shows [OF assms(1,2)] draw_shows [OF assms(3)] by simp
qed

end

lemma zone_redraw_shows:
  assumes "zone_redraw fmt ids reqs = Ok (ops, n)"
  shows "screen_shows (screen_after perm ops) n perm"
proof (cases "ids = []")
  case False
  with assms obtain ls where "ops = PrintLn zone_headline # map PrintLn ls @ [TermFlush]" "n = Suc (length ls)"
    by (auto simp: zone_redraw_def obind_Ok_iff)
  then show ?thesis by (auto simp: screen_shows_def intro: exI [of _ "zone_headline # ls"])
qed (use assms in \<open>auto simp: zone_redraw_def\<close>)

interpretation zone: live_zone zone_clear zone_print "\<lambda>(fmt, ids, reqs). zone_redraw fmt ids reqs" id
  by unfold_locales
    (auto simp: zone_clear_def zone_print_def screen_shows_def zone_redraw_shows [unfolded screen_shows_def]
      split: prod.splits)

section \<open>Laws\<close>

lemma active_lines_length:
  "active_lines fmt ids reqs = Ok ls \<Longrightarrow> length ls \<le> length ids"
  by (induction ids arbitrary: ls) (auto simp: obind_Ok_iff le_SucI split: option.splits)

lemma zone_redraw_height: "zone_redraw fmt ids reqs = Ok (ops, n) \<Longrightarrow> n \<le> Suc (length ids)"
  by (auto simp: zone_redraw_def obind_Ok_iff dest: active_lines_length split: if_splits)

definition ascii :: "string \<Rightarrow> bool" where
  "ascii s \<longleftrightarrow> (\<forall>c \<in> set s. byte_of c < 128)"

lemma ascii_char_boundary: "ascii s \<Longrightarrow> i \<le> length s \<Longrightarrow> char_boundary s i"
  by (metis ascii_def char_boundary_def is_cont_def le_neq_implies_less not_less nth_mem)

lemma truncate_middle_ascii:
  assumes "ascii s" "3 \<le> m"
  shows "\<exists>r. truncate_middle s m = Ok r \<and> length r \<le> m"
  using assms by (auto simp: truncate_middle_def slice_to_def slice_from_def ascii_char_boundary Let_def)

lemma truncate_middle_no_panic: "ascii s \<Longrightarrow> 3 \<le> m \<Longrightarrow> \<not> is_panic (truncate_middle s m)"
  using truncate_middle_ascii [of s m] by auto

lemma truncate_middle_not_Err [simp]: "truncate_middle s m \<noteq> Err e"
  by (auto simp: truncate_middle_def slice_to_def slice_from_def Let_def obind_Err_iff split: if_splits)

lemma format_lines_no_panic:
  assumes "ascii (rs_path st)"
  shows "\<not> is_panic (format_active_line env st)" "\<not> is_panic (format_complete_line env st d b)"
  using truncate_middle_no_panic [OF assms, of 40]
  by (auto simp: format_active_line_def format_complete_line_def Let_def split: option.splits)

lemma active_lines_no_panic:
  assumes "\<And>i st. map_of reqs i = Some st \<Longrightarrow> \<not> is_panic (fmt st)"
  shows "\<not> is_panic (active_lines fmt ids reqs)"
  using assms by (induction ids) (auto split: option.splits)

section \<open>Properties\<close>

text \<open>
  C40. Shortening a path to \<open>m\<close> bytes yields at most \<open>m\<close> bytes, and leaves a short path alone; it
  panics exactly when the path is longer and one of the two cuts falls inside a character.
\<close>

theorem truncate_middle_outcome:
  assumes "3 \<le> m"
  shows "(\<forall>r. truncate_middle s m = Ok r \<longrightarrow> length r \<le> m \<and> (length s \<le> m \<longrightarrow> r = s)) \<and>
    (is_panic (truncate_middle s m) \<longleftrightarrow> m < length s \<and>
      (\<not> char_boundary s ((m - 3) div 2) \<or> \<not> char_boundary s (length s - (m - 3) div 2)))"
  using assms by (auto simp: truncate_middle_def slice_to_def slice_from_def Let_def)

theorem truncate_middle_outcome_witness:
  "is_panic (truncate_middle (replicate 17 CHR ''a'' @ [CHR 0xC3, CHR 0xA9] @ replicate 30 CHR ''b'') 40)"
proof -
  have "\<not> char_boundary (replicate 17 CHR ''a'' @ [CHR 0xC3, CHR 0xA9] @ replicate 30 CHR ''b'') 18" by code_simp
  with truncate_middle_outcome [of 40 "replicate 17 CHR ''a'' @ [CHR 0xC3, CHR 0xA9] @ replicate 30 CHR ''b''"]
  show ?thesis by simp
qed

end
