(* ===== verification/Human_Log.thy ===== *)
theory Human_Log
  imports Active_Zone
begin

text \<open>
  The human-readable log (\<open>run_human_handler\<close> in \<open>src/logging.rs\<close>): one turn of its loop per
  result of the broadcast receiver, the whole loop, and its closing summary.
\<close>

section \<open>The start-up banner\<close>

definition u_heart :: string where
  "u_heart = [CHR 0xF0, CHR 0x9F, CHR 0x92, CHR 0x9C]"

definition u_cycle :: string where
  "u_cycle = [CHR 0xF0, CHR 0x9F, CHR 0x94, CHR 0x84]"

definition u_warning :: string where
  "u_warning = [CHR 0xE2, CHR 0x9A, CHR 0xA0]"

definition u_bar :: string where
  "u_bar = [CHR 0xE2, CHR 0x94, CHR 0x82]"

definition u_degree :: string where
  "u_degree = [CHR 0xC2, CHR 0xB0]"

definition quote1 :: string where
  "quote1 = [CHR 0x27]"

definition quote2 :: string where
  "quote2 = [CHR 0x22]"

definition http_opts :: "startup_options \<Rightarrow> string list" where
  "http_opts opts =
     (if so_watch opts then [''watch''] else []) @
     (case so_tls opts of Some tls \<Rightarrow> [''tls:'' @ tls] | None \<Rightarrow> [])"

definition xs_opts :: "startup_options \<Rightarrow> string list" where
  "xs_opts opts =
     (case so_store opts of Some store \<Rightarrow> [store] | None \<Rightarrow> []) @
     (case so_topic opts of Some t \<Rightarrow> [''topic:'' @ t] | None \<Rightarrow> []) @
     (case so_expose opts of Some e \<Rightarrow> [e] | None \<Rightarrow> []) @
     (if so_services opts then [''services''] else [])"

text \<open>With the cross-stream feature the build knows an xs version.\<close>

definition versions :: "build_info \<Rightarrow> startup_options \<Rightarrow> string list" where
  "versions bi opts =
     [''nu '' @ nu_version bi] @
     (case xs_version bi of
        Some v \<Rightarrow> if so_store opts \<noteq> None then [''xs '' @ v] else []
      | None \<Rightarrow> []) @
     (if so_datastar opts then [''datastar '' @ datastar_version] else [])"

definition duck :: string where
  "duck = '' !_-(_'' @ [CHR 0x5C] @ ''     ''"

definition startup_lines :: "build_info \<Rightarrow> log_env \<Rightarrow> string \<Rightarrow> 64 word \<Rightarrow> startup_options \<Rightarrow> string list" where
  "startup_lines bi env address startup_ms opts =
     (let versions_str = join_str ('' '' @ mid_dot @ '' '') (versions bi opts);
          h = http_opts opts; x = xs_opts opts
      in [''<http-nu version='' @ quote2 @ pkg_version bi @ quote2 @ ''>'',
          ''     __  ,'',
          '' .--()'' @ u_degree @ quote1 @ ''.'' @ quote1 @ ''  pid '' @ word_str (le_pid env) @ '' '' @ mid_dot @
            '' '' @ address @ '' '' @ mid_dot @ '' '' @ word_str startup_ms @ ''ms '' @ u_heart,
          quote1 @ ''|, . ,'' @ quote1 @ ''    '' @ le_rfc2822 env] @
         (if h \<noteq> [] \<or> x \<noteq> [] then
            let opts_str =
                  (if x = [] then join_str '' '' h
                   else if h = [] then ''xs '' @ join_str '' '' x
                   else join_str '' '' h @ '' '' @ u_bar @ '' xs '' @ join_str '' '' x)
            in [duck @ opts_str, ''            '' @ versions_str]
          else [duck @ versions_str]))"

section \<open>The handler\<close>

record human =
  h_requests :: "(string \<times> req_state) list"
  h_active :: "string list"
  h_lines :: nat
  h_bucket :: token_bucket
  h_skipped :: "64 word"
  h_lagged :: "64 word"

definition human_new :: "instant \<Rightarrow> human" where
  "human_new now = \<lparr>h_requests = [], h_active = [], h_lines = 0, h_bucket = bucket_new 40 20 now,
     h_skipped = 0, h_lagged = 0\<rparr>"

type_synonym turn = "term_op list \<times> human \<times> bool"

fun print_all :: "string list \<Rightarrow> nat \<Rightarrow> term_op list \<times> nat" where
  "print_all [] n = ([], n)"
| "print_all (l # ls) n =
     (case zone_print l n of (ops, n1) \<Rightarrow> (case print_all ls n1 of (ops', n2) \<Rightarrow> (ops @ ops', n2)))"

text \<open>The end of most branches: draw the zone again, and go round the loop.\<close>

definition then_redraw :: "log_env \<Rightarrow> human \<Rightarrow> term_op list \<Rightarrow> (string, turn) outcome" where
  "then_redraw env h ops =
     obind (zone_redraw (format_active_line env) (h_active h) (h_requests h))
       (\<lambda>(ops', n). Ok (ops @ ops', h\<lparr>h_lines := n\<rparr>, True))"

definition new_req_state :: "log_env \<Rightarrow> request_data \<Rightarrow> req_state" where
  "new_req_state env r = \<lparr>rs_method = rd_method r, rs_path = rd_path r, rs_trusted_ip = rd_trusted_ip r,
     rs_start_time = le_now env, rs_status = None, rs_latency_ms = None\<rparr>"

definition skipped_line :: "64 word \<Rightarrow> string" where
  "skipped_line n = ''... skipped '' @ word_str n @ '' requests''"

definition on_request :: "(rat \<Rightarrow> rat) \<Rightarrow> log_env \<Rightarrow> human \<Rightarrow> string \<Rightarrow> request_data \<Rightarrow> (string, turn) outcome" where
  "on_request rnd env h rid r =
     (case try_consume rnd (h_bucket h) (le_now env) of
        (False, b) \<Rightarrow> Ok ([], h\<lparr>h_bucket := b, h_skipped := h_skipped h + 1\<rparr>, True)
      | (True, b) \<Rightarrow>
          (case (if 0 < h_skipped h then zone_print (skipped_line (h_skipped h)) (h_lines h)
                 else ([], h_lines h)) of
             (ops1, n1) \<Rightarrow>
               (case zone_clear n1 of
                  (ops2, n2) \<Rightarrow>
                    then_redraw env
                      (h\<lparr>h_bucket := b, h_skipped := 0, h_lines := n2,
                        h_requests := map_insert rid (new_req_state env r) (h_requests h),
                        h_active := h_active h @ [rid]\<rparr>)
                      (ops1 @ ops2))))"

definition on_response :: "log_env \<Rightarrow> human \<Rightarrow> string \<Rightarrow> 16 word \<Rightarrow> 64 word \<Rightarrow> (string, turn) outcome" where
  "on_response env h rid status latency =
     (case map_of (h_requests h) rid of
        None \<Rightarrow> Ok ([], h, True)
      | Some st \<Rightarrow>
          (case zone_clear (h_lines h) of
             (ops, n) \<Rightarrow>
               then_redraw env
                 (h\<lparr>h_lines := n,
                   h_requests := map_insert rid (st\<lparr>rs_status := Some status, rs_latency_ms := Some latency\<rparr>)
                     (h_requests h)\<rparr>) ops))"

definition on_complete :: "log_env \<Rightarrow> human \<Rightarrow> string \<Rightarrow> 64 word \<Rightarrow> 64 word \<Rightarrow> (string, turn) outcome" where
  "on_complete env h rid nbytes duration_ms =
     (case map_of (h_requests h) rid of
        None \<Rightarrow> Ok ([], h, True)
      | Some st \<Rightarrow>
          obind (format_complete_line env st duration_ms nbytes) (\<lambda>line.
            (case zone_print line (h_lines h) of
               (ops, n) \<Rightarrow>
                 then_redraw env
                   (h\<lparr>h_lines := n, h_requests := AList.delete rid (h_requests h),
                     h_active := filter (\<lambda>x. x \<noteq> rid) (h_active h)\<rparr>) ops)))"

text \<open>Printing permanent lines and drawing again: the lifecycle events.\<close>

definition announce :: "log_env \<Rightarrow> human \<Rightarrow> string list \<Rightarrow> (string, turn) outcome" where
  "announce env h ls = (case print_all ls (h_lines h) of (ops, n) \<Rightarrow> then_redraw env (h\<lparr>h_lines := n\<rparr>) ops)"

fun human_step :: "(rat \<Rightarrow> rat) \<Rightarrow> build_info \<Rightarrow> log_env \<Rightarrow> human \<Rightarrow> event_result \<Rightarrow> (string, turn) outcome" where
  "human_step rnd bi env h (RxLagged n) =
     (case zone_print (u_warning @ '' lagged: dropped '' @ word_str n @ '' events, cleared in-flight'') (h_lines h) of
        (ops, k) \<Rightarrow> Ok (ops, h\<lparr>h_lagged := h_lagged h + n, h_requests := [], h_active := [], h_lines := k\<rparr>, True))"
| "human_step rnd bi env h RxClosed = Ok ([], h, False)"
| "human_step rnd bi env h (RxEvent (EvStarted address ms opts)) = announce env h (startup_lines bi env address ms opts)"
| "human_step rnd bi env h (RxEvent EvReloaded) = announce env h [''reloaded '' @ u_cycle]"
| "human_step rnd bi env h (RxEvent (EvError e)) =
     (case zone_clear (h_lines h) of
        (ops, n) \<Rightarrow> then_redraw env (h\<lparr>h_lines := n\<rparr>) (ops @ [EPrintLn (''ERROR: '' @ e)]))"
| "human_step rnd bi env h (RxEvent (EvPrint m)) = announce env h [''PRINT: '' @ m]"
| "human_step rnd bi env h (RxEvent (EvStopping k)) =
     announce env h [''stopping, '' @ word_str k @ '' connection(s) in flight...'']"
| "human_step rnd bi env h (RxEvent EvStopped) =
     (case zone_print (le_time env @ '' cu l8r'') (h_lines h) of
        (ops, n) \<Rightarrow> (case zone_clear n of
          (ops', n') \<Rightarrow> Ok (ops @ ops' @ [PrintLn ''</http-nu>''], h\<lparr>h_lines := n'\<rparr>, True)))"
| "human_step rnd bi env h (RxEvent EvStopTimedOut) =
     (case zone_print ''stop timed out, forcing exit'' (h_lines h) of
        (ops, n) \<Rightarrow> Ok (ops, h\<lparr>h_lines := n\<rparr>, True))"
| "human_step rnd bi env h (RxEvent (EvRequest rid r)) = on_request rnd env h rid r"
| "human_step rnd bi env h (RxEvent (EvResponse rid status hs latency)) = on_response env h rid status latency"
| "human_step rnd bi env h (RxEvent (EvComplete rid nbytes duration)) = on_complete env h rid nbytes duration"
| "human_step rnd bi env h (RxEvent EvShutdown) = Ok ([], h, False)"

text \<open>The loop, up to a break or to the end of the results that have arrived (\<open>True\<close>: still waiting).\<close>

fun human_run :: "(rat \<Rightarrow> rat) \<Rightarrow> build_info \<Rightarrow> human \<Rightarrow> (log_env \<times> event_result) list \<Rightarrow> (string, turn) outcome" where
  "human_run rnd bi h [] = Ok ([], h, True)"
| "human_run rnd bi h ((env, r) # rs) =
     obind (human_step rnd bi env h r) (\<lambda>(ops, h1, continue).
       if \<not> continue then Ok (ops, h1, False)
       else obind (human_run rnd bi h1 rs) (\<lambda>(ops', h2, c). Ok (ops @ ops', h2, c)))"

text \<open>The final summaries, after the loop.\<close>

definition human_summary :: "human \<Rightarrow> term_op list" where
  "human_summary h =
     fst (zone_clear (h_lines h)) @
     (if 0 < h_skipped h then [PrintLn (skipped_line (h_skipped h))] else []) @
     (if 0 < h_lagged h then [PrintLn (u_warning @ '' total lagged: '' @ word_str (h_lagged h) @ '' events dropped'')] else [])"

section \<open>What the log says\<close>

text \<open>The permanent lines of one result, without any reference to the terminal.\<close>

fun permanent :: "(rat \<Rightarrow> rat) \<Rightarrow> build_info \<Rightarrow> log_env \<Rightarrow> human \<Rightarrow> event_result \<Rightarrow> string list" where
  "permanent rnd bi env h (RxLagged n) =
     [u_warning @ '' lagged: dropped '' @ word_str n @ '' events, cleared in-flight'']"
| "permanent rnd bi env h RxClosed = []"
| "permanent rnd bi env h (RxEvent ev) =
     (case ev of
        EvStarted address ms opts \<Rightarrow> startup_lines bi env address ms opts
      | EvReloaded \<Rightarrow> [''reloaded '' @ u_cycle]
      | EvError e \<Rightarrow> [''ERROR: '' @ e]
      | EvPrint m \<Rightarrow> [''PRINT: '' @ m]
      | EvStopping k \<Rightarrow> [''stopping, '' @ word_str k @ '' connection(s) in flight...'']
      | EvStopped \<Rightarrow> [le_time env @ '' cu l8r'', ''</http-nu>'']
      | EvStopTimedOut \<Rightarrow> [''stop timed out, forcing exit'']
      | EvRequest rid r \<Rightarrow>
          (if fst (try_consume rnd (h_bucket h) (le_now env)) \<and> 0 < h_skipped h
           then [skipped_line (h_skipped h)] else [])
      | EvComplete rid nbytes d \<Rightarrow>
          (case map_of (h_requests h) rid of
             None \<Rightarrow> []
           | Some st \<Rightarrow> (case format_complete_line env st d nbytes of Ok l \<Rightarrow> [l] | _ \<Rightarrow> []))
      | _ \<Rightarrow> [])"

lemma startup_lines_not_Nil [simp]: "startup_lines bi env a ms opts \<noteq> []"
  by (simp add: startup_lines_def Let_def)

lemma print_all_shows:
  assumes "n < 65536" "screen_shows scr n perm" "ls \<noteq> []"
  shows "screen_after scr (fst (print_all ls n)) = perm @ ls \<and> snd (print_all ls n) = 0"
  using assms
proof (induction ls arbitrary: n scr perm)
  case (Cons l ls)
  have one: "screen_after scr (fst (zone_print l n)) = perm @ [l]" "snd (zone_print l n) = 0"
    using zone.print_shows [of n scr perm l] Cons.prems by auto
  show ?case
  proof (cases "ls = []")
    case True
    with one show ?thesis by (auto split: prod.splits)
  next
    case False
    with one Cons.IH [of 0 "perm @ [l]" "perm @ [l]"] show ?thesis by (auto split: prod.splits)
  qed
qed simp

lemma then_redraw_shows:
  assumes "then_redraw env h ops = Ok (ops', h', c)" "screen_after scr ops = perm"
  shows "screen_shows (screen_after scr ops') (h_lines h') perm"
  using assms zone_redraw_shows
  by (fastforce simp: then_redraw_def obind_Ok_iff split: prod.splits)

lemma announce_shows:
  assumes "announce env h ls = Ok (ops, h', c)" "h_lines h < 65536" "screen_shows scr (h_lines h) perm" "ls \<noteq> []"
  shows "screen_shows (screen_after scr ops) (h_lines h') (perm @ ls)"
  using assms print_all_shows [of "h_lines h" scr perm ls]
  by (auto simp: announce_def split: prod.splits dest: then_redraw_shows)

lemma on_request_shows:
  assumes "on_request rnd env h rid r = Ok (ops, h', c)" "h_lines h < 65536"
    and "screen_shows scr (h_lines h) perm"
  shows "screen_shows (screen_after scr ops) (h_lines h') (perm @ permanent rnd bi env h (RxEvent (EvRequest rid r)))"
proof -
  note p = zone.print_shows [of "h_lines h" scr perm "skipped_line (h_skipped h)", simplified]
  note c = zone.clear_shows [of "h_lines h" scr perm, simplified]
  show ?thesis
    using assms p c
    by (cases "try_consume rnd (h_bucket h) (le_now env)")
      (auto simp: on_request_def zone_clear_def split: bool.splits prod.splits if_splits
        dest!: then_redraw_shows [where scr = scr])
qed

lemma on_response_shows:
  assumes "on_response env h rid status latency = Ok (ops, h', c)" "h_lines h < 65536"
    and "screen_shows scr (h_lines h) perm"
  shows "screen_shows (screen_after scr ops) (h_lines h') perm"
  using assms zone.clear_shows [of "h_lines h" scr perm]
  by (auto simp: on_response_def split: option.splits prod.splits dest: then_redraw_shows)

lemma on_complete_shows:
  assumes "on_complete env h rid nbytes d = Ok (ops, h', c)" "h_lines h < 65536"
    and "screen_shows scr (h_lines h) perm"
  shows "screen_shows (screen_after scr ops) (h_lines h') (perm @ permanent rnd bi env h (RxEvent (EvComplete rid nbytes d)))"
proof (cases "map_of (h_requests h) rid")
  case None
  with assms show ?thesis by (simp add: on_complete_def)
next
  case (Some st)
  with assms(1) obtain line where line: "format_complete_line env st d nbytes = Ok line"
    by (auto simp: on_complete_def obind_Ok_iff)
  show ?thesis
    using assms zone.print_shows [of "h_lines h" scr perm line] Some line
    by (auto simp: on_complete_def split: prod.splits dest: then_redraw_shows)
qed

lemma zone_print_eq:
  assumes "zone_print l n = (ops, k)" "n < 65536" "screen_shows scr n perm"
  shows "screen_after scr ops = perm @ [l] \<and> k = 0"
  using zone.print_shows [of n scr perm l] assms by simp

lemma human_step_shows:
  assumes "human_step rnd bi env h r = Ok (ops, h', c)" "h_lines h < 65536"
    and "screen_shows scr (h_lines h) perm"
  shows "screen_shows (screen_after scr ops) (h_lines h') (perm @ permanent rnd bi env h r)"
proof -
  note eq = zone_print_eq [OF _ assms(2,3)]
  note clear = zone.clear_shows [of "h_lines h" scr perm]
  show ?thesis
  proof (cases r)
    case (RxLagged n)
    then show ?thesis using assms(1) by (auto split: prod.splits dest!: eq)
  next
    case RxClosed
    then show ?thesis using assms by simp
  next
    case (RxEvent ev)
    show ?thesis
    proof (cases ev)
      case (EvError e)
      then show ?thesis using assms clear RxEvent
        by (auto split: prod.splits dest!: then_redraw_shows [where scr = scr and perm = "perm @ [''ERROR: '' @ e]"])
    next
      case EvStopped
      then show ?thesis using assms(1) RxEvent
        by (auto simp: zone_clear_def split: prod.splits if_splits dest!: eq)
    next
      case EvStopTimedOut
      then show ?thesis using assms(1) RxEvent by (auto split: prod.splits dest!: eq)
    next
      case (EvRequest rid rd)
      then show ?thesis using assms RxEvent on_request_shows by auto
    next
      case (EvComplete rid n d)
      then show ?thesis using assms RxEvent on_complete_shows by auto
    qed (use assms RxEvent in \<open>auto simp: announce_shows on_response_shows split: prod.splits\<close>)
  qed
qed

section \<open>The bookkeeping\<close>

text \<open>
  The requests in flight: \<open>active_ids\<close> and the map have the same ids, each once, and the zone is
  never higher than its headline and one line for each.
\<close>

definition human_inv :: "human \<Rightarrow> bool" where
  "human_inv h \<longleftrightarrow> distinct (h_active h) \<and> map_ok (h_requests h) \<and>
     set (h_active h) = dom (map_of (h_requests h)) \<and> h_lines h \<le> Suc (length (h_active h))"

lemma human_inv_new: "human_inv (human_new now)"
  by (simp add: human_inv_def human_new_def)

lemma then_redraw_frame:
  assumes "then_redraw env h ops = Ok (ops', h', c)"
  shows "h' = h\<lparr>h_lines := h_lines h'\<rparr> \<and> h_lines h' \<le> Suc (length (h_active h)) \<and> c"
  using assms zone_redraw_height
  by (fastforce simp: then_redraw_def obind_Ok_iff split: prod.splits)

lemma then_redraw_inv:
  assumes "then_redraw env h ops = Ok (ops', h', c)"
    and "distinct (h_active h)" "map_ok (h_requests h)" "set (h_active h) = dom (map_of (h_requests h))"
  shows "human_inv h' \<and> h_active h' = h_active h"
proof -
  obtain n where "h' = h\<lparr>h_lines := n\<rparr>" "n \<le> Suc (length (h_active h))"
    using then_redraw_frame [OF assms(1)] by metis
  then show ?thesis using assms(2-4) by (simp add: human_inv_def)
qed

lemma announce_inv:
  "announce env h ls = Ok (ops, h', c) \<Longrightarrow> human_inv h \<Longrightarrow> human_inv h' \<and> h_active h' = h_active h"
  by (auto simp: announce_def human_inv_def split: prod.splits dest!: then_redraw_inv)

lemma map_ok_delete: "map_ok m \<Longrightarrow> map_ok (AList.delete k m)"
  by (simp add: map_ok_def distinct_delete)

fun started_ids :: "event_result list \<Rightarrow> string list" where
  "started_ids [] = []"
| "started_ids (RxEvent (EvRequest rid r) # rs) = rid # started_ids rs"
| "started_ids (_ # rs) = started_ids rs"

lemma zone_clear_snd [simp]: "snd (zone_clear n) = 0"
  by (simp add: zone_clear_def)

lemma zone_print_snd [simp]: "snd (zone_print l n) = 0"
  by (simp add: zone_print_def split: prod.splits) (metis zone_clear_snd snd_conv)

lemma zone_clear_zero: "zone_clear n = (ops, k) \<Longrightarrow> k = 0"
  using zone_clear_snd [of n] by simp

lemma zone_print_zero: "zone_print l n = (ops, k) \<Longrightarrow> k = 0"
  using zone_print_snd [of l n] by simp

lemma on_request_inv:
  assumes "on_request rnd env h rid r = Ok (ops, h', c)" "human_inv h" "rid \<notin> set (h_active h)"
  shows "human_inv h' \<and> (h_active h' = h_active h \<or> h_active h' = h_active h @ [rid])"
proof (cases "fst (try_consume rnd (h_bucket h) (le_now env))")
  case False
  with assms show ?thesis
    by (auto simp: on_request_def human_inv_def split: prod.splits bool.splits)
next
  case True
  let ?h = "\<lambda>b n. h\<lparr>h_bucket := b, h_skipped := 0, h_lines := n,
    h_requests := map_insert rid (new_req_state env r) (h_requests h), h_active := h_active h @ [rid]\<rparr>"
  obtain b n ops1 where redraw: "then_redraw env (?h b n) ops1 = Ok (ops, h', c)"
    using True assms(1) by (auto simp: on_request_def split: prod.splits bool.splits)
  have "distinct (h_active (?h b n))" "map_ok (h_requests (?h b n))"
    "set (h_active (?h b n)) = dom (map_of (h_requests (?h b n)))"
    using assms(2,3) by (simp_all add: human_inv_def)
  from then_redraw_inv [OF redraw this] show ?thesis by simp
qed

lemma on_complete_inv:
  assumes "on_complete env h rid nbytes d = Ok (ops, h', c)" "human_inv h"
  shows "human_inv h' \<and> h_active h' = filter (\<lambda>x. x \<noteq> rid) (h_active h)"
proof (cases "map_of (h_requests h) rid")
  case None
  with assms have "rid \<notin> set (h_active h)" by (auto simp: human_inv_def)
  then have "filter (\<lambda>x. x \<noteq> rid) (h_active h) = h_active h" by (auto intro!: filter_True)
  with None assms show ?thesis by (simp add: on_complete_def)
next
  case (Some st)
  then obtain line where line: "format_complete_line env st d nbytes = Ok line"
    using assms(1) by (auto simp: on_complete_def obind_Ok_iff)
  obtain ops1 k where p: "zone_print line (h_lines h) = (ops1, k)" by fastforce
  let ?h = "h\<lparr>h_lines := k, h_requests := AList.delete rid (h_requests h),
    h_active := filter (\<lambda>x. x \<noteq> rid) (h_active h)\<rparr>"
  have "then_redraw env ?h ops1 = Ok (ops, h', c)"
    using Some line p assms(1) by (simp add: on_complete_def)
  moreover have "set (h_active ?h) = dom (map_of (h_requests ?h))" "distinct (h_active ?h)" "map_ok (h_requests ?h)"
    using assms(2) by (auto simp: human_inv_def map_ok_delete delete_conv')
  ultimately show ?thesis using then_redraw_inv [of env ?h ops1 ops h' c] by simp
qed

lemma on_response_inv:
  assumes "on_response env h rid status latency = Ok (ops, h', c)" "human_inv h"
  shows "human_inv h' \<and> h_active h' = h_active h"
  using assms
  by (auto simp: on_response_def human_inv_def split: prod.splits option.splits if_splits dest!: then_redraw_inv)

lemma human_step_inv:
  assumes "human_step rnd bi env h r = Ok (ops, h', c)" "human_inv h"
    and "\<forall>i \<in> set (started_ids [r]). i \<notin> set (h_active h)"
  shows "human_inv h' \<and> set (h_active h') \<subseteq> set (h_active h) \<union> set (started_ids [r]) \<and>
    length (h_active h') \<le> Suc (length (h_active h))"
proof (cases r)
  case (RxLagged n)
  then show ?thesis using assms by (auto simp: human_inv_def split: prod.splits dest!: zone_print_zero)
next
  case RxClosed
  then show ?thesis using assms by auto
next
  case (RxEvent ev)
  show ?thesis
  proof (cases ev)
    case (EvError e)
    then show ?thesis using assms RxEvent
      by (auto simp: human_inv_def split: prod.splits dest!: then_redraw_inv)
  next
    case EvStopped
    then show ?thesis using assms RxEvent
      by (auto simp: human_inv_def split: prod.splits dest!: zone_print_zero zone_clear_zero)
  next
    case EvStopTimedOut
    then show ?thesis using assms RxEvent
      by (auto simp: human_inv_def split: prod.splits dest!: zone_print_zero)
  next
    case (EvRequest rid rd)
    then show ?thesis using assms RxEvent on_request_inv [of rnd env h rid rd ops h' c] by auto
  next
    case (EvResponse rid st hs l)
    then show ?thesis using assms RxEvent on_response_inv [of env h rid st l ops h' c] by auto
  next
    case (EvComplete rid n d)
    then show ?thesis using assms RxEvent on_complete_inv [of env h rid n d ops h' c]
      by (auto intro: le_SucI length_filter_le)
  qed (use assms RxEvent in \<open>auto dest!: announce_inv\<close>)
qed

section \<open>The whole loop\<close>

text \<open>The permanent lines of a run, threaded through the states it passes.\<close>

fun permanent_run :: "(rat \<Rightarrow> rat) \<Rightarrow> build_info \<Rightarrow> human \<Rightarrow> (log_env \<times> event_result) list \<Rightarrow> string list" where
  "permanent_run rnd bi h [] = []"
| "permanent_run rnd bi h ((env, r) # rs) =
     permanent rnd bi env h r @
     (case human_step rnd bi env h r of
        Ok (_, h1, True) \<Rightarrow> permanent_run rnd bi h1 rs
      | _ \<Rightarrow> [])"

definition fresh_ids :: "human \<Rightarrow> (log_env \<times> event_result) list \<Rightarrow> bool" where
  "fresh_ids h rs \<longleftrightarrow> distinct (started_ids (map snd rs)) \<and>
     set (started_ids (map snd rs)) \<inter> set (h_active h) = {}"

lemma started_ids_Cons: "started_ids (r # rs) = started_ids [r] @ started_ids rs"
  by (cases r rule: started_ids.cases [of "[r]" for r]) (auto elim: started_ids.elims)

lemma fresh_ids_Cons:
  assumes "fresh_ids h ((env, r) # rs)"
  shows "\<forall>i \<in> set (started_ids [r]). i \<notin> set (h_active h)"
    and "set (h_active h1) \<subseteq> set (h_active h) \<union> set (started_ids [r]) \<Longrightarrow> fresh_ids h1 rs"
  using assms started_ids_Cons [of r "map snd rs"] by (auto simp: fresh_ids_def)

lemma human_run_shows:
  assumes "human_run rnd bi h rs = Ok (ops, h', c)" "human_inv h" "fresh_ids h rs"
    and "length (h_active h) + length rs < 65535" "screen_shows scr (h_lines h) perm"
  shows "human_inv h' \<and> screen_shows (screen_after scr ops) (h_lines h') (perm @ permanent_run rnd bi h rs)"
  using assms
proof (induction rs arbitrary: h ops scr perm)
  case (Cons e rs)
  obtain env r where e: "e = (env, r)" by fastforce
  with Cons.prems(1) obtain ops1 h1 c1 where step: "human_step rnd bi env h r = Ok (ops1, h1, c1)"
    by (auto simp: obind_Ok_iff)
  have inv1: "human_inv h1" "set (h_active h1) \<subseteq> set (h_active h) \<union> set (started_ids [r])"
    "length (h_active h1) \<le> Suc (length (h_active h))"
    using human_step_inv [OF step Cons.prems(2)] fresh_ids_Cons(1) Cons.prems(3) e by auto
  have "h_lines h < 65536" using Cons.prems(2,4) by (simp add: human_inv_def)
  then have shows1: "screen_shows (screen_after scr ops1) (h_lines h1) (perm @ permanent rnd bi env h r)"
    using human_step_shows [OF step] Cons.prems(5) by simp
  show ?case
  proof (cases c1)
    case False
    with Cons.prems(1) e step inv1 shows1 show ?thesis by auto
  next
    case True
    with Cons.prems(1) e step obtain ops2 where
      rest: "human_run rnd bi h1 rs = Ok (ops2, h', c)" and ops: "ops = ops1 @ ops2"
      by (auto simp: obind_Ok_iff)
    have "fresh_ids h1 rs" using fresh_ids_Cons(2) Cons.prems(3) e inv1(2) by simp
    from Cons.IH [OF rest inv1(1) this _ shows1] inv1(3) Cons.prems(4) ops e step True
    show ?thesis by simp
  qed
qed simp

text \<open>With ASCII paths the log never panics.\<close>

definition ascii_paths :: "human \<Rightarrow> bool" where
  "ascii_paths h \<longleftrightarrow> (\<forall>st \<in> ran (map_of (h_requests h)). ascii (rs_path st))"

fun ascii_event :: "event_result \<Rightarrow> bool" where
  "ascii_event (RxEvent (EvRequest rid r)) = ascii (rd_path r)"
| "ascii_event _ = True"

lemma then_redraw_no_panic:
  assumes "ascii_paths h"
  shows "\<not> is_panic (then_redraw env h ops)"
proof -
  have "\<not> is_panic (active_lines (format_active_line env) ids (h_requests h))" for ids
    using assms by (intro active_lines_no_panic format_lines_no_panic) (auto simp: ascii_paths_def ran_def)
  then show ?thesis by (auto simp: then_redraw_def zone_redraw_def split: prod.splits)
qed

lemma ascii_paths_simps [simp]:
  "ascii_paths (h\<lparr>h_lines := n\<rparr>) = ascii_paths h"
  "ascii_paths (h\<lparr>h_lines := n, h_requests := m\<rparr>) = ascii_paths (h\<lparr>h_requests := m\<rparr>)"
  by (simp_all add: ascii_paths_def)

lemma ascii_paths_request:
  assumes "ascii_paths h" "ascii (rs_path st)"
  shows "ascii_paths (h\<lparr>h_bucket := b, h_skipped := k, h_lines := n,
    h_requests := map_insert i st (h_requests h), h_active := a\<rparr>)"
  using assms by (auto simp: ascii_paths_def ran_def)

lemma ascii_paths_response:
  assumes "ascii_paths h" "map_of (h_requests h) i = Some st"
  shows "ascii_paths (h\<lparr>h_requests := map_insert i (st\<lparr>rs_status := a, rs_latency_ms := b\<rparr>) (h_requests h)\<rparr>)"
  using assms by (auto simp: ascii_paths_def ran_def)

lemma ascii_paths_delete: "ascii_paths h \<Longrightarrow> h_requests h' = AList.delete i (h_requests h) \<Longrightarrow> ascii_paths h'"
  by (auto simp: ascii_paths_def ran_def delete_conv' split: if_splits)

lemma ascii_paths_same: "ascii_paths h \<Longrightarrow> h_requests h' = h_requests h \<Longrightarrow> ascii_paths h'"
  by (simp add: ascii_paths_def)

lemma ascii_paths_map_of: "ascii_paths h \<Longrightarrow> map_of (h_requests h) i = Some st \<Longrightarrow> ascii (rs_path st)"
  by (auto simp: ascii_paths_def ran_def)

definition safe_turn :: "(string, turn) outcome \<Rightarrow> bool" where
  "safe_turn m \<longleftrightarrow> \<not> is_panic m \<and> (\<forall>ops h c. m = Ok (ops, h, c) \<longrightarrow> ascii_paths h)"

lemma safe_then_redraw: "ascii_paths h \<Longrightarrow> safe_turn (then_redraw env h ops)"
  using then_redraw_no_panic [of h env ops] then_redraw_frame [of env h ops]
  by (auto simp: safe_turn_def) (metis ascii_paths_simps(1))

lemma safe_Ok [simp]: "safe_turn (Ok (ops, h, c)) \<longleftrightarrow> ascii_paths h"
  by (simp add: safe_turn_def)

lemma safe_announce: "ascii_paths h \<Longrightarrow> safe_turn (announce env h ls)"
  by (auto simp: announce_def safe_then_redraw split: prod.splits)

lemma safe_on_complete: 
  assumes "ascii_paths h"
  shows "safe_turn (on_complete env h rid n d)"
proof (cases "map_of (h_requests h) rid")
  case None
  with assms show ?thesis by (simp add: on_complete_def)
next
  case (Some st)
  then have "\<not> is_panic (format_complete_line env st d n)"
    using assms by (intro format_lines_no_panic) (rule ascii_paths_map_of)
  moreover have "format_complete_line env st d n \<noteq> Err e" for e
    by (simp add: format_complete_line_def Let_def obind_Err_iff)
  ultimately obtain line where "format_complete_line env st d n = Ok line"
    by (cases "format_complete_line env st d n") auto
  with Some assms show ?thesis
    by (auto simp: on_complete_def split: prod.splits intro!: safe_then_redraw intro: ascii_paths_delete)
qed

lemma safe_human_step:
  assumes "ascii_paths h" "ascii_event r"
  shows "safe_turn (human_step rnd bi env h r)"
proof (cases r)
  case (RxEvent ev)
  show ?thesis
  proof (cases ev)
    case (EvRequest rid rd)
    then show ?thesis using assms RxEvent
      by (auto simp: on_request_def new_req_state_def split: prod.splits bool.splits
        intro!: safe_then_redraw ascii_paths_request intro: ascii_paths_same)
  next
    case (EvResponse rid st hs l)
    then show ?thesis using assms RxEvent
      by (auto simp: on_response_def split: prod.splits option.splits
        intro!: safe_then_redraw ascii_paths_response)
  qed (use assms RxEvent in \<open>auto simp: safe_announce safe_on_complete split: prod.splits intro!: safe_then_redraw\<close>)
qed (use assms in \<open>auto simp: ascii_paths_def split: prod.splits\<close>)

lemma safe_human_run:
  assumes "ascii_paths h" "\<forall>e \<in> set rs. ascii_event (snd e)"
  shows "\<not> is_panic (human_run rnd bi h rs)"
  using assms
proof (induction rs arbitrary: h)
  case (Cons e rs)
  obtain env r where e: "e = (env, r)" by fastforce
  have "safe_turn (human_step rnd bi env h r)" using Cons.prems e by (simp add: safe_human_step)
  with Cons e show ?case by (auto simp: safe_turn_def)
qed simp

section \<open>Properties\<close>

text \<open>
  C8. The terminal shows what the log means: after a run of the human log, the lines above the live
  zone are exactly the permanent lines of the events, in order (nothing erased, nothing of the zone
  left behind), and the bookkeeping of the requests in flight is consistent. This is for a run that
  did not panic, of fewer than 65535 results (the cursor moves by a 16-bit count) whose requests have
  distinct ids, on the ideal terminal of \<open>screen_op\<close>: no line wraps, and the zone fits on the screen.
\<close>

theorem human_log_screen:
  assumes "human_run rnd bi (human_new now) rs = Ok (ops, h, c)"
    and "distinct (started_ids (map snd rs))" "length rs < 65535"
  shows "human_inv h \<and> screen_shows (screen_after [] ops) (h_lines h) (permanent_run rnd bi (human_new now) rs)"
proof -
  have "fresh_ids (human_new now) rs" using assms(2) by (simp add: fresh_ids_def human_new_def)
  from human_run_shows [OF assms(1) human_inv_new this, of "[]" "[]"] assms(3) show ?thesis
    by (simp add: human_new_def)
qed

definition test_env :: log_env where
  "test_env = \<lparr>le_now = 0, le_time = ''12:00'', le_rfc2822 = ''now'', le_pid = 7, le_elapsed = (\<lambda>n. ''0.0'')\<rparr>"

definition test_build :: build_info where
  "test_build = \<lparr>pkg_version = ''1'', nu_version = ''2'', xs_version = None\<rparr>"

definition test_request_data :: request_data where
  "test_request_data = \<lparr>rd_proto = ''HTTP/1.1'', rd_method = ''GET'', rd_remote_ip = None, rd_remote_port = None,
     rd_trusted_ip = None, rd_headers = [], rd_uri = ''/'', rd_path = ''/'', rd_query = []\<rparr>"

theorem human_log_screen_witness:
  "\<exists>ops h c. human_run (\<lambda>x. x) test_build (human_new 0)
      [(test_env, RxEvent (EvRequest ''1'' test_request_data)), (test_env, RxEvent (EvPrint ''hello''))] = Ok (ops, h, c) \<and>
    screen_shows (screen_after [] ops) (h_lines h) [''PRINT: hello'']"
proof -
  let ?rs = "[(test_env, RxEvent (EvRequest ''1'' test_request_data)), (test_env, RxEvent (EvPrint ''hello''))]"
  note defs = human_new_def bucket_new_def on_request_def try_consume_def as_secs_exact then_redraw_def zone_redraw_def
    zone_clear_def zone_print_def announce_def new_req_state_def test_request_data_def map_insert_def
    format_active_line_def truncate_middle_def test_env_def Let_def
  have "case human_run (\<lambda>x. x) test_build (human_new 0) ?rs of Ok r \<Rightarrow> True | _ \<Rightarrow> False" by (simp add: defs)
  then obtain ops h c where r: "human_run (\<lambda>x. x) test_build (human_new 0) ?rs = Ok (ops, h, c)"
    by (cases "human_run (\<lambda>x. x) test_build (human_new 0) ?rs") auto
  have p: "permanent_run (\<lambda>x. x) test_build (human_new 0) ?rs = [''PRINT: hello'']" by (simp add: defs)
  from human_log_screen [OF r] p r show ?thesis by auto
qed

text \<open>
  As long as the paths are ASCII no run of the human log panics. (A path with multi-byte
  characters can: \<open>truncate_middle\<close> cuts at byte offsets.)
\<close>

theorem human_log_no_panic:
  assumes "\<forall>e\<in>set rs. ascii_event (snd e)"
  shows "\<not> is_panic (human_run rnd bi (human_new now) rs)"
  using assms by (intro safe_human_run) (simp_all add: ascii_paths_def human_new_def)

theorem human_log_no_panic_witness:
  "\<not> is_panic (human_run (\<lambda>x. x) test_build (human_new 0)
     [(test_env, RxEvent (EvRequest ''1'' (test_request_data\<lparr>rd_path := replicate 60 CHR ''a''\<rparr>)))])"
  by (rule human_log_no_panic) (simp add: test_request_data_def ascii_def byte_of_def)

end
