(* ===== verification/Listener.thy ===== *)
theory Listener
  imports Request
begin

text \<open>
  Where the server listens (\<open>src/listener.rs\<close>) and how it shows its address (\<open>serve\<close> in
  \<open>src/main.rs\<close>): TCP with or without TLS, or a Unix domain socket. Sockets, PEM files, certificates
  and handshakes are arguments; the file system is a map from directory entries to what is there, and
  which entry a path names is an argument too (\<open>./x\<close> and \<open>x\<close> name the same).
\<close>

datatype io_kind = NotFound | InvalidData | InvalidInput | ConnectionAborted | OtherIo

type_synonym io_err = "io_kind \<times> string"

section \<open>TLS\<close>

record ('cert, 'key, 'cfg) pem_lib =
  pem_open :: "string \<Rightarrow> string + bytes"
  pem_certs :: "bytes \<Rightarrow> string + 'cert list"
  pem_rewind :: "io_err option"
  pem_private_key :: "bytes \<Rightarrow> string + 'key option"
  tls_single_cert :: "'cert list \<Rightarrow> 'key \<Rightarrow> string + 'cfg"
  tls_set_alpn :: "string list \<Rightarrow> 'cfg \<Rightarrow> 'cfg"

definition invalid_data :: "string \<Rightarrow> (string + 'a) \<Rightarrow> (io_err, 'a) outcome" where
  "invalid_data title r = (case r of Inr x \<Rightarrow> Ok x | Inl e \<Rightarrow> Err (InvalidData, title @ e))"

definition tls_from_pem :: "('cert, 'key, 'cfg) pem_lib \<Rightarrow> string \<Rightarrow> (io_err, 'cfg) outcome" where
  "tls_from_pem P pem_path =
     obind (case pem_open P pem_path of
              Inr pem \<Rightarrow> Ok pem
            | Inl e \<Rightarrow> Err (NotFound, ''Failed to open PEM file '' @ pem_path @ '': '' @ e)) (\<lambda>pem.
     obind (invalid_data ''Invalid certificate: '' (pem_certs P pem)) (\<lambda>certs.
     obind (if certs = [] then Err (InvalidData, ''No certificates found'') else Ok ()) (\<lambda>_.
     obind (case pem_rewind P of Some e \<Rightarrow> Err e | None \<Rightarrow> Ok ()) (\<lambda>_.
     obind (invalid_data ''Invalid private key: '' (pem_private_key P pem)) (\<lambda>k.
     obind (of_option (InvalidData, ''No private key found'') k) (\<lambda>key.
     obind (invalid_data ''TLS config error: '' (tls_single_cert P certs key)) (\<lambda>config.
       Ok (tls_set_alpn P [''h2'', ''http/1.1''] config))))))))"

section \<open>Binding\<close>

text \<open>
  The file system by directory entries: an entry is named by its own absolute name, without dots or
  symbolic links in its directory. Removing and binding do not follow a link that is the entry itself.
\<close>

datatype file_node = Socket_File | Regular_File bytes | Symbolic_Link string | Directory

type_synonym file_system = "string \<Rightarrow> file_node option"

datatype 'cfg listener = Tcp ip_addr "16 word" "'cfg option" | Unix string

text \<open>
  \<open>sk_tcp\<close> binds a TCP socket to the address a text names; \<open>sk_unix\<close> is the error the system gives
  for a socket at a path where nothing is, if any; \<open>sk_may_remove\<close> tells whether the process may remove
  what is at a path; \<open>sk_entry\<close> is the entry a path names (from the process's directory, links and dots
  before its last part resolved).
\<close>

record sockets =
  sk_tcp :: "string \<Rightarrow> io_err + ip_addr \<times> 16 word"
  sk_unix :: "string \<Rightarrow> io_err option"
  sk_may_remove :: "string \<Rightarrow> bool"
  sk_entry :: "string \<Rightarrow> string"

definition is_unix_path :: "string \<Rightarrow> bool" where
  "is_unix_path addr \<longleftrightarrow> starts_with addr ''/'' \<or> starts_with addr ''.''"

text \<open>
  The build decides which of two copies of the rest of \<open>bind\<close> there is: they differ in what is a path.
\<close>

datatype platform = Unix_Build | Windows_Build

definition is_windows_path :: "string \<Rightarrow> bool" where
  "is_windows_path s =
     (case s of
        a # b # c # _ \<Rightarrow>
          (65 \<le> byte_of a \<and> byte_of a \<le> 90 \<or> 97 \<le> byte_of a \<and> byte_of a \<le> 122) \<and> b = CHR '':'' \<and>
          (c = CHR 0x5C \<or> c = CHR ''/'')
      | _ \<Rightarrow> False)"

definition socket_path :: "platform \<Rightarrow> string \<Rightarrow> bool" where
  "socket_path pl addr \<longleftrightarrow> is_unix_path addr \<or> pl = Windows_Build \<and> is_windows_path addr"

text \<open>\<open>std::fs::remove_file\<close> with its error ignored: a directory stays.\<close>

definition remove_file :: "sockets \<Rightarrow> string \<Rightarrow> file_system \<Rightarrow> file_system" where
  "remove_file S p fs = (if fs (sk_entry S p) = Some Directory \<or> \<not> sk_may_remove S p then fs else fs(sk_entry S p := None))"

definition unix_bind :: "sockets \<Rightarrow> string \<Rightarrow> file_system \<Rightarrow> (io_err, unit) outcome \<times> file_system" where
  "unix_bind S p fs =
     (if fs (sk_entry S p) \<noteq> None then (Err (OtherIo, ''Address already in use''), fs)
      else (case sk_unix S p of Some e \<Rightarrow> (Err e, fs) | None \<Rightarrow> (Ok (), fs(sk_entry S p \<mapsto> Socket_File))))"

definition tcp_address :: "string \<Rightarrow> string" where
  "tcp_address addr = (if starts_with addr '':'' then ''127.0.0.1'' @ addr else addr)"

definition listener_bind :: "platform \<Rightarrow> sockets \<Rightarrow> string \<Rightarrow> 'cfg option \<Rightarrow> file_system \<Rightarrow>
    (io_err, 'cfg listener) outcome \<times> file_system" where
  "listener_bind pl S addr tls_config fs =
     (if socket_path pl addr then
        if tls_config \<noteq> None then (Err (InvalidInput, ''TLS is not supported with Unix domain sockets''), fs)
        else
          (case unix_bind S addr (remove_file S addr fs) of
             (res, fs') \<Rightarrow> (obind res (\<lambda>_. Ok (Unix addr)), fs'))
      else
        (case sk_tcp S (tcp_address addr) of
           Inl e \<Rightarrow> (Err e, fs)
         | Inr (ip, port) \<Rightarrow> (Ok (Tcp ip port tls_config), fs)))"

section \<open>Accepting\<close>

datatype transport = Plain_Tcp | Tls_Tcp | Unix_Stream

text \<open>
  \<open>Listener::accept\<close>: \<open>incoming\<close> is what the socket's \<open>accept\<close> returns, with the peer's address for
  TCP, and \<open>handshake\<close> the error of the TLS handshake, if it fails.
\<close>

definition listener_accept :: "'cfg listener \<Rightarrow> io_err + ip_addr \<times> 16 word \<Rightarrow> string option \<Rightarrow>
    (io_err, transport \<times> (ip_addr \<times> 16 word) option) outcome" where
  "listener_accept l incoming handshake =
     (case incoming of
        Inl e \<Rightarrow> Err e
      | Inr addr \<Rightarrow>
          (case l of
             Tcp ip port tls \<Rightarrow>
               (case tls of
                  Some cfg \<Rightarrow>
                    (case handshake of
                       None \<Rightarrow> Ok (Tls_Tcp, Some addr)
                     | Some e \<Rightarrow> Err (ConnectionAborted, ''TLS error: '' @ e))
                | None \<Rightarrow> Ok (Plain_Tcp, Some addr))
           | Unix p \<Rightarrow> Ok (Unix_Stream, None)))"

text \<open>A Unix listener cannot be cloned.\<close>

definition listener_clone :: "'cfg listener \<Rightarrow> (io_err, 'cfg listener) outcome" where
  "listener_clone l = (case l of Tcp ip port tls \<Rightarrow> Ok (Tcp ip port tls) | Unix p \<Rightarrow> Panic ''Cannot clone a Unix listener'')"

section \<open>The address shown\<close>

definition tls_suffix :: string where
  "tls_suffix = '' (TLS)''"

definition show_listener :: "(ip_addr \<Rightarrow> string) \<Rightarrow> 'cfg listener \<Rightarrow> string" where
  "show_listener show_ip l =
     (case l of
        Tcp ip port tls \<Rightarrow>
          show_ip ip @ '':'' @ nat_str (unat port) @ (if tls \<noteq> None then tls_suffix else [])
      | Unix p \<Rightarrow> p)"

definition address_display :: "bool \<Rightarrow> string \<Rightarrow> string" where
  "address_display tls_enabled raw =
     (if starts_with raw ''/'' then raw
      else
        (let addr = (case strip_suffix raw tls_suffix of Some a \<Rightarrow> a | None \<Rightarrow> raw) in
         if tls_enabled then ''https://'' @ addr else ''http://'' @ addr))"

section \<open>Laws\<close>

lemma starts_with_char: "starts_with s [c] \<longleftrightarrow> s \<noteq> [] \<and> hd s = c"
  by (cases s) (auto simp: starts_with_iff)

lemma nat_str_not_Nil [simp]: "nat_str n \<noteq> []"
  by (subst nat_str.simps) simp

lemma char_of_digit: "n < 10 \<Longrightarrow> byte_of (char_of (48 + n)) = 48 + n"
  by (simp add: byte_of_def)

lemma nat_str_digits: "c \<in> set (nat_str n) \<Longrightarrow> 48 \<le> byte_of c \<and> byte_of c \<le> 57"
proof (induction n rule: nat_str.induct)
  case (1 n)
  show ?case
  proof (cases "n < 10")
    case True
    with 1(2) char_of_digit [of n] show ?thesis by (simp add: nat_str.simps [of n])
  next
    case False
    with 1 char_of_digit [of "n mod 10"] show ?thesis by (auto simp: nat_str.simps [of n])
  qed
qed

lemma nat_str_no_suffix: "strip_suffix (s @ nat_str n) tls_suffix = None"
proof -
  have "byte_of (last (nat_str n)) \<le> 57 \<and> 48 \<le> byte_of (last (nat_str n))" using nat_str_digits [OF last_in_set [of "nat_str n"]] by simp
  moreover have "byte_of (CHR '')'') = 41" by code_simp
  ultimately have last: "last (s @ nat_str n) \<noteq> CHR '')''" by auto
  have "last (r @ tls_suffix) = CHR '')''" for r by (simp add: tls_suffix_def)
  with last have "s @ nat_str n \<noteq> r @ tls_suffix" for r by metis
  then show ?thesis using strip_suffix_Some_iff by (metis not_None_eq)
qed

lemma strip_suffix_append [simp]: "strip_suffix (s @ p) p = Some s"
  by (simp add: strip_suffix_Some_iff)

section \<open>Properties\<close>

text \<open>
  C33. Binding touches at most the directory entry the socket's path names, in both builds and by
  whatever path that entry is named: TCP, and a path with TLS, leave the file system alone; a Unix
  listener is never encrypted; otherwise, unless it is a directory or may not be removed (then it
  stays and binding fails on it), what was at the entry is gone, a regular file or a link as well as a
  socket, even when binding then fails.
\<close>

theorem bind_file_system:
  assumes "listener_bind pl S addr tls fs = (res, fs')"
  shows "(\<forall>q. q \<noteq> sk_entry S addr \<longrightarrow> fs' q = fs q) \<and>
    (if socket_path pl addr \<and> tls = None \<and> fs (sk_entry S addr) \<noteq> Some Directory \<and> sk_may_remove S addr
     then (res = Ok (Unix addr) \<and> fs' (sk_entry S addr) = Some Socket_File \<or>
       (\<exists>e. res = Err e) \<and> fs' (sk_entry S addr) = None)
     else fs' (sk_entry S addr) = fs (sk_entry S addr) \<or>
       (socket_path pl addr \<and> fs (sk_entry S addr) = None \<and> res = Ok (Unix addr))) \<and>
    (socket_path pl addr \<and> tls = None \<and> fs (sk_entry S addr) \<noteq> None \<and>
      (fs (sk_entry S addr) = Some Directory \<or> \<not> sk_may_remove S addr) \<longrightarrow> (\<exists>e. res = Err e)) \<and>
    (\<forall>l. res = Ok l \<longrightarrow>
      (if socket_path pl addr then l = Unix addr \<and> tls = None
       else \<exists>ip port. sk_tcp S (tcp_address addr) = Inr (ip, port) \<and> l = Tcp ip port tls))"
proof (cases "socket_path pl addr \<and> tls = None")
  case True
  then obtain r where r: "unix_bind S addr (remove_file S addr fs) = (r, fs')" and res: "res = obind r (\<lambda>_. Ok (Unix addr))"
    using assms by (cases "unix_bind S addr (remove_file S addr fs)") (simp add: listener_bind_def)
  show ?thesis
  proof (cases "fs (sk_entry S addr) = Some Directory \<or> \<not> sk_may_remove S addr")
    case True
    then have rm: "remove_file S addr fs = fs" by (simp add: remove_file_def)
    from r [unfolded rm] res True \<open>socket_path pl addr \<and> tls = None\<close> show ?thesis
      by (auto simp: unix_bind_def split: if_splits option.splits)
  next
    case False
    then have rm: "remove_file S addr fs = fs(sk_entry S addr := None)" by (simp add: remove_file_def)
    from r [unfolded rm] res False \<open>socket_path pl addr \<and> tls = None\<close> show ?thesis
      by (auto simp: unix_bind_def split: option.splits)
  qed
next
  case False
  with assms show ?thesis
    by (auto simp: listener_bind_def split: if_splits sum.splits)
qed

definition toy_sockets :: sockets where
  "toy_sockets = \<lparr>sk_tcp = (\<lambda>a. Inr (V4 0x7F000001, 3001)), sk_unix = (\<lambda>p. None), sk_may_remove = (\<lambda>p. True),
     sk_entry = (\<lambda>p. if starts_with p ''./'' then ''/srv/'' @ drop 2 p else p)\<rparr>"

theorem bind_file_system_witness:
  "fst (listener_bind Unix_Build toy_sockets ''./serve.nu'' (None :: unit option) [''/srv/serve.nu'' \<mapsto> Regular_File ''x'']) = Ok (Unix ''./serve.nu'') \<and>
    snd (listener_bind Unix_Build toy_sockets ''./serve.nu'' (None :: unit option) [''/srv/serve.nu'' \<mapsto> Regular_File ''x'']) ''/srv/serve.nu'' = Some Socket_File"
proof -
  let ?b = "listener_bind Unix_Build toy_sockets ''./serve.nu'' (None :: unit option) [''/srv/serve.nu'' \<mapsto> Regular_File ''x'']"
  have u: "socket_path Unix_Build ''./serve.nu''" by code_simp
  have b: "?b = (fst ?b, snd ?b)" by simp
  have entry: "sk_entry toy_sockets ''./serve.nu'' = ''/srv/serve.nu''" by code_simp
  have no_err: "fst ?b \<noteq> Err e" for e
    by (simp add: listener_bind_def u unix_bind_def remove_file_def toy_sockets_def)
  have toy: "sk_may_remove toy_sockets p" for p by (simp add: toy_sockets_def)
  show ?thesis
    using bind_file_system [OF b, THEN conjunct2, THEN conjunct1] u toy no_err entry by simp
qed

text \<open>
  The address the server announces: for TCP the scheme its TLS setting asks for and the bound
  address and port, without the listener's TLS mark (an IPv6 address stands without brackets); for
  a Unix socket its path when that is absolute, but a relative path gets a scheme as if it were a
  host.
\<close>

theorem address_shown:
  assumes "\<And>ip. show_ip ip \<noteq> [] \<and> hd (show_ip ip) \<noteq> CHR ''/''"
    and "listener_bind pl S addr tls fs = (Ok l, fs')"
  shows "address_display (tls \<noteq> None) (show_listener show_ip l) =
    (case l of
       Tcp ip port cfg \<Rightarrow> (if tls = None then ''http://'' else ''https://'') @ show_ip ip @ '':'' @ nat_str (unat port)
     | Unix p \<Rightarrow> if starts_with p ''/'' then p
         else ''http://'' @ (case strip_suffix p tls_suffix of Some a \<Rightarrow> a | None \<Rightarrow> p))"
proof (cases l)
  case (Tcp ip port cfg)
  then have tls: "cfg = tls" using assms(2)
    by (auto simp: listener_bind_def split: if_splits prod.splits sum.splits) (simp_all add: outcome_simps)
  have "\<not> starts_with (show_ip ip @ x) ''/''" for x using assms(1) [of ip] by (simp add: starts_with_char)
  moreover have "strip_suffix (show_ip ip @ '':'' @ nat_str (unat port)) tls_suffix = None"
    using nat_str_no_suffix [of "show_ip ip @ '':''" "unat port"] by simp
  moreover have "strip_suffix (show_ip ip @ '':'' @ nat_str (unat port) @ tls_suffix) tls_suffix =
      Some (show_ip ip @ '':'' @ nat_str (unat port))"
    by (simp add: strip_suffix_Some_iff)
  ultimately show ?thesis using Tcp tls by (simp add: address_display_def show_listener_def)
next
  case (Unix p)
  then have "tls = None" using assms(2)
    by (auto simp: listener_bind_def split: if_splits prod.splits sum.splits)
  with Unix show ?thesis by (simp add: address_display_def show_listener_def)
qed

theorem address_shown_witness:
  "address_display True (show_listener (\<lambda>ip. ''::1'') (Tcp (V6 1) 3001 (Some ()))) = ''https://::1:3001''"
proof -
  let ?S = "toy_sockets\<lparr>sk_tcp := (\<lambda>a. Inr (V6 1, 3001))\<rparr>"
  have bind: "listener_bind Unix_Build ?S ''[::1]:3001'' (Some ()) (\<lambda>p. None) = (Ok (Tcp (V6 1) 3001 (Some ())), \<lambda>p. None)"
    by (simp add: listener_bind_def socket_path_def is_unix_path_def starts_with_char)
  have "nat_str 3001 = ''3001''" by code_simp
  with address_shown [of "\<lambda>ip. ''::1''", OF _ bind] show ?thesis by simp
qed

end
