(* ===== verification/Sources.thy ===== *)
theory Sources
  imports Engine Topic_Store
begin

text \<open>
  Where scripts come from (\<open>src/main.rs\<close>: \<open>file_source\<close>, \<open>stdin_source\<close>; \<open>src/store.rs\<close>:
  \<open>topic_source\<close> and its watcher). Every source turns scripts into engines, one after the other, and
  sends them to the server; file events, standard input and the frames of a topic are sequences of
  what the calls deliver.
\<close>

section \<open>Offering a script\<close>

text \<open>
  What a source has done: the engines sent, the log entries, what it printed on standard error, and
  the next unused cancellation token.
\<close>

record 'st source_out =
  so_sent :: "'st engine list"
  so_log :: "string list"
  so_err :: "string list"
  so_next :: nat

definition source_start :: "nat \<Rightarrow> 'st source_out" where
  "source_start t = \<lparr>so_sent = [], so_log = [], so_err = [], so_next = t\<rparr>"

definition eprint :: "string \<Rightarrow> 'st source_out \<Rightarrow> 'st source_out" where
  "eprint m s = s\<lparr>so_err := so_err s @ [m]\<rparr>"

text \<open>
  \<open>script_to_engine\<close> and, if there is an engine, \<open>send\<close>: whether the source goes on. \<open>accepts n\<close>
  tells whether the server still receives after \<open>n\<close> engines.
\<close>

definition offer :: "('st, 'b, 'd, 'k) nushell \<Rightarrow> (nat \<Rightarrow> bool) \<Rightarrow> 'st engine \<Rightarrow> string \<Rightarrow> string option \<Rightarrow>
    'st source_out \<Rightarrow> (string, bool) outcome \<times> 'st source_out" where
  "offer N accepts base script file s =
     (case script_to_engine N (so_next s) base script file of
        (result, log) \<Rightarrow>
          let s' = s\<lparr>so_log := so_log s @ log, so_next := Suc (so_next s)\<rparr> in
          (case result of
             Ok None \<Rightarrow> (Ok True, s')
           | Ok (Some eng) \<Rightarrow>
               if accepts (length (so_sent s')) then (Ok True, s'\<lparr>so_sent := so_sent s' @ [eng]\<rparr>) else (Ok False, s')
           | Err e \<Rightarrow> (Err e, s')
           | Panic m \<Rightarrow> (Panic m, s')))"

text \<open>The first script of a source: \<open>expect("channel closed unexpectedly")\<close>.\<close>

definition offer_first :: "('st, 'b, 'd, 'k) nushell \<Rightarrow> (nat \<Rightarrow> bool) \<Rightarrow> 'st engine \<Rightarrow> string \<Rightarrow> string option \<Rightarrow>
    'st source_out \<Rightarrow> (string, unit) outcome \<times> 'st source_out" where
  "offer_first N accepts base script file s =
     (case offer N accepts base script file s of
        (res, s') \<Rightarrow>
          (obind res (\<lambda>sent. if sent then Ok () else Panic ''channel closed unexpectedly''), s'))"

section \<open>Files\<close>

text \<open>
  \<open>file_source\<close> up to the watcher; an error ends the process. \<open>content\<close> and \<open>canonical\<close> are what
  \<open>read_to_string\<close> and \<open>canonicalize\<close> return.
\<close>

definition file_source :: "('st, 'b, 'd, 'k) nushell \<Rightarrow> (nat \<Rightarrow> bool) \<Rightarrow> 'st engine \<Rightarrow> string \<Rightarrow>
    (string, string) outcome \<Rightarrow> (string, string) outcome \<Rightarrow> 'st source_out \<Rightarrow>
    (string, unit) outcome \<times> 'st source_out" where
  "file_source N accepts base path content canonical s =
     (case content of
        Err e \<Rightarrow> (Err ''exit 1'', eprint (''Error reading '' @ path @ '': '' @ e) s)
      | Panic m \<Rightarrow> (Panic m, s)
      | Ok script \<Rightarrow>
          (case canonical of
             Err e \<Rightarrow> (Err ''exit 1'', eprint (''Error resolving '' @ path @ '': '' @ e) s)
           | Panic m \<Rightarrow> (Panic m, s)
           | Ok script_path \<Rightarrow> offer_first N accepts base script (Some script_path) s))"

text \<open>
  What \<open>recv_timeout\<close> delivers to the watcher: an event, of a kind that counts as a change or not;
  an error; the timeout, with what reading the file would give then (an error or its text); or the end of the watcher.
\<close>

datatype watch_input =
    FsEvent bool
  | FsError string
  | FsQuiet "string + string"
  | FsGone

text \<open>How long it waits, in milliseconds: 100 when a reload is pending, else a day.\<close>

definition watch_timeout :: "bool \<Rightarrow> nat" where
  "watch_timeout pending_reload = (if pending_reload then 100 else 86400 * 1000)"

fun watch_loop :: "('st, 'b, 'd, 'k) nushell \<Rightarrow> (nat \<Rightarrow> bool) \<Rightarrow> 'st engine \<Rightarrow> string \<Rightarrow> bool \<Rightarrow> watch_input list \<Rightarrow>
    'st source_out \<Rightarrow> (string, unit) outcome \<times> 'st source_out" where
  "watch_loop N accepts base path pending [] s = (Ok (), s)"
| "watch_loop N accepts base path pending (FsEvent change # inputs) s =
     watch_loop N accepts base path (pending \<or> change) inputs s"
| "watch_loop N accepts base path pending (FsError e # inputs) s =
     watch_loop N accepts base path pending inputs (eprint (''Watch error: '' @ e) s)"
| "watch_loop N accepts base path pending (FsQuiet content # inputs) s =
     (if pending then
        (case content of
           Inr script \<Rightarrow>
             (case offer N accepts base script (Some path) s of
                (res, s') \<Rightarrow>
                  (case res of
                     Ok go \<Rightarrow> if go then watch_loop N accepts base path False inputs s' else (Ok (), s')
                   | Err e \<Rightarrow> (Err e, s')
                   | Panic m \<Rightarrow> (Panic m, s')))
         | Inl e \<Rightarrow> watch_loop N accepts base path False inputs (eprint (''Error reading script file: '' @ e) s))
      else watch_loop N accepts base path pending inputs s)"
| "watch_loop N accepts base path pending (FsGone # inputs) s = (Ok (), s)"

section \<open>Standard input\<close>

text \<open>
  \<open>String::from_utf8_lossy\<close>: every maximal prefix of a sequence that cannot go on becomes U+FFFD.
  \<open>utf8_seq\<close> tells, for a byte that is not ASCII and the bytes after it, whether a character starts
  there, and how many of the bytes after it belong to the sequence.
\<close>

definition seq_second :: "char \<Rightarrow> char \<Rightarrow> bool" where
  "seq_second c d \<longleftrightarrow> is_cont d \<and>
     (byte_of c = 224 \<longrightarrow> 160 \<le> byte_of d) \<and> (byte_of c = 237 \<longrightarrow> byte_of d < 160) \<and>
     (byte_of c = 240 \<longrightarrow> 144 \<le> byte_of d) \<and> (byte_of c = 244 \<longrightarrow> byte_of d < 144)"

definition seq_width :: "char \<Rightarrow> nat" where
  "seq_width c =
     (if 194 \<le> byte_of c \<and> byte_of c < 224 then 2
      else if 224 \<le> byte_of c \<and> byte_of c < 240 then 3
      else if 240 \<le> byte_of c \<and> byte_of c \<le> 244 then 4
      else 0)"

definition utf8_seq :: "char \<Rightarrow> bytes \<Rightarrow> bool \<times> nat" where
  "utf8_seq c cs =
     (let w = seq_width c in
      if w = 0 then (False, 0)
      else (case cs of
              [] \<Rightarrow> (False, 0)
            | d # ds \<Rightarrow>
                if \<not> seq_second c d then (False, 0)
                else let n = length (takeWhile is_cont (take (w - 2) ds)) in (n = w - 2, Suc n)))"

function utf8_lossy :: "bytes \<Rightarrow> string" where
  "utf8_lossy [] = []"
| "utf8_lossy (c # cs) =
     (if byte_of c < 128 then c # utf8_lossy cs
      else (case utf8_seq c cs of
              (valid, n) \<Rightarrow>
                (if valid then c # take n cs else [CHR 0xEF, CHR 0xBF, CHR 0xBD]) @ utf8_lossy (drop n cs)))"
  by pat_completeness auto
termination by (relation "measure length") auto

datatype stdin_read = StdinByte char | StdinError string

text \<open>One script: the bytes up to the next NUL or the end.\<close>

fun take_script :: "bytes \<Rightarrow> stdin_read list \<Rightarrow> (string, bytes \<times> stdin_read list) outcome" where
  "take_script buffer [] = Ok (buffer, [])"
| "take_script buffer (StdinByte b # rs) = (if byte_of b = 0 then Ok (buffer, rs) else take_script (buffer @ [b]) rs)"
| "take_script buffer (StdinError e # rs) = Err e"

lemma take_script_length: "take_script buffer rs = Ok (b, rest) \<Longrightarrow> length b + length rest \<le> length buffer + length rs"
  by (induction buffer rs rule: take_script.induct) (auto split: if_splits)

lemma take_script_rest: "take_script buffer rs = Ok (b, rest) \<Longrightarrow> length rest \<le> length rs"
  by (induction buffer rs rule: take_script.induct) (auto split: if_splits)

function stdin_loop :: "('st, 'b, 'd, 'k) nushell \<Rightarrow> (nat \<Rightarrow> bool) \<Rightarrow> 'st engine \<Rightarrow> stdin_read list \<Rightarrow> 'st source_out \<Rightarrow>
    (string, unit) outcome \<times> 'st source_out" where
  "stdin_loop N accepts base reads s =
     (case take_script [] reads of
        Ok (buffer, rest) \<Rightarrow>
          if buffer = [] then (Ok (), s)
          else
            (case offer N accepts base (utf8_lossy buffer) None s of
               (res, s') \<Rightarrow>
                 (case res of
                    Ok go \<Rightarrow> if go then stdin_loop N accepts base rest s' else (Ok (), s')
                  | Err e \<Rightarrow> (Err e, s')
                  | Panic m \<Rightarrow> (Panic m, s')))
      | Err e \<Rightarrow> (Ok (), eprint (''Error reading stdin: '' @ e) s)
      | Panic m \<Rightarrow> (Panic m, s))"
  by auto
termination
  by (relation "measure (\<lambda>(N, accepts, base, reads, s). length reads)")
    (auto dest!: take_script_length simp: neq_Nil_conv)

declare stdin_loop.simps [simp del]

text \<open>Without \<open>--watch\<close> the whole input is one script; \<open>content\<close> is what \<open>read_to_string\<close> returns.\<close>

definition stdin_source_once :: "('st, 'b, 'd, 'k) nushell \<Rightarrow> (nat \<Rightarrow> bool) \<Rightarrow> 'st engine \<Rightarrow>
    (string, string) outcome \<Rightarrow> 'st source_out \<Rightarrow> (string, unit) outcome \<times> 'st source_out" where
  "stdin_source_once N accepts base content s =
     (case content of
        Ok script \<Rightarrow> offer_first N accepts base script None s
      | _ \<Rightarrow> (Panic ''Failed to read from stdin'', s))"

section \<open>Topics\<close>

text \<open>
  \<open>te_load_modules\<close> loads the modules of the stream as of a frame into an engine state, with an
  error text if that fails; \<open>te_placeholder\<close> is the text of the embedded file
  \<open>examples/topic-placeholder.nu\<close>.
\<close>

record 'st topic_env =
  te_store :: topic_store
  te_path :: string
  te_load_modules :: "nat \<Rightarrow> 'st \<Rightarrow> string option \<times> 'st"
  te_placeholder :: string

text \<open>\<open>str::replace\<close> with a pattern that is not empty.\<close>

function replace_all :: "string \<Rightarrow> string \<Rightarrow> string \<Rightarrow> string" where
  "replace_all pat new [] = []"
| "replace_all pat new (c # s) =
     (case strip_prefix (c # s) pat of
        Some rest \<Rightarrow> if pat = [] then c # replace_all pat new s else new @ replace_all pat new rest
      | None \<Rightarrow> c # replace_all pat new s)"
  by pat_completeness auto
termination
  by (relation "measure (\<lambda>(pat, new, s). length s)") (auto simp: strip_prefix_Some_iff neq_Nil_conv)

definition placeholder_closure :: "string \<Rightarrow> string \<Rightarrow> string \<Rightarrow> string" where
  "placeholder_closure text topic store_path =
     replace_all ''__STORE_PATH__'' store_path (replace_all ''__TOPIC__'' topic text)"

definition enrich_engine :: "'st topic_env \<Rightarrow> 'st engine \<Rightarrow> nat option \<Rightarrow> string option \<times> 'st engine" where
  "enrich_engine E base as_of =
     (case as_of of
        None \<Rightarrow> (None, base)
      | Some i \<Rightarrow>
          (case te_load_modules E i (eg_state base) of
             (err, st) \<Rightarrow> (map_option (\<lambda>e. ''Error loading stream modules: '' @ e) err, base\<lparr>eg_state := st\<rparr>)))"

definition eprint_opt :: "string option \<Rightarrow> 'st source_out \<Rightarrow> 'st source_out" where
  "eprint_opt m s = (case m of None \<Rightarrow> s | Some t \<Rightarrow> eprint t s)"

text \<open>The first script and the frame it came from; the watcher starts after that frame.\<close>

definition topic_initial :: "'st topic_env \<Rightarrow> string \<Rightarrow> string \<times> nat option" where
  "topic_initial E topic =
     (case read_topic_content (te_store E) topic of
        Some (content, i) \<Rightarrow> (content, Some i)
      | None \<Rightarrow> (placeholder_closure (te_placeholder E) topic (te_path E), None))"

definition topic_source :: "('st, 'b, 'd, 'k) nushell \<Rightarrow> (nat \<Rightarrow> bool) \<Rightarrow> 'st topic_env \<Rightarrow> 'st engine \<Rightarrow> string \<Rightarrow>
    'st source_out \<Rightarrow> (string, unit) outcome \<times> 'st source_out" where
  "topic_source N accepts E base topic s =
     (case topic_initial E topic of
        (initial_script, last_id) \<Rightarrow>
          (case enrich_engine E base last_id of
             (err, enriched) \<Rightarrow> offer_first N accepts enriched initial_script None (eprint_opt err s)))"

record topic_frame =
  fr_id :: nat
  fr_topic :: string
  fr_hash :: "string option"

text \<open>The text of the decoding error, which holds a position, is left out.\<close>

fun topic_watcher :: "('st, 'b, 'd, 'k) nushell \<Rightarrow> (nat \<Rightarrow> bool) \<Rightarrow> 'st topic_env \<Rightarrow> 'st engine \<Rightarrow> string \<Rightarrow>
    topic_frame list \<Rightarrow> 'st source_out \<Rightarrow> (string, unit) outcome \<times> 'st source_out" where
  "topic_watcher N accepts E base topic [] s = (Ok (), s)"
| "topic_watcher N accepts E base topic (f # fs) s =
     (if fr_topic f \<noteq> topic then topic_watcher N accepts E base topic fs s
      else
        (case fr_hash f of
           None \<Rightarrow> topic_watcher N accepts E base topic fs s
         | Some hash \<Rightarrow>
             (case xs_cas_read (te_store E) hash of
                Inr bytes \<Rightarrow>
                  (case from_utf8 bytes of
                     None \<Rightarrow> topic_watcher N accepts E base topic fs (eprint ''Error decoding topic content: '' s)
                   | Some script \<Rightarrow>
                       (case enrich_engine E base (Some (fr_id f)) of
                          (err, enriched) \<Rightarrow>
                            (case offer N accepts enriched script None (eprint_opt err s) of
                               (res, s') \<Rightarrow>
                                 (case res of
                                    Ok go \<Rightarrow> if go then topic_watcher N accepts E base topic fs s' else (Ok (), s')
                                  | Err e \<Rightarrow> (Err e, s')
                                  | Panic m \<Rightarrow> (Panic m, s')))))
              | Inl e \<Rightarrow> topic_watcher N accepts E base topic fs (eprint (''Error reading topic content: '' @ e) s))))"

section \<open>What every source does\<close>

text \<open>
  A source offers one script after the other, each compiled from a base engine, until the server is
  gone. What it prints on standard error is left out of the comparison.
\<close>

type_synonym 'st offered = "'st engine \<times> string \<times> string option"

fun offer_all :: "('st, 'b, 'd, 'k) nushell \<Rightarrow> (nat \<Rightarrow> bool) \<Rightarrow> 'st offered list \<Rightarrow> 'st source_out \<Rightarrow>
    (string, unit) outcome \<times> 'st source_out" where
  "offer_all N accepts [] s = (Ok (), s)"
| "offer_all N accepts ((base, script, file) # os) s =
     (case offer N accepts base script file s of
        (Ok go, s') \<Rightarrow> if go then offer_all N accepts os s' else (Ok (), s')
      | (Err e, s') \<Rightarrow> (Err e, s')
      | (Panic m, s') \<Rightarrow> (Panic m, s'))"

definition quiet :: "(string, unit) outcome \<times> 'st source_out \<Rightarrow> (string, unit) outcome \<times> 'st source_out" where
  "quiet r = apsnd (\<lambda>s. s\<lparr>so_err := []\<rparr>) r"

lemma quiet_pair [simp]: "quiet (r, s) = (r, s\<lparr>so_err := []\<rparr>)"
  by (simp add: quiet_def)

lemma quiet_same:
  "quiet a = quiet b \<Longrightarrow> fst a = fst b" "quiet a = quiet b \<Longrightarrow> so_sent (snd a) = so_sent (snd b)"
  "quiet a = quiet b \<Longrightarrow> so_log (snd a) = so_log (snd b)" "quiet a = quiet b \<Longrightarrow> so_next (snd a) = so_next (snd b)"
  by (cases a; cases b; auto; metis source_out.select_convs source_out.surjective source_out.update_convs(3))+

lemma quiet_offer_eprint:
  "offer N accepts base script file (s\<lparr>so_err := err\<rparr>) =
    apsnd (\<lambda>s. s\<lparr>so_err := err\<rparr>) (offer N accepts base script file s)"
  by (simp add: offer_def Let_def split: prod.split outcome.split option.split)

lemma quiet_offer_all: "quiet (offer_all N accepts os (s\<lparr>so_err := err\<rparr>)) = quiet (offer_all N accepts os s)"
proof (induction os arbitrary: s)
  case (Cons x os)
  obtain base script p where x: "x = (base, script, p)" by (cases x)
  obtain r s' where o: "offer N accepts base script p s = (r, s')" by (cases "offer N accepts base script p s")
  then have "offer N accepts base script p (s\<lparr>so_err := err\<rparr>) = (r, s'\<lparr>so_err := err\<rparr>)"
    by (simp add: quiet_offer_eprint)
  with o x Cons.IH [of s'] show ?case by (cases r) simp_all
qed simp

lemma quiet_eprint [simp]:
  "quiet (offer_all N accepts os (eprint m s)) = quiet (offer_all N accepts os s)"
  "quiet (offer_all N accepts os (eprint_opt t s)) = quiet (offer_all N accepts os s)"
  using quiet_offer_all [where s = s] by (auto simp: eprint_def eprint_opt_def split: option.split)

text \<open>An engine that was sent is ready for requests, and its token was never used before.\<close>

definition source_ok :: "('st, 'b, 'd, 'k) nushell \<Rightarrow> nat \<Rightarrow> 'st source_out \<Rightarrow> bool" where
  "source_ok N t s \<longleftrightarrow> t \<le> so_next s \<and> sorted_wrt (<) (map eg_token (so_sent s)) \<and>
     (\<forall>e\<in>set (so_sent s). t \<le> eg_token e \<and> eg_token e < so_next s \<and> engine_ready N e)"

lemma source_ok_start [simp]: "source_ok N t (source_start t)"
  by (simp add: source_ok_def source_start_def)

lemma source_ok_err [simp]: "source_ok N t (s\<lparr>so_err := err\<rparr>) \<longleftrightarrow> source_ok N t s"
  by (simp add: source_ok_def)

lemma offer_sent:
  assumes "offer N accepts base script p s = (r, s')"
  shows "so_next s' = Suc (so_next s) \<and> (so_sent s' = so_sent s \<or>
    (\<exists>eng log. script_to_engine N (so_next s) base script p = (Ok (Some eng), log) \<and> so_sent s' = so_sent s @ [eng]))"
  using assms by (auto simp: offer_def Let_def split: prod.splits outcome.splits option.splits if_splits)

lemma offer_ok:
  assumes "nushell_ok N" "source_ok N t s"
  shows "source_ok N t (snd (offer N accepts base script p s))"
proof -
  obtain r s' where o: "offer N accepts base script p s = (r, s')" by (cases "offer N accepts base script p s")
  have next': "so_next s' = Suc (so_next s)" using offer_sent [OF o] by simp
  show ?thesis
  proof (cases "so_sent s' = so_sent s")
    case True
    with assms(2) o next' show ?thesis by (auto simp: source_ok_def)
  next
    case False
    then obtain eng log where e: "script_to_engine N (so_next s) base script p = (Ok (Some eng), log)"
      and sent: "so_sent s' = so_sent s @ [eng]" using offer_sent [OF o] by auto
    have "engine_ready N eng" by (rule parse_closure_ready [OF assms(1) script_to_engine_Some(1) [OF e]])
    moreover have "eg_token eng = so_next s" by (rule script_to_engine_identity(1) [OF e])
    ultimately show ?thesis using assms(2) o sent next' by (auto simp: source_ok_def sorted_wrt_append)
  qed
qed

lemma offer_all_ok: "nushell_ok N \<Longrightarrow> source_ok N t s \<Longrightarrow> source_ok N t (snd (offer_all N accepts os s))"
proof (induction os arbitrary: s)
  case (Cons x os)
  obtain base script p where x: "x = (base, script, p)" by (cases x)
  obtain r s' where o: "offer N accepts base script p s = (r, s')" by (cases "offer N accepts base script p s")
  with offer_ok [OF Cons.prems, of accepts base script p] have "source_ok N t s'" by simp
  with o x Cons.IH Cons.prems(1) show ?case by (cases r) simp_all
qed simp

text \<open>
  The contract of a source: on its inputs it does, standard error apart, what offering a list of
  scripts does.
\<close>

locale script_source =
  fixes N :: "('st, 'b, 'd, 'k) nushell" and accepts :: "nat \<Rightarrow> bool"
    and run :: "'i list \<Rightarrow> 'st source_out \<Rightarrow> (string, unit) outcome \<times> 'st source_out"
    and offers :: "'i list \<Rightarrow> 'st offered list"
  assumes offering: "quiet (run inputs s) = quiet (offer_all N accepts (offers inputs) s)"
begin

lemmas same = quiet_same [OF offering]

lemma fresh_and_ready:
  assumes "nushell_ok N"
  shows "source_ok N t (snd (run inputs (source_start t)))"
  using offer_all_ok [OF assms source_ok_start, of t accepts "offers inputs"]
  by (simp add: source_ok_def same)

end

subsection \<open>The sources keep the contract\<close>

fun reload_scripts :: "bool \<Rightarrow> watch_input list \<Rightarrow> string list" where
  "reload_scripts pending [] = []"
| "reload_scripts pending (FsEvent change # inputs) = reload_scripts (pending \<or> change) inputs"
| "reload_scripts pending (FsError e # inputs) = reload_scripts pending inputs"
| "reload_scripts pending (FsQuiet content # inputs) =
     (case content of
        Inr script \<Rightarrow> (if pending then [script] else []) @ reload_scripts False inputs
      | Inl e \<Rightarrow> reload_scripts False inputs)"
| "reload_scripts pending (FsGone # inputs) = []"

lemma quiet_offer_step:
  "quiet (case offer N accepts base script p s of
      (res, s') \<Rightarrow>
        (case res of Ok go \<Rightarrow> if go then rest s' else (Ok (), s') | Err e \<Rightarrow> (Err e, s') | Panic m \<Rightarrow> (Panic m, s'))) =
    quiet (offer_all N accepts ((base, script, p) # os) s)"
  if "\<And>s'. quiet (rest s') = quiet (offer_all N accepts os s')"
  using that by (simp split: prod.split outcome.split)

lemma watch_loop_offers:
  "quiet (watch_loop N accepts base path pending inputs s) =
    quiet (offer_all N accepts (map (\<lambda>script. (base, script, Some path)) (reload_scripts pending inputs)) s)"
proof (induction pending inputs arbitrary: s rule: reload_scripts.induct)
  case (4 pending content inputs)
  then show ?case
    by (cases content; cases pending) (simp_all add: quiet_offer_step del: offer_all.simps(2))
qed simp_all

interpretation file_watcher: script_source N accepts "watch_loop N accepts base path pending"
    "\<lambda>inputs. map (\<lambda>script. (base, script, Some path)) (reload_scripts pending inputs)"
  for N :: "('st, 'b, 'd, 'k) nushell" and accepts base path pending
  by unfold_locales (rule watch_loop_offers)

function stdin_scripts :: "stdin_read list \<Rightarrow> string list" where
  "stdin_scripts reads =
     (case take_script [] reads of
        Ok (buffer, rest) \<Rightarrow> if buffer = [] then [] else utf8_lossy buffer # stdin_scripts rest
      | _ \<Rightarrow> [])"
  by auto
termination
  by (relation "measure length") (auto dest!: take_script_length simp: neq_Nil_conv)

declare stdin_scripts.simps [simp del]

lemma take_script_not_Panic [simp]: "take_script buffer rs \<noteq> Panic m"
  by (induction buffer rs rule: take_script.induct) auto

lemma stdin_loop_offers:
  "quiet (stdin_loop N accepts base reads s) =
    quiet (offer_all N accepts (map (\<lambda>script. (base, script, None)) (stdin_scripts reads)) s)"
proof (induction reads arbitrary: s rule: stdin_scripts.induct)
  case (1 reads)
  show ?case
  proof (cases "take_script [] reads")
    case (Ok x)
    obtain buffer rest where x: "x = (buffer, rest)" by (cases x)
    show ?thesis
    proof (cases "buffer = []")
      case False
      with 1 Ok x show ?thesis
        by (subst stdin_loop.simps, subst stdin_scripts.simps) (simp add: quiet_offer_step del: offer_all.simps(2))
    qed (use Ok x in \<open>simp add: stdin_loop.simps [of N accepts base reads] stdin_scripts.simps [of reads]\<close>)
  qed (simp_all add: stdin_loop.simps [of N accepts base reads] stdin_scripts.simps [of reads] eprint_def)
qed

interpretation stdin_reader: script_source N accepts "stdin_loop N accepts base"
    "\<lambda>reads. map (\<lambda>script. (base, script, None)) (stdin_scripts reads)"
  for N :: "('st, 'b, 'd, 'k) nushell" and accepts base
  by unfold_locales (rule stdin_loop_offers)

definition frame_script :: "'st topic_env \<Rightarrow> string \<Rightarrow> topic_frame \<Rightarrow> string option" where
  "frame_script E topic f = (if fr_topic f = topic then cas_text (te_store E) (fr_hash f) else None)"

fun topic_offers :: "'st topic_env \<Rightarrow> 'st engine \<Rightarrow> string \<Rightarrow> topic_frame list \<Rightarrow> 'st offered list" where
  "topic_offers E base topic [] = []"
| "topic_offers E base topic (f # fs) =
     (case frame_script E topic f of
        Some script \<Rightarrow> (snd (enrich_engine E base (Some (fr_id f))), script, None) # topic_offers E base topic fs
      | None \<Rightarrow> topic_offers E base topic fs)"

lemma topic_watcher_offers:
  "quiet (topic_watcher N accepts E base topic fs s) = quiet (offer_all N accepts (topic_offers E base topic fs) s)"
proof (induction fs arbitrary: s)
  case (Cons f fs)
  show ?case
  proof (cases "frame_script E topic f")
    case None
    with Cons show ?thesis
      by (auto simp: frame_script_def cas_text_def split: option.splits sum.splits if_splits)
  next
    case (Some script)
    then obtain hash bytes where "fr_topic f = topic" "fr_hash f = Some hash"
      "xs_cas_read (te_store E) hash = Inr bytes" "from_utf8 bytes = Some script"
      by (auto simp: frame_script_def cas_text_def split: option.splits sum.splits if_splits)
    moreover obtain err enriched where "enrich_engine E base (Some (fr_id f)) = (err, enriched)"
      by (cases "enrich_engine E base (Some (fr_id f))")
    ultimately show ?thesis
      using Some quiet_offer_step [OF Cons, of enriched script None "eprint_opt err s"]
      by (simp del: offer_all.simps(2))
  qed
qed simp

interpretation topic_reader: script_source N accepts "topic_watcher N accepts E base topic" "topic_offers E base topic"
  for N :: "('st, 'b, 'd, 'k) nushell" and accepts E base topic
  by unfold_locales (rule topic_watcher_offers)

subsection \<open>Which scripts\<close>

fun fs_noise :: "watch_input \<Rightarrow> bool" where
  "fs_noise (FsEvent change) = True"
| "fs_noise (FsError e) = True"
| "fs_noise _ = False"

lemma reload_scripts_burst:
  "list_all fs_noise seg \<Longrightarrow>
    reload_scripts pending (seg @ FsQuiet content # inputs) =
      (case content of
         Inr script \<Rightarrow> if pending \<or> FsEvent True \<in> set seg then [script] else []
       | Inl e \<Rightarrow> []) @ reload_scripts False inputs"
proof (induction seg arbitrary: pending)
  case (Cons i seg)
  then show ?case by (cases i) (auto split: sum.split)
qed (simp split: sum.split)

definition burst_inputs :: "(watch_input list \<times> (string + string)) list \<Rightarrow> watch_input list" where
  "burst_inputs bursts = concat (map (\<lambda>(seg, content). seg @ [FsQuiet content]) bursts)"

definition burst_scripts :: "(watch_input list \<times> (string + string)) list \<Rightarrow> string list" where
  "burst_scripts bursts =
     concat (map (\<lambda>(seg, content). case content of
       Inr script \<Rightarrow> if FsEvent True \<in> set seg then [script] else [] | Inl e \<Rightarrow> []) bursts)"

lemma reload_scripts_bursts:
  "\<forall>(seg, content)\<in>set bursts. list_all fs_noise seg \<Longrightarrow>
    reload_scripts False (burst_inputs bursts) = burst_scripts bursts"
  by (induction bursts) (auto simp: burst_inputs_def burst_scripts_def reload_scripts_burst split: sum.split)

lemma utf8_seq_valid:
  "utf8_valid (c # cs) \<Longrightarrow> \<not> byte_of c < 128 \<Longrightarrow>
    \<exists>n. utf8_seq c cs = (True, n) \<and> utf8_valid (drop n cs)"
  by (auto simp: utf8_seq_def seq_width_def seq_second_def utf8_three_def utf8_four_def Let_def
      split: if_splits list.splits)

lemma utf8_lossy_valid: "utf8_valid s \<Longrightarrow> utf8_lossy s = s"
proof (induction s rule: utf8_lossy.induct)
  case (2 c cs)
  show ?case
  proof (cases "byte_of c < 128")
    case False
    then obtain n where "utf8_seq c cs = (True, n)" "utf8_valid (drop n cs)" using utf8_seq_valid 2(3) by blast
    with 2(2) False show ?thesis by simp
  qed (use 2 in simp)
qed simp

definition nul :: char where
  "nul = CHR 0x00"

lemma take_script_bytes:
  "nul \<notin> set b \<Longrightarrow> take_script buffer (map StdinByte b) = Ok (buffer @ b, [])"
  "nul \<notin> set b \<Longrightarrow> take_script buffer (map StdinByte b @ StdinByte nul # rs) = Ok (buffer @ b, rs)"
proof -
  have zero: "c = nul" if "byte_of c = 0" for c
    using that of_char_eq_iff [of c nul, where ?'a = nat] by (simp add: byte_of_def nul_def)
  have "byte_of nul = 0" by code_simp
  then show "nul \<notin> set b \<Longrightarrow> take_script buffer (map StdinByte b) = Ok (buffer @ b, [])"
    "nul \<notin> set b \<Longrightarrow> take_script buffer (map StdinByte b @ StdinByte nul # rs) = Ok (buffer @ b, rs)"
    using zero by (induction b arbitrary: buffer) auto
qed

definition script_bytes :: "bytes list \<Rightarrow> stdin_read list" where
  "script_bytes scripts = concat (map (\<lambda>b. map StdinByte b @ [StdinByte nul]) scripts)"

definition clean_script :: "bytes \<Rightarrow> bool" where
  "clean_script b \<longleftrightarrow> b \<noteq> [] \<and> nul \<notin> set b \<and> utf8_valid b"

lemma stdin_scripts_bytes:
  "\<forall>b\<in>set scripts. clean_script b \<Longrightarrow> stdin_scripts (script_bytes scripts @ reads) = scripts @ stdin_scripts reads"
proof (induction scripts)
  case (Cons b scripts)
  then have "take_script [] (script_bytes (b # scripts) @ reads) = Ok (b, script_bytes scripts @ reads)"
    by (simp add: script_bytes_def clean_script_def take_script_bytes)
  with Cons show ?case
    by (subst stdin_scripts.simps) (simp add: clean_script_def utf8_lossy_valid)
qed (simp add: script_bytes_def)

lemma stdin_scripts_end:
  "stdin_scripts [] = []" "stdin_scripts (StdinByte nul # reads) = []"
  using take_script_bytes(2) [of "[]" "[]" reads]
  by (subst stdin_scripts.simps, simp)+

lemma stdin_scripts_last:
  "nul \<notin> set b \<Longrightarrow> utf8_valid b \<Longrightarrow> stdin_scripts (map StdinByte b) = (if b = [] then [] else [b])"
  by (subst stdin_scripts.simps) (simp add: take_script_bytes stdin_scripts_end utf8_lossy_valid)

section \<open>Properties\<close>

text \<open>
  Every engine a source sends, whatever it reads, is ready to run a request and has a
  cancellation token of its own, larger than all tokens before it.
\<close>

theorem sources_send_ready_engines:
  assumes "nushell_ok N"
  shows "source_ok N t (snd (watch_loop N accepts base path pending inputs (source_start t))) \<and>
    source_ok N t (snd (stdin_loop N accepts base reads (source_start t))) \<and>
    source_ok N t (snd (topic_watcher N accepts E base topic frames (source_start t)))"
  using file_watcher.fresh_and_ready [OF assms] stdin_reader.fresh_and_ready [OF assms]
    topic_reader.fresh_and_ready [OF assms] by blast


theorem sources_send_ready_engines_witness:
  "source_ok toy_nu 4 (snd (stdin_loop toy_nu (\<lambda>n. True) toy_base (script_bytes [''x'', ''bad'', ''x'']) (source_start 4)))"
  using sources_send_ready_engines [OF toy_nu_ok, of 4 "\<lambda>n. True" toy_base "[]" False "[]" "script_bytes [''x'', ''bad'', ''x'']"]
  by blast

text \<open>
  C20. The watcher reloads once for each burst of events that ends in a quiet interval and holds a
  change: it offers, in order, exactly the texts the file has then, whatever else happened in
  between; a burst without a change, and one after which the file cannot be read, offers nothing.
\<close>

theorem watcher_debounces:
  assumes "\<forall>(seg, content)\<in>set bursts. list_all fs_noise seg"
  shows "quiet (watch_loop N accepts base path False (burst_inputs bursts) s) =
    quiet (offer_all N accepts (map (\<lambda>script. (base, script, Some path)) (burst_scripts bursts)) s)"
  using file_watcher.offering [of N accepts base path False "burst_inputs bursts" s] reload_scripts_bursts [OF assms]
  by simp

theorem watcher_debounces_witness:
  "map eg_token (so_sent (snd (watch_loop toy_nu (\<lambda>n. True) toy_base ''/srv/x.nu'' False
      (burst_inputs [([FsEvent True, FsError ''e'', FsEvent False, FsEvent True], Inr ''x''), ([FsEvent False], Inr ''x''),
        ([FsEvent True], Inl ''gone''), ([FsEvent True], Inr ''x'')]) (source_start 4)))) = [4, 5]"
proof -
  let ?bursts = "[([FsEvent True, FsError ''e'', FsEvent False, FsEvent True], Inr ''x''), ([FsEvent False], Inr ''x''),
        ([FsEvent True], Inl ''gone''), ([FsEvent True], Inr ''x'')]"
  have "\<forall>(seg, content)\<in>set ?bursts. list_all fs_noise seg" by simp
  from quiet_same(2) [OF watcher_debounces [OF this, of toy_nu "\<lambda>n. True" toy_base "''/srv/x.nu''" "source_start 4"]]
  have "so_sent (snd (watch_loop toy_nu (\<lambda>n. True) toy_base ''/srv/x.nu'' False (burst_inputs ?bursts) (source_start 4))) =
    so_sent (snd (offer_all toy_nu (\<lambda>n. True) [(toy_base, ''x'', Some ''/srv/x.nu''), (toy_base, ''x'', Some ''/srv/x.nu'')]
      (source_start 4)))"
    by (simp add: burst_scripts_def del: offer_all.simps)
  then show ?thesis by (simp add: offer_def toy_script_engine source_start_def)
qed

text \<open>
  C18. Scripts written to standard input, each followed by a NUL, are offered one by one, unchanged
  and in order, the last one also without its NUL. An empty script ends the reading: nothing after
  two NULs in a row is ever read.
\<close>

theorem stdin_scripts_roundtrip:
  assumes "\<forall>x\<in>set scripts. clean_script x" "nul \<notin> set b" "utf8_valid b"
  shows "quiet (stdin_loop N accepts base (script_bytes scripts @ map StdinByte b) s) =
      quiet (offer_all N accepts (map (\<lambda>script. (base, script, None)) (scripts @ (if b = [] then [] else [b]))) s) \<and>
    quiet (stdin_loop N accepts base (script_bytes scripts @ StdinByte nul # rest) s) =
      quiet (offer_all N accepts (map (\<lambda>script. (base, script, None)) scripts) s)"
  using stdin_reader.offering [of N accepts base _ s]
    stdin_scripts_bytes [OF assms(1)] stdin_scripts_end stdin_scripts_last [OF assms(2,3)]
  by simp

theorem stdin_scripts_roundtrip_witness:
  "map eg_token (so_sent (snd (stdin_loop toy_nu (\<lambda>n. True) toy_base
      (script_bytes [''x'', ''ax''] @ StdinByte nul # script_bytes [''x'']) (source_start 4)))) = [4, 5]"
proof -
  have clean: "\<forall>b\<in>set [''x'', ''ax'']. clean_script b" by code_simp
  have nul: "nul \<notin> set []" "utf8_valid []" by simp_all
  have "so_sent (snd (stdin_loop toy_nu (\<lambda>n. True) toy_base
      (script_bytes [''x'', ''ax''] @ StdinByte nul # script_bytes [''x'']) (source_start 4))) =
    so_sent (snd (offer_all toy_nu (\<lambda>n. True) [(toy_base, ''x'', None), (toy_base, ''ax'', None)] (source_start 4)))"
    using quiet_same(2) [OF stdin_scripts_roundtrip [OF clean nul, of toy_nu "\<lambda>n. True" toy_base "source_start 4"
      "script_bytes [''x'']", THEN conjunct2]]
    by (simp del: offer_all.simps)
  moreover have "script_to_engine toy_nu t toy_base ''ax'' None = script_to_engine toy_nu t toy_base ''x'' None" for t
    by (simp add: script_to_engine_def parse_closure_def toy_nu_def Let_def)
  ultimately show ?thesis by (simp add: offer_def toy_script_engine source_start_def)
qed

text \<open>
  The watcher's read starts after the frame of the first script, if there was one (the store's
  \<open>after\<close> option leaves out that frame and all before it).
\<close>

definition frames_after :: "nat option \<Rightarrow> topic_frame list \<Rightarrow> topic_frame list" where
  "frames_after after fs = (case after of None \<Rightarrow> fs | Some i \<Rightarrow> filter (\<lambda>f. i < fr_id f) fs)"

definition latest_script :: "'st topic_env \<Rightarrow> string \<Rightarrow> topic_frame list \<Rightarrow> string option" where
  "latest_script E topic history = (if history = [] then None else frame_script E topic (last history))"

definition last_frame :: "topic_frame list \<Rightarrow> (nat \<times> string option) option" where
  "last_frame history = (if history = [] then None else Some (fr_id (last history), fr_hash (last history)))"

lemma topic_initial_latest:
  assumes "xs_last_frame (te_store E) topic = last_frame history" "\<forall>f\<in>set history. fr_topic f = topic"
  shows "topic_initial E topic =
    (case latest_script E topic history of
       Some script \<Rightarrow> (script, Some (fr_id (last history)))
     | None \<Rightarrow> (placeholder_closure (te_placeholder E) topic (te_path E), None))"
  using assms
  by (simp add: topic_initial_def read_topic_content_def latest_script_def last_frame_def frame_script_def split: option.split)

lemma frames_after_last:
  assumes "sorted_wrt (<) (map fr_id (history @ later))" "history \<noteq> []"
  shows "frames_after (Some (fr_id (last history))) (history @ later) = later"
proof -
  have le: "\<not> fr_id (last history) < fr_id f" if "f \<in> set history" for f
  proof -
    have "history = butlast history @ [last history]" using assms(2) by simp
    then have "sorted_wrt (<) (map fr_id (butlast history @ [last history]))" "f \<in> set (butlast history @ [last history])"
      using assms(1) that by (auto simp: sorted_wrt_append)
    then show ?thesis by (auto simp: sorted_wrt_append)
  qed
  have gt: "fr_id (last history) < fr_id f" if "f \<in> set later" for f
    using assms that by (auto simp: sorted_wrt_append)
  from le gt show ?thesis by (simp add: frames_after_def filter_empty_conv)
qed

text \<open>
  C19. Between the first script of a topic and its watcher no update is lost and none is offered
  twice: when the topic's last frame is readable, the watcher offers exactly the scripts appended
  later, each with the modules of its own frame. When it is not (no content, or not UTF-8), the
  placeholder is served and the watcher offers the whole history again, older scripts first.
\<close>

theorem topic_handover:
  assumes "xs_last_frame (te_store E) topic = last_frame history" "\<forall>f\<in>set history. fr_topic f = topic"
    and "sorted_wrt (<) (map fr_id (history @ later))"
    and "topic_initial E topic = (script, last_id)"
  shows "script = (case latest_script E topic history of
        Some t \<Rightarrow> t | None \<Rightarrow> placeholder_closure (te_placeholder E) topic (te_path E)) \<and>
    quiet (topic_watcher N accepts E base topic (frames_after last_id (history @ later)) s) =
    quiet (offer_all N accepts (topic_offers E base topic
      (if latest_script E topic history \<noteq> None then later else history @ later)) s)"
proof (cases "latest_script E topic history")
  case None
  then show ?thesis using topic_initial_latest [OF assms(1,2)] assms(4) by (simp add: topic_watcher_offers frames_after_def)
next
  case (Some t)
  then have "history \<noteq> []" by (auto simp: latest_script_def)
  with Some show ?thesis
    using topic_initial_latest [OF assms(1,2)] assms(4) frames_after_last [OF assms(3)] by (simp add: topic_watcher_offers)
qed

definition toy_topic :: "nat option list list topic_env" where
  "toy_topic = \<lparr>te_store = \<lparr>xs_last_frame = (\<lambda>t. Some (2, Some ''h2'')),
       xs_cas_read = (\<lambda>h. if h = ''h3'' then Inl ''missing'' else Inr ''x'')\<rparr>,
     te_path = ''store'', te_load_modules = (\<lambda>i st. (None, st)), te_placeholder = ''__TOPIC__''\<rparr>"

definition toy_frame :: "nat \<Rightarrow> string \<Rightarrow> topic_frame" where
  "toy_frame i h = \<lparr>fr_id = i, fr_topic = ''app'', fr_hash = Some h\<rparr>"

theorem topic_handover_witness:
  "map eg_token (so_sent (snd (topic_watcher toy_nu (\<lambda>n. True) toy_topic toy_base ''app''
      (frames_after (Some 2) [toy_frame 1 ''h1'', toy_frame 2 ''h2'', toy_frame 3 ''h3'', toy_frame 4 ''h4'']) (source_start 4)))) = [4]"
proof -
  let ?history = "[toy_frame 1 ''h1'', toy_frame 2 ''h2'']" and ?later = "[toy_frame 3 ''h3'', toy_frame 4 ''h4'']"
  have utf: "from_utf8 ''x'' = Some ''x''" by code_simp
  have 1: "xs_last_frame (te_store toy_topic) ''app'' = last_frame ?history" "\<forall>f\<in>set ?history. fr_topic f = ''app''"
    "sorted_wrt (<) (map fr_id (?history @ ?later))"
    by (simp_all add: toy_topic_def toy_frame_def last_frame_def)
  have 2: "topic_initial toy_topic ''app'' = (''x'', Some 2)"
    by (simp add: topic_initial_def read_topic_content_def toy_topic_def cas_text_def utf)
  have "latest_script toy_topic ''app'' ?history = Some ''x''"
    "topic_offers toy_topic toy_base ''app'' ?later = [(toy_base, ''x'', None)]"
    by (simp_all add: latest_script_def frame_script_def toy_topic_def toy_frame_def cas_text_def utf enrich_engine_def)
  with quiet_same(2) [OF topic_handover [OF 1 2, of toy_nu "\<lambda>n. True" toy_base "source_start 4", THEN conjunct2]]
  have "so_sent (snd (topic_watcher toy_nu (\<lambda>n. True) toy_topic toy_base ''app'' (frames_after (Some 2) (?history @ ?later))
      (source_start 4))) = so_sent (snd (offer_all toy_nu (\<lambda>n. True) [(toy_base, ''x'', None)] (source_start 4)))"
    by (simp del: offer_all.simps)
  then show ?thesis by (simp add: offer_def toy_script_engine source_start_def)
qed

end
