(* ===== verification/Serve.thy ===== *)
theory Serve
  imports Listener Sources
begin

text \<open>
  Serving, reloading and shutting down (\<open>serve\<close> in \<open>src/main.rs\<close>): the main task, the task that
  swaps in new engines, the source that sends them, the connections and their requests. They run
  concurrently; the state is what they share, and each rule of the step relation is one action of
  one of them between two points where another may run.
\<close>

section \<open>State\<close>

datatype serve_log =
    LogStarted string
  | LogReloaded
  | LogStopping nat
  | LogStopped
  | LogStopTimedOut

text \<open>
  The main task: waiting for the first engine; binding; accepting; out of the accept loop; with the
  current token cancelled; with the connections counted; waiting for them; ended; or ended early by a
  panic or an error.
\<close>

datatype phase = Waiting_Engine | Binding | Accepting | Closing | Streams_Cancelled | Counted nat | Draining | Ended
  | Main_Failed string

text \<open>
  \<open>sv_queue\<close> is the channel of engines, \<open>sv_open\<close> whether its sender lives; \<open>sv_current\<close> the shared
  engine; \<open>sv_held\<close> the engine the updater has received, after it cancelled the current one's token
  and before it stores it; \<open>sv_noting\<close> whether it has stored one and not yet logged it;
  \<open>sv_cancelled\<close> the cancelled tokens; \<open>sv_conns\<close> the connections the
  graceful shutdown watches; \<open>sv_requests\<close> the requests under way, each with its connection and
  the token of the engine it loaded. \<open>sv_sent\<close> and \<open>sv_installed\<close> only record what happened.
\<close>

record 'st server =
  sv_phase :: phase
  sv_queue :: "'st engine list"
  sv_open :: bool
  sv_current :: "'st engine option"
  sv_held :: "'st engine option"
  sv_noting :: bool
  sv_cancelled :: "nat set"
  sv_conns :: "nat set"
  sv_requests :: "nat \<Rightarrow> (nat \<times> nat) option"
  sv_log :: "serve_log list"
  sv_sent :: "'st engine list"
  sv_installed :: "'st engine list"

definition server_start :: "'st server" where
  "server_start = \<lparr>sv_phase = Waiting_Engine, sv_queue = [], sv_open = True, sv_current = None, sv_held = None,
     sv_noting = False, sv_cancelled = {}, sv_conns = {}, sv_requests = Map.empty, sv_log = [], sv_sent = [], sv_installed = []\<rparr>"

definition channel_capacity :: nat where
  "channel_capacity = 1"

definition note_log :: "serve_log \<Rightarrow> 'st server \<Rightarrow> 'st server" where
  "note_log e s = s\<lparr>sv_log := sv_log s @ [e]\<rparr>"

text \<open>\<open>engine.store\<close>.\<close>

definition install :: "'st engine \<Rightarrow> 'st server \<Rightarrow> 'st server" where
  "install eng s = s\<lparr>sv_current := Some eng, sv_installed := sv_installed s @ [eng]\<rparr>"

text \<open>\<open>engine.load().sse_cancel_token.cancel()\<close>.\<close>

definition cancel_current :: "'st server \<Rightarrow> 'st server" where
  "cancel_current s =
     (case sv_current s of Some eng \<Rightarrow> s\<lparr>sv_cancelled := insert (eg_token eng) (sv_cancelled s)\<rparr> | None \<Rightarrow> s)"

text \<open>A connection that goes away takes its requests with it.\<close>

definition drop_conn :: "nat \<Rightarrow> 'st server \<Rightarrow> 'st server" where
  "drop_conn c s = s\<lparr>sv_conns := sv_conns s - {c},
     sv_requests := (\<lambda>i. case sv_requests s i of Some (d, t) \<Rightarrow> if d = c then None else Some (d, t) | None \<Rightarrow> None)\<rparr>"

text \<open>What is logged when the drain begins and when it ends.\<close>

definition begin_drain :: "nat \<Rightarrow> 'st server \<Rightarrow> 'st server" where
  "begin_drain inflight s =
     (if inflight > 0 then (note_log (LogStopping inflight) s)\<lparr>sv_phase := Draining\<rparr>
      else (note_log LogStopped s)\<lparr>sv_phase := Ended\<rparr>)"

definition end_drain :: "bool \<Rightarrow> 'st server \<Rightarrow> 'st server" where
  "end_drain timed_out s =
     (note_log (if timed_out then LogStopTimedOut else LogStopped) s)\<lparr>sv_phase := Ended\<rparr>"

section \<open>Steps\<close>

text \<open>
  The source sends an engine whose token is newer than all it sent before (the sources' theory shows
  that it does), or ends. The main task gets its first engine, finds the channel closed, is
  interrupted, binds, accepts, leaves the loop, cancels, counts, drains. The updater receives an engine
  and cancels the current token, then stores, then logs. A connection starts a request, ends one, or goes.
\<close>

inductive serve_step :: "'st server \<Rightarrow> 'st server \<Rightarrow> bool" where
  source_send: "sv_open s \<Longrightarrow> length (sv_queue s) < channel_capacity \<Longrightarrow>
    \<forall>e\<in>set (sv_sent s). eg_token e < eg_token eng \<Longrightarrow>
    serve_step s (s\<lparr>sv_queue := sv_queue s @ [eng], sv_sent := sv_sent s @ [eng]\<rparr>)"
| source_end: "sv_open s \<Longrightarrow> serve_step s (s\<lparr>sv_open := False\<rparr>)"
| first_engine: "sv_phase s = Waiting_Engine \<Longrightarrow> sv_queue s = eng # rest \<Longrightarrow>
    serve_step s (install eng (s\<lparr>sv_queue := rest, sv_phase := Binding\<rparr>))"
| no_engine: "sv_phase s = Waiting_Engine \<Longrightarrow> sv_queue s = [] \<Longrightarrow> \<not> sv_open s \<Longrightarrow>
    serve_step s (s\<lparr>sv_phase := Main_Failed ''no engine received - source closed without providing a valid engine''\<rparr>)"
| interrupted_early: "sv_phase s = Waiting_Engine \<Longrightarrow>
    serve_step s ((note_log LogStopped s)\<lparr>sv_phase := Ended\<rparr>)"
| updater_cancel: "sv_phase s \<notin> {Waiting_Engine} \<Longrightarrow> sv_current s \<noteq> None \<Longrightarrow> sv_held s = None \<Longrightarrow> \<not> sv_noting s \<Longrightarrow>
    sv_queue s = eng # rest \<Longrightarrow>
    serve_step s (cancel_current (s\<lparr>sv_queue := rest, sv_held := Some eng\<rparr>))"
| updater_store: "sv_held s = Some eng \<Longrightarrow>
    serve_step s (install eng (s\<lparr>sv_held := None, sv_noting := True\<rparr>))"
| updater_log: "sv_noting s \<Longrightarrow> serve_step s (note_log LogReloaded (s\<lparr>sv_noting := False\<rparr>))"
| bind_ok: "sv_phase s = Binding \<Longrightarrow>
    serve_step s ((note_log (LogStarted addr) s)\<lparr>sv_phase := Accepting\<rparr>)"
| bind_failed: "sv_phase s = Binding \<Longrightarrow> serve_step s (s\<lparr>sv_phase := Main_Failed e\<rparr>)"
| accept_conn: "sv_phase s = Accepting \<Longrightarrow> c \<notin> sv_conns s \<Longrightarrow>
    serve_step s (s\<lparr>sv_conns := insert c (sv_conns s)\<rparr>)"
| begin_request: "c \<in> sv_conns s \<Longrightarrow> sv_requests s i = None \<Longrightarrow> sv_current s = Some eng \<Longrightarrow>
    serve_step s (s\<lparr>sv_requests := (sv_requests s)(i \<mapsto> (c, eg_token eng))\<rparr>)"
| end_request: "sv_requests s i \<noteq> None \<Longrightarrow> serve_step s (s\<lparr>sv_requests := (sv_requests s)(i := None)\<rparr>)"
| close_conn: "c \<in> sv_conns s \<Longrightarrow> serve_step s (drop_conn c s)"
| interrupted: "sv_phase s = Accepting \<Longrightarrow> serve_step s (s\<lparr>sv_phase := Closing\<rparr>)"
| cancel_streams: "sv_phase s = Closing \<Longrightarrow> serve_step s ((cancel_current s)\<lparr>sv_phase := Streams_Cancelled\<rparr>)"
| count_inflight: "sv_phase s = Streams_Cancelled \<Longrightarrow> serve_step s (s\<lparr>sv_phase := Counted (card (sv_conns s))\<rparr>)"
| start_drain: "sv_phase s = Counted n \<Longrightarrow> serve_step s (begin_drain n s)"
| drained: "sv_phase s = Draining \<Longrightarrow> sv_conns s = {} \<Longrightarrow> serve_step s (end_drain False s)"
| drain_timeout: "sv_phase s = Draining \<Longrightarrow> serve_step s (end_drain True s)"

inductive serving :: "'st server \<Rightarrow> bool" where
  start: "serving server_start"
| step: "serving s \<Longrightarrow> serve_step s t \<Longrightarrow> serving t"

section \<open>Invariants\<close>

lemma note_log_simps [simp]:
  "sv_phase (note_log e s) = sv_phase s" "sv_queue (note_log e s) = sv_queue s" "sv_open (note_log e s) = sv_open s"
  "sv_current (note_log e s) = sv_current s" "sv_held (note_log e s) = sv_held s" "sv_noting (note_log e s) = sv_noting s"
  "sv_cancelled (note_log e s) = sv_cancelled s" "sv_conns (note_log e s) = sv_conns s"
  "sv_requests (note_log e s) = sv_requests s" "sv_sent (note_log e s) = sv_sent s"
  "sv_installed (note_log e s) = sv_installed s" "sv_log (note_log e s) = sv_log s @ [e]"
  by (simp_all add: note_log_def)

lemma cancel_current_simps [simp]:
  "sv_phase (cancel_current s) = sv_phase s" "sv_queue (cancel_current s) = sv_queue s" "sv_open (cancel_current s) = sv_open s"
  "sv_current (cancel_current s) = sv_current s" "sv_held (cancel_current s) = sv_held s" "sv_noting (cancel_current s) = sv_noting s" "sv_conns (cancel_current s) = sv_conns s"
  "sv_requests (cancel_current s) = sv_requests s" "sv_log (cancel_current s) = sv_log s" "sv_sent (cancel_current s) = sv_sent s"
  "sv_installed (cancel_current s) = sv_installed s"
  "sv_cancelled (cancel_current s) = sv_cancelled s \<union> eg_token ` set_option (sv_current s)"
  by (auto simp: cancel_current_def split: option.split)

lemma drain_simps [simp]:
  "sv_queue (begin_drain n s) = sv_queue s" "sv_open (begin_drain n s) = sv_open s"
  "sv_current (begin_drain n s) = sv_current s" "sv_held (begin_drain n s) = sv_held s" "sv_noting (begin_drain n s) = sv_noting s"
  "sv_cancelled (begin_drain n s) = sv_cancelled s" "sv_conns (begin_drain n s) = sv_conns s"
  "sv_requests (begin_drain n s) = sv_requests s" "sv_sent (begin_drain n s) = sv_sent s" "sv_installed (begin_drain n s) = sv_installed s"
  "sv_queue (end_drain b s) = sv_queue s" "sv_open (end_drain b s) = sv_open s"
  "sv_current (end_drain b s) = sv_current s" "sv_held (end_drain b s) = sv_held s" "sv_noting (end_drain b s) = sv_noting s"
  "sv_cancelled (end_drain b s) = sv_cancelled s" "sv_conns (end_drain b s) = sv_conns s"
  "sv_requests (end_drain b s) = sv_requests s" "sv_sent (end_drain b s) = sv_sent s" "sv_installed (end_drain b s) = sv_installed s"
  "sv_phase (end_drain b s) = Ended"
  by (simp_all add: begin_drain_def end_drain_def)

lemma install_simps [simp]:
  "sv_phase (install e s) = sv_phase s" "sv_queue (install e s) = sv_queue s" "sv_open (install e s) = sv_open s"
  "sv_current (install e s) = Some e" "sv_held (install e s) = sv_held s" "sv_noting (install e s) = sv_noting s"
  "sv_cancelled (install e s) = sv_cancelled s" "sv_conns (install e s) = sv_conns s"
  "sv_requests (install e s) = sv_requests s" "sv_sent (install e s) = sv_sent s"
  "sv_installed (install e s) = sv_installed s @ [e]" "sv_log (install e s) = sv_log s"
  by (simp_all add: install_def)

lemma drop_conn_simps [simp]:
  "sv_phase (drop_conn c s) = sv_phase s" "sv_queue (drop_conn c s) = sv_queue s" "sv_open (drop_conn c s) = sv_open s"
  "sv_current (drop_conn c s) = sv_current s" "sv_held (drop_conn c s) = sv_held s" "sv_noting (drop_conn c s) = sv_noting s"
  "sv_cancelled (drop_conn c s) = sv_cancelled s" "sv_conns (drop_conn c s) = sv_conns s - {c}"
  "sv_log (drop_conn c s) = sv_log s" "sv_sent (drop_conn c s) = sv_sent s" "sv_installed (drop_conn c s) = sv_installed s"
  "sv_requests (drop_conn c s) i = Some (d, t) \<longleftrightarrow> sv_requests s i = Some (d, t) \<and> d \<noteq> c"
  by (auto simp: drop_conn_def split: option.split)

text \<open>Nothing is lost or reordered, and the current engine is the last one installed.\<close>

definition held_list :: "'st server \<Rightarrow> 'st engine list" where
  "held_list s = (case sv_held s of Some e \<Rightarrow> [e] | None \<Rightarrow> [])"

text \<open>The phases between the first engine and the end, and those after the streams were cancelled.\<close>

fun has_engine :: "phase \<Rightarrow> bool" where
  "has_engine Waiting_Engine = False"
| "has_engine Ended = False"
| "has_engine (Main_Failed m) = False"
| "has_engine ph = True"

fun after_cancel :: "phase \<Rightarrow> bool" where
  "after_cancel Streams_Cancelled = True"
| "after_cancel (Counted n) = True"
| "after_cancel Draining = True"
| "after_cancel Ended = True"
| "after_cancel ph = False"

definition flow_inv :: "'st server \<Rightarrow> bool" where
  "flow_inv s \<longleftrightarrow>
     sv_installed s @ held_list s @ sv_queue s = sv_sent s \<and>
     sv_current s = (if sv_installed s = [] then None else Some (last (sv_installed s))) \<and>
     (sv_phase s = Waiting_Engine \<longrightarrow> sv_installed s = []) \<and>
     (has_engine (sv_phase s) \<longrightarrow> sv_installed s \<noteq> []) \<and>
     (sv_held s \<noteq> None \<longrightarrow> \<not> sv_noting s) \<and>
     (sv_installed s = [] \<longrightarrow> sv_held s = None \<and> \<not> sv_noting s \<and> sv_conns s = {}) \<and>
     sorted_wrt (<) (map eg_token (sv_sent s)) \<and>
     length (filter (\<lambda>e. e = LogReloaded) (sv_log s)) + (if sv_noting s then 1 else 0) = length (sv_installed s) - 1"

lemma begin_drain_cases:
  "begin_drain n s = s\<lparr>sv_log := sv_log s @ [LogStopped], sv_phase := Ended\<rparr> \<and> n = 0 \<or>
    begin_drain n s = s\<lparr>sv_log := sv_log s @ [LogStopping n], sv_phase := Draining\<rparr> \<and> n \<noteq> 0"
  by (simp add: begin_drain_def note_log_def)

lemma end_drain_cases:
  "sv_log (end_drain b s) = sv_log s @ [if b then LogStopTimedOut else LogStopped]"
  by (simp add: end_drain_def)

lemma flow_inv_step: "serve_step s t \<Longrightarrow> flow_inv s \<Longrightarrow> flow_inv t"
proof (induction rule: serve_step.induct)
  case (start_drain s n)
  then show ?case using begin_drain_cases [of n s] by (auto simp: flow_inv_def held_list_def)
next
  case (updater_store s eng)
  then show ?case by (cases "sv_installed s") (auto simp: flow_inv_def held_list_def)
next
  case (begin_request c s i eng)
  then show ?case by (auto simp: flow_inv_def held_list_def)
qed (auto simp: flow_inv_def held_list_def sorted_wrt_append end_drain_cases split: if_splits)

lemma flow_inv_serving: "serving s \<Longrightarrow> flow_inv s"
  by (induction rule: serving.induct) (simp add: flow_inv_def server_start_def held_list_def, rule flow_inv_step)

text \<open>Which tokens are cancelled.\<close>

definition old_tokens :: "'st server \<Rightarrow> nat set" where
  "old_tokens s = eg_token ` set (butlast (sv_installed s))"

definition cancel_inv :: "'st server \<Rightarrow> bool" where
  "cancel_inv s \<longleftrightarrow>
     old_tokens s \<subseteq> sv_cancelled s \<and>
     sv_cancelled s \<subseteq> eg_token ` set (sv_installed s) \<and>
     (sv_held s \<noteq> None \<longrightarrow> eg_token ` set_option (sv_current s) \<subseteq> sv_cancelled s) \<and>
     (sv_held s = None \<and> \<not> after_cancel (sv_phase s) \<longrightarrow> sv_cancelled s \<subseteq> old_tokens s) \<and>
     (\<forall>i c u. sv_requests s i = Some (c, u) \<longrightarrow> c \<in> sv_conns s \<and> u \<in> eg_token ` set (sv_installed s))"

lemma set_butlast_last: "xs \<noteq> [] \<Longrightarrow> set xs = insert (last xs) (set (butlast xs))"
  by (induction xs) auto

lemma cancel_inv_step: "serve_step s t \<Longrightarrow> flow_inv s \<Longrightarrow> cancel_inv s \<Longrightarrow> cancel_inv t"
proof (induction rule: serve_step.induct)
  case (updater_cancel s eng rest)
  then show ?case by (auto simp: cancel_inv_def flow_inv_def old_tokens_def split: if_splits)
next
  case (updater_store s eng)
  then have "sv_installed s \<noteq> []" "sv_current s = Some (last (sv_installed s))"
    by (auto simp: flow_inv_def split: if_splits)
  with updater_store set_butlast_last [of "sv_installed s"] show ?case
    by (auto simp: cancel_inv_def old_tokens_def)
next
  case (start_drain s n)
  then show ?case using begin_drain_cases [of n s]
    by (auto simp: cancel_inv_def flow_inv_def old_tokens_def split: if_splits)
next
  case (close_conn c s)
  then show ?case by (auto simp: cancel_inv_def old_tokens_def)
qed (auto simp: cancel_inv_def flow_inv_def old_tokens_def split: if_splits)

lemma serving_invs: "serving s \<Longrightarrow> flow_inv s \<and> cancel_inv s"
proof (induction rule: serving.induct)
  case start
  show ?case by (simp add: flow_inv_def cancel_inv_def server_start_def held_list_def old_tokens_def)
next
  case (step s t)
  then show ?case using flow_inv_step cancel_inv_step by blast
qed

text \<open>Connections and requests are finitely many.\<close>

definition finite_inv :: "'st server \<Rightarrow> bool" where
  "finite_inv s \<longleftrightarrow> finite (sv_conns s) \<and> finite (dom (sv_requests s))"

lemma finite_inv_step: "serve_step s t \<Longrightarrow> finite_inv s \<Longrightarrow> finite_inv t"
proof (induction rule: serve_step.induct)
  case (close_conn c s)
  have "dom (sv_requests (drop_conn c s)) \<subseteq> dom (sv_requests s)" by auto
  with close_conn show ?case by (auto simp: finite_inv_def intro: finite_subset)
qed (auto simp: finite_inv_def)

lemma serving_finite: "serving s \<Longrightarrow> finite_inv s"
  by (induction rule: serving.induct) (simp add: finite_inv_def server_start_def, rule finite_inv_step)

text \<open>The end is logged once, when it is reached; an end without a timeout leaves no connection.\<close>

fun is_stop :: "serve_log \<Rightarrow> bool" where
  "is_stop LogStopped = True"
| "is_stop LogStopTimedOut = True"
| "is_stop _ = False"

definition stop_inv :: "'st server \<Rightarrow> bool" where
  "stop_inv s \<longleftrightarrow>
     length (filter is_stop (sv_log s)) = (if sv_phase s = Ended then 1 else 0) \<and>
     (sv_phase s \<in> {Waiting_Engine, Binding} \<longrightarrow> sv_conns s = {}) \<and>
     (sv_phase s = Counted 0 \<longrightarrow> sv_conns s = {}) \<and>
     (sv_phase s = Ended \<and> LogStopTimedOut \<notin> set (sv_log s) \<longrightarrow> sv_conns s = {})"

lemma stop_inv_step: "serve_step s t \<Longrightarrow> flow_inv s \<Longrightarrow> finite_inv s \<Longrightarrow> stop_inv s \<Longrightarrow> stop_inv t"
proof (induction rule: serve_step.induct)
  case (start_drain s n)
  then show ?case using begin_drain_cases [of n s] by (auto simp: stop_inv_def)
qed (auto simp: stop_inv_def flow_inv_def finite_inv_def end_drain_cases split: if_splits)

lemma serving_stop: "serving s \<Longrightarrow> stop_inv s"
proof (induction rule: serving.induct)
  case start
  show ?case by (simp add: stop_inv_def server_start_def)
next
  case (step s t)
  then show ?case using stop_inv_step serving_invs serving_finite by blast
qed

section \<open>Properties\<close>

lemma current_token_fresh:
  assumes "flow_inv s" "sv_current s = Some eng"
  shows "eg_token eng \<notin> old_tokens s"
proof -
  have "sv_installed s \<noteq> []" "last (sv_installed s) = eng" using assms by (auto simp: flow_inv_def split: if_splits)
  then have inst: "sv_installed s = butlast (sv_installed s) @ [eng]" by (metis append_butlast_last_id)
  have "sv_sent s = sv_installed s @ held_list s @ sv_queue s" "sorted_wrt (<) (map eg_token (sv_sent s))"
    using assms(1) by (simp_all add: flow_inv_def)
  then have "sorted_wrt (<) (map eg_token (sv_installed s))" by (simp add: sorted_wrt_append)
  then have "sorted_wrt (<) (map eg_token (butlast (sv_installed s) @ [eng]))" using inst by simp
  then show ?thesis by (auto simp: old_tokens_def sorted_wrt_append)
qed

text \<open>The token of a request is the current engine's, or an older one, which is cancelled.\<close>

lemma token_current:
  assumes "serving s" "t \<in> eg_token ` set (sv_installed s)"
  shows "\<exists>eng. sv_current s = Some eng \<and> (t = eg_token eng \<or> t \<in> old_tokens s) \<and>
    eg_token eng \<notin> old_tokens s \<and> old_tokens s \<subseteq> sv_cancelled s"
proof -
  have inv: "flow_inv s" "cancel_inv s" using serving_invs [OF assms(1)] by simp_all
  have ne: "sv_installed s \<noteq> []" using assms(2) by auto
  then have cur: "sv_current s = Some (last (sv_installed s))" using inv(1) by (simp add: flow_inv_def)
  have "t = eg_token (last (sv_installed s)) \<or> t \<in> old_tokens s"
    using assms(2) set_butlast_last [OF ne] by (auto simp: old_tokens_def)
  with cur current_token_fresh [OF inv(1) cur] inv(2) show ?thesis by (auto simp: cancel_inv_def)
qed

lemma request_installed:
  "serving s \<Longrightarrow> sv_requests s i = Some (c, t) \<Longrightarrow> t \<in> eg_token ` set (sv_installed s)"
  using serving_invs [of s] by (auto simp: cancel_inv_def)

lemma reload_invs_current:
  assumes "serving s" "sv_requests s i = Some (c, t)"
  shows "\<exists>eng. sv_current s = Some eng \<and> (t = eg_token eng \<or> t \<in> old_tokens s) \<and>
    eg_token eng \<notin> old_tokens s \<and> old_tokens s \<subseteq> sv_cancelled s"
  using token_current [OF assms(1) request_installed [OF assms]] .

text \<open>Along a run, engines stay installed and tokens stay cancelled.\<close>

lemma serve_step_mono:
  "serve_step s u \<Longrightarrow> set (sv_installed s) \<subseteq> set (sv_installed u) \<and> sv_cancelled s \<subseteq> sv_cancelled u"
  by (induction rule: serve_step.induct) auto

lemma serve_steps_mono:
  "serve_step\<^sup>*\<^sup>* s u \<Longrightarrow> set (sv_installed s) \<subseteq> set (sv_installed u) \<and> sv_cancelled s \<subseteq> sv_cancelled u"
  by (induction rule: rtranclp_induct) (use serve_step_mono in blast)+

lemma serving_steps: "serve_step\<^sup>*\<^sup>* s u \<Longrightarrow> serving s \<Longrightarrow> serving u"
  by (induction rule: rtranclp_induct) (auto intro: serving.step)

text \<open>
  C26. While the server accepts and no reload is under way, a request's token is cancelled exactly
  when its engine is not the current one: a reload ends every event stream of every older script
  and no stream of the new one. At any time, a request whose token is not cancelled runs the
  current engine.
\<close>

theorem reload_cancels_exactly_old_streams:
  assumes "serving s" "sv_requests s i = Some (c, t)"
  shows "\<exists>eng. sv_current s = Some eng \<and> (t \<notin> sv_cancelled s \<longrightarrow> t = eg_token eng) \<and>
    (sv_phase s \<in> {Accepting, Closing} \<and> sv_held s = None \<longrightarrow> (t \<in> sv_cancelled s \<longleftrightarrow> t \<noteq> eg_token eng))"
  using reload_invs_current [OF assms] serving_invs [OF assms(1)] by (auto simp: cancel_inv_def)

text \<open>A run: a script is served to connection 7, and a second one is on its way, then received.\<close>

definition demo_engine :: "nat \<Rightarrow> unit engine" where
  "demo_engine t = \<lparr>eg_state = (), eg_closure = None, eg_bus = 0, eg_token = t\<rparr>"

definition demo_serving :: "unit server" where
  "demo_serving = \<lparr>sv_phase = Accepting, sv_queue = [demo_engine 2], sv_open = True, sv_current = Some (demo_engine 1),
     sv_held = None, sv_noting = False, sv_cancelled = {}, sv_conns = {7}, sv_requests = [0 \<mapsto> (7, 1)],
     sv_log = [LogStarted ''http://127.0.0.1:3001''], sv_sent = [demo_engine 1, demo_engine 2], sv_installed = [demo_engine 1]\<rparr>"

definition demo_reloading :: "unit server" where
  "demo_reloading = \<lparr>sv_phase = Accepting, sv_queue = [], sv_open = True, sv_current = Some (demo_engine 1),
     sv_held = Some (demo_engine 2), sv_noting = False, sv_cancelled = {1}, sv_conns = {7}, sv_requests = [0 \<mapsto> (7, 1)],
     sv_log = [LogStarted ''http://127.0.0.1:3001''], sv_sent = [demo_engine 1, demo_engine 2], sv_installed = [demo_engine 1]\<rparr>"

definition demo_stored :: "unit server" where
  "demo_stored = demo_reloading\<lparr>sv_held := None, sv_noting := True, sv_current := Some (demo_engine 2),
     sv_installed := [demo_engine 1, demo_engine 2]\<rparr>"

definition demo_reloaded :: "unit server" where
  "demo_reloaded = demo_stored\<lparr>sv_noting := False, sv_log := [LogStarted ''http://127.0.0.1:3001'', LogReloaded]\<rparr>"

lemmas demo_defs = demo_engine_def channel_capacity_def install_def note_log_def cancel_current_def begin_drain_def

lemma demo_updater_cancel: "serve_step demo_serving demo_reloading"
  using updater_cancel [of demo_serving "demo_engine 2" "[]"] by (simp add: demo_serving_def demo_reloading_def demo_defs)

lemma demo_updater_store: "serve_step demo_reloading demo_stored"
  using updater_store [of demo_reloading "demo_engine 2"] by (simp add: demo_stored_def demo_reloading_def demo_defs)

lemma demo_updater_log: "serve_step demo_stored demo_reloaded"
  using updater_log [of demo_stored] by (simp add: demo_stored_def demo_reloaded_def demo_reloading_def demo_defs)

lemma serving_demo_serving: "serving demo_serving"
proof -
  let ?s1 = "server_start\<lparr>sv_queue := [demo_engine 1], sv_sent := [demo_engine 1]\<rparr>"
  let ?s2 = "?s1\<lparr>sv_queue := [], sv_phase := Binding, sv_current := Some (demo_engine 1), sv_installed := [demo_engine 1]\<rparr>"
  let ?s3 = "?s2\<lparr>sv_log := [LogStarted ''http://127.0.0.1:3001''], sv_phase := Accepting\<rparr>"
  let ?s4 = "?s3\<lparr>sv_conns := {7}\<rparr>"
  let ?s5 = "?s4\<lparr>sv_requests := [0 \<mapsto> (7, 1)]\<rparr>"
  have "serve_step server_start ?s1"
    using source_send [of server_start "demo_engine 1"] by (simp add: server_start_def demo_defs)
  moreover have "serve_step ?s1 ?s2"
    using first_engine [of ?s1 "demo_engine 1" "[]"] by (simp add: server_start_def demo_defs)
  moreover have "serve_step ?s2 ?s3"
    using bind_ok [of ?s2 "''http://127.0.0.1:3001''"] by (simp add: server_start_def demo_defs)
  moreover have "serve_step ?s3 ?s4"
    using accept_conn [of ?s3 7] by (simp add: server_start_def)
  moreover have "serve_step ?s4 ?s5"
    using begin_request [of 7 ?s4 0 "demo_engine 1"] by (simp add: server_start_def demo_engine_def)
  moreover have "serve_step ?s5 demo_serving"
    using source_send [of ?s5 "demo_engine 2"] by (simp add: server_start_def demo_defs demo_serving_def)
  ultimately show ?thesis by (meson serving.intros)
qed

lemma serving_demo: "serving demo_reloading"
  using serving_demo_serving demo_updater_cancel by (rule serving.step)

theorem reload_cancels_exactly_old_streams_witness:
  "\<exists>s :: unit server. serving s \<and> sv_phase s = Accepting \<and> sv_held s = None \<and>
    sv_requests s 0 = Some (7, 1) \<and> 1 \<in> sv_cancelled s \<and> sv_requests s 1 = Some (7, 2) \<and> 2 \<notin> sv_cancelled s"
proof -
  let ?u = "demo_reloaded\<lparr>sv_requests := [0 \<mapsto> (7, 1), 1 \<mapsto> (7, 2)]\<rparr>"
  note demo_updater_store demo_updater_log
  moreover have "serve_step demo_reloaded ?u"
    using begin_request [of 7 demo_reloaded 1 "demo_engine 2"]
    by (simp add: demo_reloaded_def demo_stored_def demo_reloading_def demo_engine_def)
  ultimately have s: "serving ?u" using serving_demo serving.step by meson
  moreover have r: "sv_requests ?u 0 = Some (7, 1)" "sv_requests ?u 1 = Some (7, 2)" by simp_all
  moreover have "1 \<in> sv_cancelled ?u" "2 \<notin> sv_cancelled ?u"
    using reload_cancels_exactly_old_streams [OF s r(1)] reload_cancels_exactly_old_streams [OF s r(2)]
    by (simp_all add: demo_reloaded_def demo_stored_def demo_reloading_def demo_engine_def)
  moreover have "sv_phase ?u = Accepting" "sv_held ?u = None" by (simp_all add: demo_reloaded_def demo_stored_def demo_reloading_def)
  ultimately show ?thesis by blast
qed

text \<open>
  Engines are installed in the order they were sent, none is lost or installed twice, the
  current engine is the last one installed, and each after the first is logged as a reload (the
  last perhaps not yet).
\<close>

theorem reloads_in_order:
  assumes "serving s"
  shows "\<exists>held. sv_installed s @ held @ sv_queue s = sv_sent s \<and> length held \<le> 1 \<and>
    sv_current s = (if sv_installed s = [] then None else Some (last (sv_installed s))) \<and>
    length (filter (\<lambda>e. e = LogReloaded) (sv_log s)) + (if sv_noting s then 1 else 0) = length (sv_installed s) - 1"
  using serving_invs [OF assms]
  by (intro exI [of _ "held_list s"]) (simp add: flow_inv_def held_list_def split: option.split)

theorem reloads_in_order_witness:
  "\<exists>held. sv_installed demo_reloading @ held @ sv_queue demo_reloading = sv_sent demo_reloading \<and> length held = 1"
proof -
  obtain held where "sv_installed demo_reloading @ held @ sv_queue demo_reloading = sv_sent demo_reloading"
    using reloads_in_order [OF serving_demo] by blast
  then show ?thesis by (auto simp: demo_reloading_def)
qed

text \<open>
  The end is logged exactly once, when the main task reaches it, and never before; when it is
  not logged as timed out, no connection was left.
\<close>

theorem stop_logged_once:
  assumes "serving s"
  shows "length (filter is_stop (sv_log s)) = (if sv_phase s = Ended then 1 else 0) \<and>
    (sv_phase s = Ended \<and> LogStopTimedOut \<notin> set (sv_log s) \<longrightarrow> sv_conns s = {})"
  using serving_stop [OF assms] by (simp add: stop_inv_def)

theorem stop_logged_once_witness:
  "length (filter is_stop (sv_log (demo_reloading))) = 0 \<and> sv_conns demo_reloading \<noteq> {}"
  using stop_logged_once [OF serving_demo] by (simp add: demo_reloading_def)

text \<open>
  What ends by the cancellation and the clients alone: a request whose token is cancelled, a
  connection without requests; and the end of the drain.
\<close>

inductive drain_step :: "'st server \<Rightarrow> 'st server \<Rightarrow> bool" where
  ds_request: "sv_requests s i = Some (c, t) \<Longrightarrow> t \<in> sv_cancelled s \<Longrightarrow>
    drain_step s (s\<lparr>sv_requests := (sv_requests s)(i := None)\<rparr>)"
| ds_close: "c \<in> sv_conns s \<Longrightarrow> (\<forall>i t. sv_requests s i \<noteq> Some (c, t)) \<Longrightarrow> drain_step s (drop_conn c s)"
| ds_drained: "sv_phase s = Draining \<Longrightarrow> sv_conns s = {} \<Longrightarrow> drain_step s (end_drain False s)"

lemma drain_step_serve: "drain_step s t \<Longrightarrow> serve_step s t"
  by (induction rule: drain_step.induct) (auto intro: serve_step.intros)

lemma end_requests:
  assumes "finite (dom (sv_requests s))" "\<forall>i c t. sv_requests s i = Some (c, t) \<longrightarrow> t \<in> sv_cancelled s"
  shows "drain_step\<^sup>*\<^sup>* s (s\<lparr>sv_requests := Map.empty\<rparr>)"
  using assms
proof (induction "card (dom (sv_requests s))" arbitrary: s)
  case 0
  then have "sv_requests s = Map.empty" by auto
  then have "s\<lparr>sv_requests := Map.empty\<rparr> = s" by (metis server.surjective server.update_convs(9))
  then show ?case by simp
next
  case (Suc n)
  then have "dom (sv_requests s) \<noteq> {}" by (intro notI) simp
  then obtain i c t where i: "sv_requests s i = Some (c, t)" by fastforce
  let ?t = "s\<lparr>sv_requests := (sv_requests s)(i := None)\<rparr>"
  have "i \<in> dom (sv_requests s)" using i by auto
  then have n: "n = card (dom (sv_requests s) - {i})" using Suc.hyps(2) Suc.prems(1) by simp
  have "drain_step s ?t" using i Suc.prems(2) by (intro ds_request) auto
  moreover have "drain_step\<^sup>*\<^sup>* ?t (?t\<lparr>sv_requests := Map.empty\<rparr>)"
    by (rule Suc.hyps(1)) (use Suc.prems n in \<open>auto split: if_splits\<close>)
  ultimately show ?case by simp
qed

lemma close_conns:
  assumes "finite (sv_conns s)" "sv_requests s = Map.empty"
  shows "\<exists>t. drain_step\<^sup>*\<^sup>* s t \<and> sv_conns t = {} \<and> sv_phase t = sv_phase s \<and> sv_log t = sv_log s"
  using assms
proof (induction "card (sv_conns s)" arbitrary: s)
  case 0
  then show ?case by auto
next
  case (Suc n)
  then obtain c where c: "c \<in> sv_conns s" by fastforce
  have "drain_step s (drop_conn c s)" using c Suc.prems(2) by (intro ds_close) auto
  moreover have "\<exists>t. drain_step\<^sup>*\<^sup>* (drop_conn c s) t \<and> sv_conns t = {} \<and> sv_phase t = sv_phase (drop_conn c s) \<and>
      sv_log t = sv_log (drop_conn c s)"
    by (rule Suc.hyps(1)) (use Suc c in \<open>auto simp: drop_conn_def\<close>)
  ultimately show ?case by simp (meson converse_rtranclp_into_rtranclp)
qed

lemma shutdown_cancels:
  assumes "serve_step s s1" "sv_phase s = Closing" "sv_phase s1 = Streams_Cancelled"
  shows "s1 = (cancel_current s)\<lparr>sv_phase := Streams_Cancelled\<rparr>"
  using assms by (cases rule: serve_step.cases) (auto simp: drop_conn_def install_def cancel_current_def note_log_def split: option.splits)

text \<open>
  C22. The shutdown cancels what holds it: it leaves the accept loop, cancels (the step from \<open>s\<close> to
  \<open>s1\<close>), and whatever the clients and the updater do until the drain, if no other engine is stored
  after the cancellation, then in the drain the token of every request under way is cancelled, and
  by requests with cancelled tokens ending and connections without requests closing, and nothing
  else, the server reaches its end and logs that it stopped.
\<close>

theorem drain_can_complete:
  assumes "serving s" "sv_phase s = Closing" "serve_step s s1" "sv_phase s1 = Streams_Cancelled"
    and "serve_step\<^sup>*\<^sup>* s1 t" "sv_installed t = sv_installed s1" "sv_phase t = Draining"
  shows "(\<forall>i c u. sv_requests t i = Some (c, u) \<longrightarrow> u \<in> sv_cancelled t) \<and>
    (\<exists>v. drain_step\<^sup>*\<^sup>* t v \<and> sv_phase v = Ended \<and> sv_log v = sv_log t @ [LogStopped])"
proof
  have s1: "serving s1" "serving t" using serving.step [OF assms(1,3)] serving_steps [OF assms(5)] by auto
  have "flow_inv s" using serving_invs [OF assms(1)] by simp
  then obtain eng where eng: "sv_current s = Some eng" using assms(2) by (auto simp: flow_inv_def)
  have cur: "sv_current s1 = Some eng" "eg_token eng \<in> sv_cancelled s1"
    using shutdown_cancels [OF assms(3,2,4)] eng by simp_all
  have "sv_current t = sv_current s1"
    using serving_invs [OF s1(1)] serving_invs [OF s1(2)] assms(6) by (simp add: flow_inv_def)
  moreover have "eg_token eng \<in> sv_cancelled t" using serve_steps_mono [OF assms(5)] cur(2) by auto
  ultimately show reqs: "\<forall>i c u. sv_requests t i = Some (c, u) \<longrightarrow> u \<in> sv_cancelled t"
    using reload_invs_current [OF s1(2)] cur(1) by auto
  have fin: "finite_inv t" by (rule serving_finite [OF s1(2)])
  let ?t1 = "t\<lparr>sv_requests := Map.empty\<rparr>"
  have 1: "drain_step\<^sup>*\<^sup>* t ?t1" using fin reqs by (intro end_requests) (auto simp: finite_inv_def)
  obtain v where v: "drain_step\<^sup>*\<^sup>* ?t1 v" "sv_conns v = {}" "sv_phase v = Draining" "sv_log v = sv_log t"
    using close_conns [of ?t1] fin assms(7) by (auto simp: finite_inv_def)
  have "drain_step v (end_drain False v)" by (rule ds_drained) (use v in auto)
  moreover have "sv_log (end_drain False v) = sv_log t @ [LogStopped]" using v by (simp add: end_drain_cases)
  ultimately show "\<exists>v. drain_step\<^sup>*\<^sup>* t v \<and> sv_phase v = Ended \<and> sv_log v = sv_log t @ [LogStopped]"
    using 1 v(1) by (intro exI [of _ "end_drain False v"]) auto
qed

text \<open>The interrupt comes while a second script waits in the channel.\<close>

definition demo_closing :: "unit server" where
  "demo_closing = demo_serving\<lparr>sv_phase := Closing\<rparr>"

lemma serving_demo_closing: "serving demo_closing"
  using serving.step [OF serving_demo_serving interrupted] by (simp add: demo_closing_def demo_serving_def)

theorem drain_can_complete_witness:
  "\<exists>s t v :: unit server. serving s \<and> sv_phase s = Closing \<and> 1 \<notin> sv_cancelled s \<and> serve_step\<^sup>*\<^sup>* s t \<and>
    sv_requests t 0 = Some (7, 1) \<and> 1 \<in> sv_cancelled t \<and> drain_step\<^sup>*\<^sup>* t v \<and> sv_phase v = Ended"
proof -
  let ?s1 = "(cancel_current demo_closing)\<lparr>sv_phase := Streams_Cancelled\<rparr>"
  let ?s2 = "?s1\<lparr>sv_phase := Counted 1\<rparr>"
  have c: "sv_phase demo_closing = Closing" "1 \<notin> sv_cancelled demo_closing" by (simp_all add: demo_closing_def demo_serving_def)
  have 1: "serve_step demo_closing ?s1" by (rule cancel_streams [OF c(1)])
  have "serve_step ?s1 ?s2" using count_inflight [of ?s1] by (simp add: demo_closing_def demo_serving_def)
  moreover have "serve_step ?s2 (begin_drain 1 ?s2)" by (rule start_drain) simp
  ultimately have 2: "serve_step\<^sup>*\<^sup>* ?s1 (begin_drain 1 ?s2)" by (meson rtranclp.rtrancl_into_rtrancl rtranclp.rtrancl_refl)
  have t: "sv_phase (begin_drain 1 ?s2) = Draining" "sv_requests (begin_drain 1 ?s2) 0 = Some (7, 1)"
    by (simp_all add: begin_drain_def demo_closing_def demo_serving_def)
  from drain_can_complete [OF serving_demo_closing c(1) 1 _ 2 _ t(1)] t(2) obtain v where
    "1 \<in> sv_cancelled (begin_drain 1 ?s2)" "drain_step\<^sup>*\<^sup>* (begin_drain 1 ?s2) v" "sv_phase v = Ended" by auto
  with serving_demo_closing c t(2) converse_rtranclp_into_rtranclp [of serve_step, OF 1 2] show ?thesis by blast
qed

section \<open>A reload that meets the shutdown\<close>

lemma serve_step_sent: "serve_step s t \<Longrightarrow> length (sv_sent s) \<le> length (sv_sent t) \<and> (length (sv_sent t) = length (sv_sent s) \<longrightarrow> sv_sent t = sv_sent s)"
  by (induction rule: serve_step.induct) auto

lemma serve_steps_sent: "serve_step\<^sup>*\<^sup>* s t \<Longrightarrow> length (sv_sent s) \<le> length (sv_sent t)"
  by (induction rule: rtranclp_induct) (auto dest: serve_step_sent)

text \<open>While no other script arrives, nothing cancels a token any more in the drain and after it.\<close>

definition left_alone :: "nat \<Rightarrow> 'st server \<Rightarrow> bool" where
  "left_alone t s \<longleftrightarrow> sv_phase s \<in> {Draining, Ended} \<and> sv_queue s = [] \<and> sv_held s = None \<and> t \<notin> sv_cancelled s"

lemma left_alone_step:
  "serve_step s u \<Longrightarrow> left_alone t s \<Longrightarrow> length (sv_sent u) = length (sv_sent s) \<Longrightarrow> left_alone t u"
  by (induction rule: serve_step.induct) (auto simp: left_alone_def)

lemma left_alone_steps:
  "serve_step\<^sup>*\<^sup>* s u \<Longrightarrow> left_alone t s \<Longrightarrow> length (sv_sent u) = length (sv_sent s) \<Longrightarrow> left_alone t u"
proof (induction rule: rtranclp_induct)
  case (step u v)
  then have "length (sv_sent u) = length (sv_sent s)" using serve_steps_sent [of s u] serve_step_sent [of u v] by auto
  with step show ?case using left_alone_step [of u v t] by simp
qed

text \<open>
  C23. A reload that meets the shutdown leaves its streams alive: in every state in which the
  shutdown is about to cancel, a new script waits in the channel, the updater is idle and a
  connection is open, the shutdown cancels the token of the engine it finds, but the updater can then
  store the new engine and the connection start a request under it before the drain: that request's token is not cancelled, and unless yet
  another script arrives it never is, so while the request lasts the shutdown ends only by its
  timeout.
\<close>

theorem reload_outlives_shutdown:
  assumes "serving s" "sv_phase s = Closing" "sv_current s = Some old" "sv_held s = None" "\<not> sv_noting s"
    and "sv_queue s = [new]" "c \<in> sv_conns s" "sv_requests s i = None"
  shows "\<exists>s1 u. serve_step s s1 \<and> sv_phase s1 = Streams_Cancelled \<and>
    eg_token old \<notin> sv_cancelled s \<and> eg_token old \<in> sv_cancelled s1 \<and>
    serve_step\<^sup>*\<^sup>* s1 u \<and> sv_phase u = Draining \<and> sv_current u = Some new \<and> sv_requests u i = Some (c, eg_token new) \<and>
    (\<forall>v. serve_step\<^sup>*\<^sup>* u v \<longrightarrow> sv_sent v = sv_sent u \<longrightarrow> eg_token new \<notin> sv_cancelled v \<and>
      (sv_requests v i \<noteq> None \<longrightarrow> sv_phase v = Ended \<longrightarrow> LogStopTimedOut \<in> set (sv_log v)))"
proof -
  let ?s1 = "(cancel_current s)\<lparr>sv_phase := Streams_Cancelled\<rparr>"
  let ?s2 = "cancel_current (?s1\<lparr>sv_queue := [], sv_held := Some new\<rparr>)"
  let ?s3 = "install new (?s2\<lparr>sv_held := None, sv_noting := True\<rparr>)"
  let ?s4 = "note_log LogReloaded (?s3\<lparr>sv_noting := False\<rparr>)"
  let ?s5 = "?s4\<lparr>sv_requests := (sv_requests ?s4)(i \<mapsto> (c, eg_token new))\<rparr>"
  let ?s6 = "?s5\<lparr>sv_phase := Counted (card (sv_conns ?s5))\<rparr>"
  let ?u = "begin_drain (card (sv_conns s)) ?s6"
  have inv: "flow_inv s" "cancel_inv s" using serving_invs [OF assms(1)] by simp_all
  have old: "eg_token old \<notin> sv_cancelled s"
    using inv(2) current_token_fresh [OF inv(1) assms(3)] assms(2,4) by (auto simp: cancel_inv_def)
  have 1: "serve_step s ?s1" by (rule cancel_streams [OF assms(2)])
  have 2: "serve_step ?s1 ?s2" by (rule updater_cancel) (simp_all add: assms)
  have 3: "serve_step ?s2 ?s3" by (rule updater_store) simp
  have 4: "serve_step ?s3 ?s4" by (rule updater_log) simp
  have 5: "serve_step ?s4 ?s5" by (rule begin_request) (simp_all add: assms)
  have 6: "serve_step ?s5 ?s6" by (rule count_inflight) simp
  have 7: "serve_step ?s6 ?u" by (rule start_drain) simp
  have run: "serve_step\<^sup>*\<^sup>* ?s1 ?u" using 2 3 4 5 6 7 by (meson rtranclp.rtrancl_into_rtrancl rtranclp.rtrancl_refl)
  have "card (sv_conns s) \<noteq> 0" using serving_finite [OF assms(1)] assms(7) by (auto simp: finite_inv_def)
  then have u: "sv_phase ?u = Draining" by (simp add: begin_drain_def)
  have "sv_sent s = sv_installed s @ [new]" using inv(1) assms(4,6) by (simp add: flow_inv_def held_list_def)
  then have "eg_token new \<notin> eg_token ` set (sv_installed s)" "old \<in> set (sv_installed s)"
    using inv(1) assms(3) by (auto simp: flow_inv_def sorted_wrt_append split: if_splits)
  then have "left_alone (eg_token new) ?u" using inv(2) u by (auto simp: left_alone_def cancel_inv_def assms(3))
  then have alive: "eg_token new \<notin> sv_cancelled v" if "serve_step\<^sup>*\<^sup>* ?u v" "sv_sent v = sv_sent ?u" for v
    using left_alone_steps [OF that(1), of "eg_token new"] that(2) by (simp add: left_alone_def)
  have "serving ?u" using serving_steps [OF run] serving.step [OF assms(1) 1] by blast
  then have "LogStopTimedOut \<in> set (sv_log v)" if "serve_step\<^sup>*\<^sup>* ?u v" "sv_requests v i \<noteq> None" "sv_phase v = Ended" for v
    using serving_steps [OF that(1)] serving_invs [of v] serving_stop [of v] that(2,3)
    by (auto simp: cancel_inv_def stop_inv_def)
  with 1 run u old alive show ?thesis by (intro exI [of _ ?s1] exI [of _ ?u]) (simp add: assms(3))
qed

theorem reload_outlives_shutdown_witness:
  "\<exists>s u :: unit server. serving s \<and> sv_phase s = Closing \<and> serve_step\<^sup>*\<^sup>* s u \<and> sv_phase u = Draining \<and>
    sv_requests u 1 = Some (7, 2) \<and> 1 \<in> sv_cancelled u \<and> 2 \<notin> sv_cancelled u"
proof -
  have s: "sv_phase demo_closing = Closing" "sv_current demo_closing = Some (demo_engine 1)" "sv_held demo_closing = None"
    "\<not> sv_noting demo_closing" "sv_queue demo_closing = [demo_engine 2]" "7 \<in> sv_conns demo_closing"
    "sv_requests demo_closing 1 = None"
    by (simp_all add: demo_closing_def demo_serving_def)
  obtain s1 u where r: "serve_step demo_closing s1" "1 \<in> sv_cancelled s1" "serve_step\<^sup>*\<^sup>* s1 u" "sv_phase u = Draining"
    "sv_requests u 1 = Some (7, 2)" "2 \<notin> sv_cancelled u"
    using reload_outlives_shutdown [OF serving_demo_closing s] by (auto simp: demo_engine_def)
  then have "1 \<in> sv_cancelled u" "serve_step\<^sup>*\<^sup>* demo_closing u" using serve_steps_mono [of s1 u] by auto
  with r s(1) serving_demo_closing show ?thesis by blast
qed

end
