(* ===== verification/Streams.thy ===== *)
theory Streams
  imports Logging Rate_Limit
begin

text \<open>
  Polled streams and bodies, the request guard and the logging body (\<open>RequestGuard\<close>,
  \<open>LoggingBody\<close> in \<open>src/logging.rs\<close>), and the cancellable source of server-sent events
  (\<open>try_unfold\<close> in \<open>src/handler.rs\<close>).

  One poll of a fallible stream yields an item, an error, the end, or nothing yet. A source is the
  list of what its polls yield, in order; when the list is exhausted it yields nothing.
\<close>

datatype 'a polled = Item 'a | Failed string | Done | Pend

section \<open>The request guard\<close>

datatype frame = DataFrame bytes | TrailersFrame

record guard =
  g_request_id :: string
  g_start :: instant
  g_bytes_sent :: "64 word"

definition guard_new :: "string \<Rightarrow> instant \<Rightarrow> guard" where
  "guard_new rid now = \<lparr>g_request_id = rid, g_start = now, g_bytes_sent = 0\<rparr>"

text \<open>\<open>start.elapsed().as_millis() as u64\<close>.\<close>

definition elapsed_ms :: "instant \<Rightarrow> instant \<Rightarrow> 64 word" where
  "elapsed_ms start now = of_nat ((now - start) div 1000000)"

definition guard_drop :: "guard \<Rightarrow> instant \<Rightarrow> log_event list" where
  "guard_drop g now = log_complete (g_request_id g) (g_bytes_sent g) (elapsed_ms (g_start g) now)"

text \<open>\<open>LoggingBody::poll_frame\<close>: the frame passes, its data is counted.\<close>

definition logging_poll :: "guard \<Rightarrow> frame polled \<Rightarrow> guard \<times> frame polled" where
  "logging_poll g p =
     (case p of
        Item (DataFrame d) \<Rightarrow> (g\<lparr>g_bytes_sent := g_bytes_sent g + of_nat (length d)\<rparr>, p)
      | _ \<Rightarrow> (g, p))"

text \<open>Polling the body as often as the connection does, then dropping it.\<close>

fun logging_run :: "guard \<Rightarrow> frame polled list \<Rightarrow> guard \<times> frame polled list" where
  "logging_run g [] = (g, [])"
| "logging_run g (p # ps) =
     (case logging_poll g p of (g1, q) \<Rightarrow> (case logging_run g1 ps of (g2, qs) \<Rightarrow> (g2, q # qs)))"

fun frame_bytes :: "frame polled \<Rightarrow> bytes" where
  "frame_bytes (Item (DataFrame d)) = d"
| "frame_bytes _ = []"

lemma logging_poll_simps:
  "snd (logging_poll g p) = p"
  "g_request_id (fst (logging_poll g p)) = g_request_id g"
  "g_start (fst (logging_poll g p)) = g_start g"
  "g_bytes_sent (fst (logging_poll g p)) = g_bytes_sent g + of_nat (length (frame_bytes p))"
  by (cases p rule: frame_bytes.cases; simp add: logging_poll_def)+

lemma logging_run_spec:
  "snd (logging_run g ps) = ps \<and>
   fst (logging_run g ps) = g\<lparr>g_bytes_sent := g_bytes_sent g + of_nat (length (concat (map frame_bytes ps)))\<rparr>"
proof (induction ps arbitrary: g)
  case (Cons p ps)
  obtain g1 q where p: "logging_poll g p = (g1, q)" by fastforce
  then have "q = p" "g1 = g\<lparr>g_bytes_sent := g_bytes_sent g + of_nat (length (frame_bytes p))\<rparr>"
    using logging_poll_simps [of g p] by (auto intro: guard.equality)
  with p Cons [of g1] show ?case by (auto simp: add.assoc split: prod.splits)
qed simp

section \<open>Server-sent events until cancelled\<close>

text \<open>
  \<open>try_unfold\<close> over the receiver and the token, with a biased \<open>select!\<close>: at each poll the token is
  looked at first; an error ends the unfolding. The state is whether it is still running; the input
  of a poll is whether the token is cancelled, and what the receiver would yield.
\<close>

fun sse_poll :: "bool \<Rightarrow> bool \<Rightarrow> bytes polled \<Rightarrow> bool \<times> bytes polled" where
  "sse_poll False cancelled rx = (False, Done)"
| "sse_poll True True rx = (False, Failed ''sse cancelled'')"
| "sse_poll True False (Item d) = (True, Item d)"
| "sse_poll True False Done = (False, Done)"
| "sse_poll True False Pend = (True, Pend)"
| "sse_poll True False (Failed e) = (False, Failed e)"

fun sse_run :: "bool \<Rightarrow> (bool \<times> bytes polled) list \<Rightarrow> bytes polled list" where
  "sse_run running [] = []"
| "sse_run running ((cancelled, rx) # ps) =
     (case sse_poll running cancelled rx of (running', out) \<Rightarrow> out # sse_run running' ps)"

lemma sse_run_stopped: "sse_run False ps = replicate (length ps) Done"
  by (induction ps) auto

text \<open>Up to the cancellation every chunk is passed on; from it on there is the error, then the end.\<close>

lemma sse_run_cancelled:
  assumes "\<forall>p \<in> set before. \<not> fst p \<and> snd p \<noteq> Done \<and> (\<forall>e. snd p \<noteq> Failed e)"
  shows "sse_run True (before @ (True, rx) # after) =
    map snd before @ Failed ''sse cancelled'' # replicate (length after) Done"
  using assms
proof (induction before)
  case (Cons p ps)
  then show ?case by (cases p; cases "snd p") auto
qed (simp add: sse_run_stopped)

section \<open>Properties\<close>

text \<open>
  The logging body changes nothing of the body it wraps, and the completion entry its guard
  writes counts the bytes of the data frames that went through (modulo the width of the counter).
\<close>

theorem logging_body_counts:
  "case logging_run (guard_new rid start) frames of (g, out) \<Rightarrow>
     out = frames \<and>
     guard_drop g now =
       [EvComplete rid (of_nat (length (concat (map frame_bytes frames)))) (of_nat ((now - start) div 1000000))]"
  using logging_run_spec [of "guard_new rid start" frames]
  by (auto simp: guard_drop_def log_complete_def guard_new_def elapsed_ms_def split: prod.split)

end
