(* ===== verification/Compression.thy ===== *)
theory Compression
  imports Streams
begin

text \<open>
  Brotli compression (\<open>src/compression.rs\<close>). The encoder is the brotli crate's: an argument, with
  what one call of \<open>compress_stream\<close> does (fail, or consume some input and produce some output) and
  the two questions the code asks of it. The loop of \<open>encode\<close> and the polling of
  \<open>BrotliStream\<close> are the code's own.
\<close>

datatype brotli_op = PROCESS | FLUSH | FINISH

record 'e brotli =
  bl_new :: 'e
  bl_compress :: "'e \<Rightarrow> brotli_op \<Rightarrow> bytes \<Rightarrow> (nat \<times> bytes \<times> 'e) option"
  bl_is_finished :: "'e \<Rightarrow> bool"
  bl_has_more_output :: "'e \<Rightarrow> bool"

fun op_done :: "'e brotli \<Rightarrow> brotli_op \<Rightarrow> bytes \<Rightarrow> 'e \<Rightarrow> bool" where
  "op_done B FINISH rest e = bl_is_finished B e"
| "op_done B FLUSH rest e = (\<not> bl_has_more_output B e)"
| "op_done B PROCESS rest e = (rest = [] \<and> \<not> bl_has_more_output B e)"

text \<open>
  \<open>BrotliStream::encode\<close>: \<open>None\<close> if the loop never ends, \<open>Some None\<close> if the encoder fails. The
  input left replaces the offset into it.
\<close>

partial_function (option) encode_loop ::
  "'e brotli \<Rightarrow> brotli_op \<Rightarrow> 'e \<Rightarrow> bytes \<Rightarrow> bytes \<Rightarrow> (bytes \<times> 'e) option option" where
  "encode_loop B oper e input out_scratch =
     (case bl_compress B e oper input of
        None \<Rightarrow> Some None
      | Some (consumed, out, e') \<Rightarrow>
          let rest = drop consumed input; out_scratch' = out_scratch @ out in
          if op_done B oper rest e' then Some (Some (out_scratch', e'))
          else encode_loop B oper e' rest out_scratch')"

definition encode :: "'e brotli \<Rightarrow> brotli_op \<Rightarrow> 'e \<Rightarrow> bytes \<Rightarrow> (bytes \<times> 'e) option option" where
  "encode B oper e input = encode_loop B oper e input []"

section \<open>Polling\<close>

definition drain_budget :: nat where
  "drain_budget = 32"

text \<open>
  What a poll gives: the result, the encoder, the flag \<open>finished\<close>, whether the task was woken
  explicitly, and the polls of the source it has left.
\<close>

record 'e poll_out =
  po_result :: "bytes polled"
  po_enc :: 'e
  po_finished :: bool
  po_woken :: bool
  po_rest :: "bytes polled list"

text \<open>
  \<open>finish_with\<close> runs the last operation of a poll and turns what has accumulated into the result;
  \<open>idle\<close> is the result when there is nothing to send.
\<close>

definition finish_with :: "'e brotli \<Rightarrow> brotli_op \<Rightarrow> bytes polled option \<Rightarrow> bool \<Rightarrow> bool \<Rightarrow> 'e \<Rightarrow> bytes \<Rightarrow>
    bytes polled list \<Rightarrow> 'e poll_out option" where
  "finish_with B oper idle fin woken e accumulated rest =
     (case encode B oper e [] of
        None \<Rightarrow> None
      | Some None \<Rightarrow>
          Some \<lparr>po_result = Failed ''brotli compression failed'', po_enc = e, po_finished = fin,
            po_woken = False, po_rest = rest\<rparr>
      | Some (Some (out, e')) \<Rightarrow>
          let acc = accumulated @ out in
          Some \<lparr>po_result = (case idle of Some r \<Rightarrow> if acc = [] then r else Item acc | None \<Rightarrow> Item acc),
            po_enc = e', po_finished = fin, po_woken = woken, po_rest = rest\<rparr>)"

fun drain :: "'e brotli \<Rightarrow> nat \<Rightarrow> 'e \<Rightarrow> bytes \<Rightarrow> bytes polled list \<Rightarrow> 'e poll_out option" where
  "drain B drained e accumulated (Item chunk # rest) =
     (case encode B PROCESS e chunk of
        None \<Rightarrow> None
      | Some None \<Rightarrow>
          Some \<lparr>po_result = Failed ''brotli compression failed'', po_enc = e, po_finished = False,
            po_woken = False, po_rest = rest\<rparr>
      | Some (Some (out, e')) \<Rightarrow>
          if drain_budget \<le> Suc drained
          then finish_with B FLUSH None False True e' (accumulated @ out) rest
          else drain B (Suc drained) e' (accumulated @ out) rest)"
| "drain B drained e accumulated (Pend # rest) = finish_with B FLUSH (Some Pend) False False e accumulated rest"
| "drain B drained e accumulated [] = finish_with B FLUSH (Some Pend) False False e accumulated []"
| "drain B drained e accumulated (Failed err # rest) =
     Some \<lparr>po_result = Failed err, po_enc = e, po_finished = True, po_woken = False, po_rest = rest\<rparr>"
| "drain B drained e accumulated (Done # rest) = finish_with B FINISH (Some Done) True False e accumulated rest"

definition brotli_poll :: "'e brotli \<Rightarrow> bool \<Rightarrow> 'e \<Rightarrow> bytes polled list \<Rightarrow> 'e poll_out option" where
  "brotli_poll B finished e polls =
     (if finished then
        Some \<lparr>po_result = Done, po_enc = e, po_finished = True, po_woken = False, po_rest = polls\<rparr>
      else drain B 0 e [] polls)"

text \<open>Polling until the stream ends or fails, at most \<open>n\<close> times: the results in order.\<close>

fun brotli_run :: "'e brotli \<Rightarrow> nat \<Rightarrow> bool \<Rightarrow> 'e \<Rightarrow> bytes polled list \<Rightarrow> bytes polled list option" where
  "brotli_run B 0 finished e polls = Some []"
| "brotli_run B (Suc n) finished e polls =
     (case brotli_poll B finished e polls of
        None \<Rightarrow> None
      | Some po \<Rightarrow>
          (case po_result po of
             Done \<Rightarrow> Some [Done]
           | Failed err \<Rightarrow> Some [Failed err]
           | r \<Rightarrow> map_option (\<lambda>rs. r # rs) (brotli_run B n (po_finished po) (po_enc po) (po_rest po))))"

section \<open>Choosing the encoding\<close>

text \<open>
  \<open>accepts_brotli\<close>: the headers and http\_encoding\_headers crates parse the values; the code asks
  whether brotli is an acceptable preference.
\<close>

definition accepts_brotli :: "'h header_lib \<Rightarrow> (string list \<Rightarrow> 'a option) \<Rightarrow> ('a \<Rightarrow> bool) \<Rightarrow> 'h \<Rightarrow> bool" where
  "accepts_brotli L decode prefers_br h =
     (case decode (hl_get_all L h ''accept-encoding'') of
        None \<Rightarrow> False
      | Some accept \<Rightarrow> prefers_br accept)"

section \<open>The operations a poll performs\<close>

text \<open>Running a list of encoder operations, and the output of all of them.\<close>

fun run_ops :: "'e brotli \<Rightarrow> 'e \<Rightarrow> (brotli_op \<times> bytes) list \<Rightarrow> (bytes \<times> 'e) option" where
  "run_ops B e [] = Some ([], e)"
| "run_ops B e ((oper, input) # ops) =
     (case encode B oper e input of
        Some (Some (out, e')) \<Rightarrow>
          (case run_ops B e' ops of Some (outs, e'') \<Rightarrow> Some (out @ outs, e'') | None \<Rightarrow> None)
      | _ \<Rightarrow> None)"

text \<open>
  The calls the crate's documentation allows. After a \<open>PROCESS\<close> any call may follow; while a flush
  or a finish is incomplete only the same operation on the input it left, and after a finish nothing.
\<close>

fun may_call :: "'e brotli \<Rightarrow> 'e \<Rightarrow> brotli_op \<Rightarrow> bytes \<Rightarrow> brotli_op \<Rightarrow> bytes \<Rightarrow> bool" where
  "may_call B e PROCESS rest oper input = True"
| "may_call B e FLUSH rest oper input =
     (rest = [] \<and> \<not> bl_has_more_output B e \<or> oper = FLUSH \<and> input = rest)"
| "may_call B e FINISH rest oper input = (\<not> bl_is_finished B e \<and> oper = FINISH \<and> input = rest)"

text \<open>
  \<open>enc_calls B e oper rest given sent\<close>: allowed calls of \<open>compress_stream\<close> alone, from a new encoder,
  lead to \<open>e\<close>; the last was \<open>oper\<close> and left \<open>rest\<close> of its input, the encoder has taken the bytes
  \<open>given\<close> and put out the bytes \<open>sent\<close>.
\<close>

inductive enc_calls :: "'e brotli \<Rightarrow> 'e \<Rightarrow> brotli_op \<Rightarrow> bytes \<Rightarrow> bytes \<Rightarrow> bytes \<Rightarrow> bool" for B where
  new_encoder: "enc_calls B (bl_new B) PROCESS [] [] []"
| next_call: "enc_calls B e prev rest given sent \<Longrightarrow> may_call B e prev rest oper input \<Longrightarrow>
    bl_compress B e oper input = Some (n, out, e') \<Longrightarrow>
    enc_calls B e' oper (drop n input) (given @ take n input) (sent @ out)"

definition enc_ready :: "'e brotli \<Rightarrow> 'e \<Rightarrow> bytes \<Rightarrow> bytes \<Rightarrow> bool" where
  "enc_ready B e given sent \<longleftrightarrow>
     (\<exists>prev rest. enc_calls B e prev rest given sent \<and> (\<forall>oper input. may_call B e prev rest oper input))"

text \<open>When an operation has to be called again, in the words of the crate's documentation.\<close>

fun op_incomplete :: "'e brotli \<Rightarrow> brotli_op \<Rightarrow> bytes \<Rightarrow> 'e \<Rightarrow> bool" where
  "op_incomplete B PROCESS rest e = (rest \<noteq> [] \<or> bl_has_more_output B e)"
| "op_incomplete B FLUSH rest e = (rest \<noteq> [] \<or> bl_has_more_output B e)"
| "op_incomplete B FINISH rest e = (\<not> bl_is_finished B e)"

text \<open>
  What the crate and the format promise, of the calls alone: an allowed call does not fail, takes at
  most its input and, while its operation is incomplete, brings its end nearer (it takes input or
  gives output: \<open>left\<close> counts what it still has to do); what a complete flush has put out decodes,
  before the stream ends, to everything taken (\<open>so_far\<close> is what a streaming decoder gives on a
  prefix of a stream); what a complete finish has put out decompresses to everything taken.
\<close>

definition brotli_crate :: "'e brotli \<Rightarrow> (bytes \<Rightarrow> bytes option) \<Rightarrow> (bytes \<Rightarrow> bytes) \<Rightarrow> bool" where
  "brotli_crate B decompress so_far \<longleftrightarrow>
     (\<exists>left :: brotli_op \<Rightarrow> 'e \<Rightarrow> bytes \<Rightarrow> nat.
        \<forall>e prev rest given sent oper input.
          enc_calls B e prev rest given sent \<longrightarrow> may_call B e prev rest oper input \<longrightarrow>
          (\<exists>n out e'. bl_compress B e oper input = Some (n, out, e') \<and> n \<le> length input \<and>
             (op_incomplete B oper (drop n input) e' \<longrightarrow> left oper e' (drop n input) < left oper e input))) \<and>
     (\<forall>e given sent. enc_calls B e FLUSH [] given sent \<longrightarrow> \<not> bl_has_more_output B e \<longrightarrow> so_far sent = given) \<and>
     (\<forall>e given sent. enc_calls B e FINISH [] given sent \<longrightarrow> bl_is_finished B e \<longrightarrow> decompress sent = Some given)"

lemma enc_ready_new: "enc_ready B (bl_new B) [] []"
  unfolding enc_ready_def using new_encoder by fastforce

text \<open>The loop of \<open>encode\<close> ends, and its calls have taken the input and completed the operation.\<close>

lemma encode_loop_calls:
  assumes crate: "brotli_crate B decompress so_far"
    and "enc_calls B e prev rest given sent" "may_call B e prev rest oper input" "oper = PROCESS \<or> input = []"
  shows "\<exists>out e'. encode_loop B oper e input acc = Some (Some (acc @ out, e')) \<and>
    enc_calls B e' oper [] (given @ input) (sent @ out) \<and> \<not> op_incomplete B oper [] e'"
proof -
  obtain left :: "brotli_op \<Rightarrow> 'a \<Rightarrow> bytes \<Rightarrow> nat" where
    call: "\<And>e prev rest given sent oper input. enc_calls B e prev rest given sent \<Longrightarrow> may_call B e prev rest oper input \<Longrightarrow>
      \<exists>n out e'. bl_compress B e oper input = Some (n, out, e') \<and> n \<le> length input \<and>
        (op_incomplete B oper (drop n input) e' \<longrightarrow> left oper e' (drop n input) < left oper e input)"
    using crate unfolding brotli_crate_def by blast
  from assms(2-4) show ?thesis
  proof (induction "left oper e input" arbitrary: e prev rest given sent input acc rule: less_induct)
    case less
    obtain n out e' where step: "bl_compress B e oper input = Some (n, out, e')"
      and nearer: "op_incomplete B oper (drop n input) e' \<Longrightarrow> left oper e' (drop n input) < left oper e input"
      using call [OF less(2,3)] by blast
    have after: "enc_calls B e' oper (drop n input) (given @ take n input) (sent @ out)"
      using next_call [OF less(2,3) step] .
    show ?case
    proof (cases "op_incomplete B oper (drop n input) e'")
      case True
      with less(4) have "\<not> op_done B oper (drop n input) e'" "may_call B e' oper (drop n input) oper (drop n input)"
        "oper = PROCESS \<or> drop n input = []"
        by (cases oper; auto)+
      moreover from this obtain out' e'' where
        "encode_loop B oper e' (drop n input) (acc @ out) = Some (Some ((acc @ out) @ out', e''))"
        "enc_calls B e'' oper [] ((given @ take n input) @ drop n input) ((sent @ out) @ out')" "\<not> op_incomplete B oper [] e''"
        using less(1) [OF nearer [OF True] after, of "acc @ out"] by blast
      ultimately show ?thesis
        using step by (intro exI [of _ "out @ out'"] exI [of _ e'']) (simp add: encode_loop.simps [of B oper e])
    next
      case False
      with less(4) have "op_done B oper (drop n input) e'" "drop n input = []" by (cases oper; auto)+
      with step after False show ?thesis by (auto simp: encode_loop.simps)
    qed
  qed
qed

lemma encode_ready:
  assumes crate: "brotli_crate B decompress so_far" and ready: "enc_ready B e given sent"
    and input: "oper = PROCESS \<or> input = []"
  obtains out e' where "encode B oper e input = Some (Some (out, e'))"
    and "enc_calls B e' oper [] (given @ input) (sent @ out)" "\<not> op_incomplete B oper [] e'"
    and "oper \<noteq> FINISH \<Longrightarrow> enc_ready B e' (given @ input) (sent @ out)"
proof -
  obtain prev rest where calls: "enc_calls B e prev rest given sent" "\<And>oper input. may_call B e prev rest oper input"
    using ready unfolding enc_ready_def by blast
  obtain out e' where run: "encode_loop B oper e input [] = Some (Some ([] @ out, e'))"
    and after: "enc_calls B e' oper [] (given @ input) (sent @ out)" "\<not> op_incomplete B oper [] e'"
    using encode_loop_calls [OF crate calls input] by blast
  have "enc_ready B e' (given @ input) (sent @ out)" if "oper \<noteq> FINISH"
    unfolding enc_ready_def using after that by (cases oper; fastforce)
  with run after show ?thesis by (intro that) (simp_all add: encode_def)
qed

lemma run_ops_append:
  "run_ops B e (ops @ ops') =
    (case run_ops B e ops of
       None \<Rightarrow> None
     | Some (out, e') \<Rightarrow> map_option (\<lambda>(outs, e''). (out @ outs, e'')) (run_ops B e' ops'))"
proof (induction ops arbitrary: e)
  case Nil
  then show ?case by (cases "run_ops B e ops'") auto
next
  case (Cons oi ops)
  obtain oper input where oi: "oi = (oper, input)" by fastforce
  show ?case
  proof (cases "encode B oper e input")
    case None
    with oi show ?thesis by simp
  next
    case (Some r)
    then show ?thesis using Cons oi by (cases r) (auto split: option.splits prod.splits)
  qed
qed

text \<open>The operations of one poll that starts with a budget of \<open>n\<close> items.\<close>

definition process_all :: "bytes list \<Rightarrow> (brotli_op \<times> bytes) list" where
  "process_all cs = map (\<lambda>c. (PROCESS, c)) cs"

fun poll_ops :: "nat \<Rightarrow> bytes polled list \<Rightarrow> (brotli_op \<times> bytes) list" where
  "poll_ops (Suc n) (Item c # rest) = (PROCESS, c) # poll_ops n rest"
| "poll_ops 0 rest = [(FLUSH, [])]"
| "poll_ops (Suc n) (Done # rest) = [(FINISH, [])]"
| "poll_ops (Suc n) (Failed err # rest) = []"
| "poll_ops (Suc n) (Pend # rest) = [(FLUSH, [])]"
| "poll_ops (Suc n) [] = [(FLUSH, [])]"

text \<open>What the poll leaves of the source, and how it ends.\<close>

fun poll_rest :: "nat \<Rightarrow> bytes polled list \<Rightarrow> bytes polled list" where
  "poll_rest (Suc n) (Item c # rest) = poll_rest n rest"
| "poll_rest 0 rest = rest"
| "poll_rest (Suc n) (p # rest) = rest"
| "poll_rest (Suc n) [] = []"

fun poll_end :: "nat \<Rightarrow> bytes polled list \<Rightarrow> bytes polled option" where
  "poll_end (Suc n) (Item c # rest) = poll_end n rest"
| "poll_end 0 rest = None"
| "poll_end (Suc n) (p # rest) = Some p"
| "poll_end (Suc n) [] = Some Pend"

definition poll_result :: "bytes polled option \<Rightarrow> bytes \<Rightarrow> bytes polled" where
  "poll_result ending acc =
     (case ending of
        None \<Rightarrow> Item acc
      | Some (Failed err) \<Rightarrow> Failed err
      | Some r \<Rightarrow> if acc = [] then r else Item acc)"

definition ends_stream :: "bytes polled option \<Rightarrow> bool" where
  "ends_stream ending \<longleftrightarrow> ending = Some Done \<or> (\<exists>err. ending = Some (Failed err))"

lemma finish_with_ready:
  assumes "brotli_crate B decompress so_far" "enc_ready B e given sent"
  obtains out e' where "encode B oper e [] = Some (Some (out, e'))"
    and "finish_with B oper idle fin woken e acc rest = Some
      \<lparr>po_result = (case idle of Some r \<Rightarrow> if acc @ out = [] then r else Item (acc @ out) | None \<Rightarrow> Item (acc @ out)),
       po_enc = e', po_finished = fin, po_woken = woken, po_rest = rest\<rparr>"
proof -
  obtain out e' where "encode B oper e [] = Some (Some (out, e'))"
    using encode_ready [OF assms, of oper "[]"] by blast
  then show ?thesis by (intro that) (simp_all add: finish_with_def Let_def)
qed

lemma drain_spec:
  assumes "brotli_crate B decompress so_far" "enc_ready B e given sent" "d + n = drain_budget" "0 < n"
  shows "\<exists>out e'. run_ops B e (poll_ops n polls) = Some (out, e') \<and>
    drain B d e acc polls = Some \<lparr>po_result = poll_result (poll_end n polls) (acc @ out), po_enc = e',
      po_finished = ends_stream (poll_end n polls), po_woken = (poll_end n polls = None),
      po_rest = poll_rest n polls\<rparr>"
  using assms
proof (induction B d e acc polls arbitrary: n given sent rule: drain.induct)
  case (1 B d e acc chunk rest)
  obtain m where n: "n = Suc m" using 1(5) by (cases n) auto
  obtain out e1 where enc: "encode B PROCESS e chunk = Some (Some (out, e1))"
    and ready: "enc_ready B e1 (given @ chunk) (sent @ out)"
    using encode_ready [OF 1(2,3), of PROCESS chunk] by blast
  show ?case
  proof (cases "drain_budget \<le> Suc d")
    case True
    with 1(4) n have m: "m = 0" by simp
    obtain out' e2 where "encode B FLUSH e1 [] = Some (Some (out', e2))"
      and "finish_with B FLUSH None False True e1 (acc @ out) rest = Some
        \<lparr>po_result = Item ((acc @ out) @ out'), po_enc = e2, po_finished = False, po_woken = True, po_rest = rest\<rparr>"
      by (rule finish_with_ready [OF 1(2) ready, of FLUSH None False True "acc @ out" rest]) simp
    with enc True n m show ?thesis by (simp add: poll_result_def ends_stream_def)
  next
    case False
    then have m: "Suc d + m = drain_budget" "0 < m" using 1(4) n by auto
    obtain out' e2 where "run_ops B e1 (poll_ops m rest) = Some (out', e2)"
      and "drain B (Suc d) e1 (acc @ out) rest = Some
        \<lparr>po_result = poll_result (poll_end m rest) ((acc @ out) @ out'), po_enc = e2,
         po_finished = ends_stream (poll_end m rest), po_woken = (poll_end m rest = None), po_rest = poll_rest m rest\<rparr>"
      using 1(1) [OF enc refl refl False 1(2) ready m] by auto
    with enc False n show ?thesis by simp
  qed
next
  case (2 B d e acc rest)
  then obtain m where n: "n = Suc m" by (cases n) auto
  show ?case
    by (rule finish_with_ready [OF 2(1,2), of FLUSH "Some Pend" False False acc rest])
      (simp add: n poll_result_def ends_stream_def)
next
  case (3 B d e acc)
  then obtain m where n: "n = Suc m" by (cases n) auto
  show ?case
    by (rule finish_with_ready [OF 3(1,2), of FLUSH "Some Pend" False False acc "[]"])
      (simp add: n poll_result_def ends_stream_def)
next
  case (4 B d e acc err rest)
  then obtain m where n: "n = Suc m" by (cases n) auto
  show ?case by (simp add: n poll_result_def ends_stream_def)
next
  case (5 B d e acc rest)
  then obtain m where n: "n = Suc m" by (cases n) auto
  show ?case
    by (rule finish_with_ready [OF 5(1,2), of FINISH "Some Done" True False acc rest])
      (simp add: n poll_result_def ends_stream_def)
qed

section \<open>A whole stream\<close>

text \<open>The chunks among polls (or results), and the polls of a stream that has neither ended nor failed.\<close>

fun live :: "bytes polled \<Rightarrow> bool" where
  "live (Item c) = True"
| "live Pend = True"
| "live (Failed err) = False"
| "live Done = False"

fun items :: "bytes polled list \<Rightarrow> bytes list" where
  "items [] = []"
| "items (Item c # ps) = c # items ps"
| "items (p # ps) = items ps"

lemma items_append [simp]: "items (ps @ qs) = items ps @ items qs"
  by (induction ps rule: items.induct) auto

text \<open>The input a list of operations feeds to the encoder, and the operations before the last.\<close>

definition fed :: "(brotli_op \<times> bytes) list \<Rightarrow> bytes" where
  "fed ops = concat (map snd ops)"

definition mid_ops :: "(brotli_op \<times> bytes) list \<Rightarrow> bool" where
  "mid_ops ops \<longleftrightarrow> (\<forall>oi\<in>set ops. fst oi = PROCESS \<or> oi = (FLUSH, []))"

lemma fed_simps [simp]: "fed [] = []" "fed (oi # ops) = snd oi @ fed ops" "fed (ops @ ops') = fed ops @ fed ops'"
  "fed (process_all cs) = concat cs"
  by (simp_all add: fed_def process_all_def o_def)

lemma mid_ops_simps [simp]: "mid_ops []" "mid_ops (oi # ops) \<longleftrightarrow> (fst oi = PROCESS \<or> oi = (FLUSH, [])) \<and> mid_ops ops"
  "mid_ops (ops @ ops') \<longleftrightarrow> mid_ops ops \<and> mid_ops ops'" "mid_ops (process_all cs)"
  by (auto simp: mid_ops_def process_all_def)

lemma process_all_simps [simp]: "process_all [] = []" "process_all (c # cs) = (PROCESS, c) # process_all cs"
  by (simp_all add: process_all_def)

text \<open>One poll of a live source followed by its end: it reaches the end, or stops after a flush.\<close>

definition poll_reaches_end :: "nat \<Rightarrow> bytes polled list \<Rightarrow> bool" where
  "poll_reaches_end n src \<longleftrightarrow>
    poll_end n (src @ [Done]) = Some Done \<and> poll_ops n (src @ [Done]) = process_all (items src) @ [(FINISH, [])]"

definition poll_stops :: "nat \<Rightarrow> bytes polled list \<Rightarrow> bytes polled list \<Rightarrow> bytes polled list \<Rightarrow> bool" where
  "poll_stops n src now later \<longleftrightarrow> src = now @ later \<and> poll_rest n (src @ [Done]) = later @ [Done] \<and>
    poll_ops n (src @ [Done]) = process_all (items now) @ [(FLUSH, [])] \<and>
    poll_end n (src @ [Done]) \<in> {None, Some Pend}"

lemma poll_cases:
  assumes "\<forall>p\<in>set src. live p"
  shows "poll_reaches_end n src \<or> (\<exists>now later. poll_stops n src now later \<and> (0 < n \<longrightarrow> now \<noteq> []))"
  using assms
proof (induction src arbitrary: n)
  case Nil
  show ?case by (cases n) (auto simp: poll_reaches_end_def poll_stops_def)
next
  case (Cons p src)
  show ?case
  proof (cases n)
    case 0
    then have "poll_stops n (p # src) [] (p # src)" by (simp add: poll_stops_def)
    with 0 show ?thesis by blast
  next
    case (Suc m)
    show ?thesis
    proof (cases p)
      case (Item c)
      from Cons.IH [of m] Cons.prems consider "poll_reaches_end m src" | now later where "poll_stops m src now later"
        by auto
      then show ?thesis
      proof cases
        case 1
        with Item Suc show ?thesis by (simp add: poll_reaches_end_def)
      next
        case 2
        with Item Suc have "poll_stops n (p # src) (p # now) later" by (auto simp: poll_stops_def)
        then show ?thesis by blast
      qed
    next
      case Pend
      with Suc have "poll_stops n (p # src) [p] src" by (simp add: poll_stops_def)
      then show ?thesis by blast
    qed (use Cons in simp_all)
  qed
qed

lemma brotli_poll_spec:
  assumes "brotli_crate B decompress so_far" "enc_ready B e given sent"
  shows "\<exists>out e'. run_ops B e (poll_ops drain_budget polls) = Some (out, e') \<and>
    brotli_poll B False e polls = Some \<lparr>po_result = poll_result (poll_end drain_budget polls) out, po_enc = e',
      po_finished = ends_stream (poll_end drain_budget polls), po_woken = (poll_end drain_budget polls = None),
      po_rest = poll_rest drain_budget polls\<rparr>"
  using drain_spec [OF assms, of 0 drain_budget polls "[]"] by (simp add: brotli_poll_def drain_budget_def)

text \<open>The operations before the last leave the encoder ready; the last is complete.\<close>

lemma run_ops_ready:
  assumes "brotli_crate B decompress so_far" "enc_ready B e given sent" "mid_ops ops" "run_ops B e ops = Some (out, e')"
  shows "enc_ready B e' (given @ fed ops) (sent @ out)"
  using assms(2-)
proof (induction ops arbitrary: e given sent out)
  case (Cons oi ops)
  obtain oper input where oi: "oi = (oper, input)" by fastforce
  with Cons(3) have "oper = PROCESS \<or> input = []" "oper \<noteq> FINISH" by auto
  then obtain out1 e1 where "encode B oper e input = Some (Some (out1, e1))"
    and "enc_ready B e1 (given @ input) (sent @ out1)"
    using encode_ready [OF assms(1) Cons(2), of oper input] by metis
  with Cons(1) [of e1 "given @ input" "sent @ out1"] Cons(3,4) oi show ?case by (auto split: option.splits)
qed simp

lemma run_ops_last:
  assumes "brotli_crate B decompress so_far" "enc_ready B e given sent" "mid_ops ops"
    and "run_ops B e (ops @ [(oper, [])]) = Some (out, e')"
  shows "enc_calls B e' oper [] (given @ fed ops) (sent @ out) \<and> \<not> op_incomplete B oper [] e'"
proof -
  obtain out1 e1 where ops: "run_ops B e ops = Some (out1, e1)"
    and last: "run_ops B e1 [(oper, [])] = Some (drop (length out1) out, e')" "out = out1 @ drop (length out1) out"
    using assms(4) by (auto simp: run_ops_append split: option.splits)
  have "enc_ready B e1 (given @ fed ops) (sent @ out1)" using run_ops_ready [OF assms(1-3) ops] .
  then obtain out2 e2 where "encode B oper e1 [] = Some (Some (out2, e2))"
    and "enc_calls B e2 oper [] ((given @ fed ops) @ []) ((sent @ out1) @ out2)" "\<not> op_incomplete B oper [] e2"
    using encode_ready [OF assms(1), of e1 _ _ oper "[]"] by metis
  with last show ?thesis by auto
qed

lemma run_ops_finish:
  assumes "brotli_crate B decompress so_far" "enc_ready B e given sent" "mid_ops ops"
    and "run_ops B e (ops @ [(FINISH, [])]) = Some (out, e')"
  shows "decompress (sent @ out) = Some (given @ fed ops)"
  using run_ops_last [OF assms] assms(1) by (auto simp: brotli_crate_def)

lemma run_ops_flush:
  assumes "brotli_crate B decompress so_far" "enc_ready B e given sent" "mid_ops ops"
    and "run_ops B e (ops @ [(FLUSH, [])]) = Some (out, e')"
  shows "so_far (sent @ out) = given @ fed ops"
  using run_ops_last [OF assms] assms(1) by (auto simp: brotli_crate_def)

lemma brotli_run_complete:
  assumes "brotli_crate B decompress so_far" "enc_ready B e given sent" "\<forall>p\<in>set src. live p" "Suc (length src) < n"
  shows "\<exists>rs. brotli_run B n False e (src @ [Done]) = Some (rs @ [Done]) \<and> (\<forall>r\<in>set rs. live r) \<and>
    decompress (sent @ concat (items rs)) = Some (given @ concat (items src))"
  using assms
proof (induction n arbitrary: src e given sent)
  case (Suc n)
  let ?polls = "src @ [Done]"
  obtain out e1 where ops: "run_ops B e (poll_ops drain_budget ?polls) = Some (out, e1)"
    and poll: "brotli_poll B False e ?polls = Some \<lparr>po_result = poll_result (poll_end drain_budget ?polls) out,
      po_enc = e1, po_finished = ends_stream (poll_end drain_budget ?polls),
      po_woken = (poll_end drain_budget ?polls = None), po_rest = poll_rest drain_budget ?polls\<rparr>"
    using brotli_poll_spec [OF Suc(2,3)] by blast
  from poll_cases [OF Suc(4), of drain_budget] consider
      (ended) "poll_reaches_end drain_budget src"
    | (idle) now later where "poll_stops drain_budget src now later" "now \<noteq> []"
    by (auto simp: drain_budget_def)
  then show ?case
  proof cases
    case ended
    let ?rs = "if out = [] then [] else [Item out]"
    from Suc(5) obtain m where "n = Suc m" by (cases n) auto
    with ended poll have "brotli_run B (Suc n) False e ?polls = Some (?rs @ [Done])"
      by (simp add: poll_reaches_end_def poll_result_def ends_stream_def brotli_poll_def)
    moreover have "decompress (sent @ out) = Some (given @ concat (items src))"
      using run_ops_finish [OF Suc(2,3), of "process_all (items src)"] ops ended by (simp add: poll_reaches_end_def)
    moreover have "concat (items ?rs) = out" by simp
    ultimately show ?thesis by (intro exI [of _ ?rs]) simp_all
  next
    case idle
    then have src: "src = now @ later" by (simp add: poll_stops_def)
    have later: "\<forall>p\<in>set later. live p" "Suc (length later) < n" using Suc(4,5) idle(2) src
      by (auto simp: Suc_le_eq) (cases now; simp)
    have "poll_ops drain_budget ?polls = process_all (items now) @ [(FLUSH, [])]" using idle unfolding poll_stops_def by blast
    then have "enc_ready B e1 (given @ concat (items now)) (sent @ out)"
      using run_ops_ready [OF Suc(2,3) _ ops] by simp
    from Suc(1) [OF Suc(2) this later] obtain rs where
      tail: "brotli_run B n False e1 (later @ [Done]) = Some (rs @ [Done])" "\<forall>r\<in>set rs. live r"
        "decompress ((sent @ out) @ concat (items rs)) = Some ((given @ concat (items now)) @ concat (items later))"
      by blast
    let ?r = "poll_result (poll_end drain_budget ?polls) out"
    have r: "live ?r" "concat (items [?r]) = out" "?r \<noteq> Done" "\<not> ends_stream (poll_end drain_budget ?polls)"
      using idle by (auto simp: poll_stops_def poll_result_def ends_stream_def)
    have rest: "poll_rest drain_budget ?polls = later @ [Done]" using idle by (auto simp: poll_stops_def)
    have "brotli_run B (Suc n) False e ?polls = Some ((?r # rs) @ [Done])"
      using poll r tail(1) rest by (cases ?r) simp_all
    moreover have "concat (items (?r # rs)) = out @ concat (items rs)" using r(2) by (cases ?r) simp_all
    ultimately show ?thesis using tail r src by (intro exI [of _ "?r # rs"]) simp
  qed
qed simp

section \<open>A stream that fails\<close>

fun is_chunk :: "bytes polled \<Rightarrow> bool" where
  "is_chunk (Item c) = True"
| "is_chunk p = False"

lemma poll_failed:
  assumes "\<forall>p\<in>set src. live p"
  shows "poll_end n (src @ Failed err # rest) = Some (Failed err) \<and> (\<forall>p\<in>set src. is_chunk p) \<and> length src < n \<or>
    (\<exists>now later. src = now @ later \<and> poll_rest n (src @ Failed err # rest) = later @ Failed err # rest \<and>
      poll_ops n (src @ Failed err # rest) = process_all (items now) @ [(FLUSH, [])] \<and>
      poll_end n (src @ Failed err # rest) \<in> {None, Some Pend} \<and> (0 < n \<longrightarrow> now \<noteq> []))"
  using assms
proof (induction src arbitrary: n)
  case Nil
  show ?case by (cases n) auto
next
  case (Cons p src)
  show ?case
  proof (cases n)
    case (Suc m)
    show ?thesis
    proof (cases p)
      case (Item c)
      from Cons.IH [of m] Cons.prems consider
          "poll_end m (src @ Failed err # rest) = Some (Failed err) \<and> (\<forall>p\<in>set src. is_chunk p) \<and> length src < m"
        | now later where "src = now @ later" "poll_rest m (src @ Failed err # rest) = later @ Failed err # rest"
          "poll_ops m (src @ Failed err # rest) = process_all (items now) @ [(FLUSH, [])]"
          "poll_end m (src @ Failed err # rest) \<in> {None, Some Pend}"
        by auto
      then show ?thesis
      proof cases
        case 1
        with Item Suc show ?thesis by simp
      next
        case 2
        then show ?thesis using Item Suc by (intro disjI2 exI [of _ "p # now"] exI [of _ later]) auto
      qed
    next
      case Pend
      with Suc show ?thesis by (intro disjI2 exI [of _ "[p]"] exI [of _ src]) auto
    qed (use Cons in simp_all)
  qed simp
qed

text \<open>
  The pieces before the failure decode to a first part of the source; what the failing poll had taken
  is lost: chunks only, fewer than thirty-two.
\<close>

lemma brotli_run_failed:
  assumes "brotli_crate B decompress so_far" "enc_ready B e given sent" "\<forall>p\<in>set src. live p" "length src < n"
  shows "\<exists>rs kept lost. brotli_run B n False e (src @ Failed err # rest) = Some (rs @ [Failed err]) \<and> (\<forall>r\<in>set rs. live r) \<and>
    src = kept @ lost \<and> (\<forall>p\<in>set lost. is_chunk p) \<and> length lost < drain_budget \<and>
    (if kept = [] then rs = [] else so_far (sent @ concat (items rs)) = given @ concat (items kept))"
  using assms
proof (induction n arbitrary: src e given sent)
  case (Suc n)
  let ?polls = "src @ Failed err # rest"
  obtain out e1 where ops: "run_ops B e (poll_ops drain_budget ?polls) = Some (out, e1)"
    and poll: "brotli_poll B False e ?polls = Some \<lparr>po_result = poll_result (poll_end drain_budget ?polls) out,
      po_enc = e1, po_finished = ends_stream (poll_end drain_budget ?polls),
      po_woken = (poll_end drain_budget ?polls = None), po_rest = poll_rest drain_budget ?polls\<rparr>"
    using brotli_poll_spec [OF Suc(2,3)] by blast
  from poll_failed [OF Suc(4), of drain_budget err rest] consider
      (failed) "poll_end drain_budget ?polls = Some (Failed err)" "\<forall>p\<in>set src. is_chunk p" "length src < drain_budget"
    | (idle) now later where "src = now @ later" "poll_rest drain_budget ?polls = later @ Failed err # rest"
        "poll_ops drain_budget ?polls = process_all (items now) @ [(FLUSH, [])]"
        "poll_end drain_budget ?polls \<in> {None, Some Pend}" "now \<noteq> []"
    by (auto simp: drain_budget_def)
  then show ?case
  proof cases
    case failed
    with poll show ?thesis
      by (intro exI [of _ "[]"] exI [of _ "[]"] exI [of _ src]) (simp add: poll_result_def)
  next
    case idle
    have later: "\<forall>p\<in>set later. live p" "length later < n" using Suc(4,5) idle(1,5)
      by (auto simp: neq_Nil_conv)
    have run: "run_ops B e (process_all (items now) @ [(FLUSH, [])]) = Some (out, e1)" using ops by (simp only: idle(3))
    then have ready: "enc_ready B e1 (given @ concat (items now)) (sent @ out)"
      using run_ops_ready [OF Suc(2,3) _ run] by simp
    have flushed: "so_far (sent @ out) = given @ concat (items now)"
      using run_ops_flush [OF Suc(2,3) _ run] by simp
    from Suc(1) [OF Suc(2) ready later] obtain rs kept lost where
      tail: "brotli_run B n False e1 (later @ Failed err # rest) = Some (rs @ [Failed err])" "\<forall>r\<in>set rs. live r"
        "later = kept @ lost" "\<forall>p\<in>set lost. is_chunk p" "length lost < drain_budget"
        "if kept = [] then rs = [] else so_far ((sent @ out) @ concat (items rs)) = (given @ concat (items now)) @ concat (items kept)"
      by blast
    let ?r = "poll_result (poll_end drain_budget ?polls) out"
    have r: "live ?r" "\<not> ends_stream (poll_end drain_budget ?polls)" "concat (items [?r]) = out"
      using idle(4) by (auto simp: poll_result_def ends_stream_def)
    then have "brotli_run B (Suc n) False e ?polls = Some ((?r # rs) @ [Failed err])"
      using poll tail(1) idle(2) by (cases ?r) simp_all
    moreover have "concat (items (?r # rs)) = out @ concat (items rs)" using r(3) by (cases ?r) simp_all
    then have "so_far (sent @ concat (items (?r # rs))) = given @ concat (items (now @ kept))"
      using tail(6) flushed by (simp split: if_splits)
    ultimately show ?thesis using tail(2-5) r(1) idle(1,5)
      by (intro exI [of _ "?r # rs"] exI [of _ "now @ kept"] exI [of _ lost]) simp
  qed
qed simp

text \<open>The brotli crate, stored uncompressed: an encoder that hands its input on.\<close>

definition stored :: "unit brotli" where
  "stored = \<lparr>bl_new = (), bl_compress = (\<lambda>e oper input. Some (length input, input, ())),
     bl_is_finished = (\<lambda>e. True), bl_has_more_output = (\<lambda>e. False)\<rparr>"

lemma stored_simps [simp]:
  "bl_new stored = ()" "bl_is_finished stored e" "\<not> bl_has_more_output stored e"
  "bl_compress stored e oper input = Some (length input, input, ())"
  by (simp_all add: stored_def)

lemma stored_calls: "enc_calls stored e oper rest given sent \<Longrightarrow> rest = [] \<and> given = sent"
  by (induction rule: enc_calls.induct) auto

lemma stored_crate: "brotli_crate stored Some id"
proof -
  have "\<not> op_incomplete stored oper [] e" for oper e by (cases oper) simp_all
  then show ?thesis
    unfolding brotli_crate_def using stored_calls by (intro conjI exI [of _ "\<lambda>oper e input. 0"]) fastforce+
qed

text \<open>An encoder with a buffer, which hands out two bytes a call.\<close>

definition buffered :: "bytes brotli" where
  "buffered = \<lparr>bl_new = [],
     bl_compress = (\<lambda>e oper input. Some (length input, take 2 (e @ input), drop 2 (e @ input))),
     bl_is_finished = (\<lambda>e. e = []), bl_has_more_output = (\<lambda>e. e \<noteq> [])\<rparr>"

lemma buffered_simps [simp]:
  "bl_new buffered = []" "bl_is_finished buffered e \<longleftrightarrow> e = []" "bl_has_more_output buffered e \<longleftrightarrow> e \<noteq> []"
  "bl_compress buffered e oper input = Some (length input, take 2 (e @ input), drop 2 (e @ input))"
  by (simp_all add: buffered_def)

lemma buffered_calls: "enc_calls buffered e oper rest given sent \<Longrightarrow> rest = [] \<and> given = sent @ e"
proof (induction rule: enc_calls.induct)
  case (next_call e prev rest given sent oper input n out e')
  then have "n = length input" "out = take 2 (e @ input)" "e' = drop 2 (e @ input)"
    by (simp_all del: take_append drop_append)
  moreover from this have "out @ e' = e @ input" by (simp only: append_take_drop_id)
  ultimately show ?case using next_call.IH by simp
qed simp

lemma buffered_nearer:
  "op_incomplete buffered oper [] (drop 2 (e @ input)) \<Longrightarrow> length (drop 2 (e @ input)) < length (e @ input)"
  by (cases oper; cases "e @ input"; simp)

lemma buffered_crate: "brotli_crate buffered Some id"
  unfolding brotli_crate_def
proof (intro conjI exI [of _ "\<lambda>oper e input. length (e @ input)"] allI impI)
  fix e prev rest given sent oper and input :: bytes
  show "\<exists>n out e'. bl_compress buffered e oper input = Some (n, out, e') \<and> n \<le> length input \<and>
      (op_incomplete buffered oper (drop n input) e' \<longrightarrow> length (e' @ drop n input) < length (e @ input))"
    using buffered_nearer [of oper e input] by simp
qed (auto dest: buffered_calls)

section \<open>The chunks of a poll\<close>

text \<open>The chunks one poll takes: those the source has ready, at most thirty-two.\<close>

definition taken :: "bytes polled list \<Rightarrow> bytes" where
  "taken polls = concat (items (takeWhile is_chunk (take 32 polls)))"

lemma poll_ops_shape:
  "poll_ops n polls = process_all (items (takeWhile is_chunk (take n polls))) @
     (case poll_end n polls of Some Done \<Rightarrow> [(FINISH, [])] | Some (Failed err) \<Rightarrow> [] | _ \<Rightarrow> [(FLUSH, [])])"
  by (induction n polls rule: poll_ops.induct) auto

lemma poll_end_mem: "poll_end n polls = Some (Failed err) \<Longrightarrow> Failed err \<in> set polls"
  by (induction n polls rule: poll_end.induct) auto

lemma poll_end_not_chunk: "poll_end n polls \<noteq> Some (Item c)"
  by (induction n polls rule: poll_end.induct) auto

section \<open>Properties\<close>

text \<open>
  C3. A compressed stream carries its source: whatever the sizes of the chunks, wherever the
  source pauses and however the polls batch them, polling to the end terminates, the last result is
  the end of the stream, none is an error, and the pieces sent, put together, decompress to the
  source's bytes. The compressor is any that keeps the crate's contract for single calls.
\<close>

theorem brotli_stream_lossless:
  assumes "brotli_crate B decompress so_far" "\<forall>p\<in>set src. live p" "Suc (length src) < n"
  shows "\<exists>rs. brotli_run B n False (bl_new B) (src @ [Done]) = Some (rs @ [Done]) \<and> (\<forall>r\<in>set rs. live r) \<and>
    decompress (concat (items rs)) = Some (concat (items src))"
  using brotli_run_complete [OF assms(1) enc_ready_new assms(2,3)] by simp

theorem brotli_stream_lossless_witness:
  "\<exists>rs. brotli_run buffered 6 False (bl_new buffered) [Item ''abcde'', Pend, Item ''fgh'', Done] = Some (rs @ [Done]) \<and>
    concat (items rs) = ''abcdefgh''"
  using brotli_stream_lossless [OF buffered_crate, of "[Item ''abcde'', Pend, Item ''fgh'']" 6] by auto

text \<open>
  One poll takes at most thirty-two chunks, feeds them to the encoder in order and ends with
  one flush (or with the finish, at the end of the source); it reports pending only when the source
  is pending and there is nothing to send, and wakes itself when the budget stopped it.
\<close>

theorem brotli_poll_operations:
  assumes "brotli_crate B decompress so_far" "enc_ready B e given sent"
  shows "\<exists>out e'. run_ops B e (poll_ops 32 polls) = Some (out, e') \<and>
    brotli_poll B False e polls = Some \<lparr>po_result = poll_result (poll_end 32 polls) out, po_enc = e',
      po_finished = ends_stream (poll_end 32 polls), po_woken = (poll_end 32 polls = None), po_rest = poll_rest 32 polls\<rparr>"
  using brotli_poll_spec [OF assms] by (simp add: drain_budget_def)

theorem brotli_poll_operations_witness:
  "\<exists>po. brotli_poll stored False () (replicate 33 (Item ''x'')) = Some po \<and> po_woken po \<and> po_rest po = [Item ''x'']"
proof -
  have "poll_end 32 (replicate 33 (Item ''x'')) = None" "poll_rest 32 (replicate 33 (Item ''x'')) = [Item ''x'']"
    by code_simp+
  with brotli_poll_operations [OF stored_crate enc_ready_new, of "replicate 33 (Item ''x'')"] show ?thesis
    by (auto simp: stored_def)
qed

text \<open>
  C7. Compressing ends, with the operation complete: from every state the crate's calls can reach
  in which the code calls it, \<open>encode\<close> returns, its calls have taken the whole input and the
  operation is complete in the crate's terms (all its output is out). Every poll of the stream
  returns; unless the source failed, what has been sent until then decodes to every chunk taken
  until then (nothing waits in the encoder for the next chunk), and at the end of the source it is
  a whole compressed stream of them.
\<close>

theorem encode_terminates:
  assumes "brotli_crate B decompress so_far" "enc_ready B e given sent" "oper = PROCESS \<or> input = []"
  shows "(\<exists>out e'. encode B oper e input = Some (Some (out, e')) \<and>
      enc_calls B e' oper [] (given @ input) (sent @ out) \<and> \<not> op_incomplete B oper [] e') \<and>
    (\<exists>po. brotli_poll B False e polls = Some po \<and>
      (case po_result po of
         Failed err \<Rightarrow> Failed err \<in> set polls
       | r \<Rightarrow>
           if po_finished po then decompress (sent @ concat (items [r])) = Some (given @ taken polls)
           else so_far (sent @ concat (items [r])) = given @ taken polls))"
proof (rule conjI)
  show "\<exists>out e'. encode B oper e input = Some (Some (out, e')) \<and>
      enc_calls B e' oper [] (given @ input) (sent @ out) \<and> \<not> op_incomplete B oper [] e'"
    using encode_ready [OF assms] by metis
next
  obtain out e' where ops: "run_ops B e (poll_ops 32 polls) = Some (out, e')"
    and poll: "brotli_poll B False e polls = Some \<lparr>po_result = poll_result (poll_end 32 polls) out, po_enc = e',
      po_finished = ends_stream (poll_end 32 polls), po_woken = (poll_end 32 polls = None), po_rest = poll_rest 32 polls\<rparr>"
    using brotli_poll_spec [OF assms(1,2), of polls] by (auto simp: drain_budget_def)
  let ?r = "poll_result (poll_end 32 polls) out"
  note shape = poll_ops_shape [of 32 polls]
  consider (failed) err where "poll_end 32 polls = Some (Failed err)" | (ended) "poll_end 32 polls = Some Done"
    | (flushed) "poll_end 32 polls = None \<or> poll_end 32 polls = Some Pend"
    using poll_end_not_chunk [of 32 polls] by (metis option.exhaust polled.exhaust)
  then show "\<exists>po. brotli_poll B False e polls = Some po \<and>
      (case po_result po of Failed err \<Rightarrow> Failed err \<in> set polls
       | r \<Rightarrow> if po_finished po then decompress (sent @ concat (items [r])) = Some (given @ taken polls)
           else so_far (sent @ concat (items [r])) = given @ taken polls)"
  proof cases
    case failed
    then show ?thesis using poll poll_end_mem [OF failed] by (simp add: poll_result_def)
  next
    case ended
    have "decompress (sent @ out) = Some (given @ taken polls)"
      using run_ops_finish [OF assms(1,2), of "process_all (items (takeWhile is_chunk (take 32 polls)))"] ops shape ended
      by (simp add: taken_def)
    with ended poll show ?thesis by (cases "out = []") (simp_all add: poll_result_def ends_stream_def)
  next
    case flushed
    have "so_far (sent @ out) = given @ taken polls"
      using run_ops_flush [OF assms(1,2), of "process_all (items (takeWhile is_chunk (take 32 polls)))"] ops shape flushed
      by (auto simp: taken_def)
    with flushed poll show ?thesis by (auto simp: poll_result_def ends_stream_def)
  qed
qed

theorem encode_terminates_witness:
  "(\<exists>out e'. encode buffered FINISH [] [] = Some (Some (out, e'))) \<and>
    (\<exists>po. brotli_poll buffered False [] [Item ''abc'', Item ''de'', Pend] = Some po \<and>
      concat (items [po_result po]) = ''abcde'')"
proof -
  have "taken [Item ''abc'', Item ''de'', Pend] = ''abcde''" by (simp add: taken_def)
  with encode_terminates [OF buffered_crate enc_ready_new, of FINISH "[]" "[Item ''abc'', Item ''de'', Pend]"]
  show ?thesis by (fastforce split: polled.splits if_splits)
qed

end
