(* ===== verification/Normal_Response.thy ===== *)
theory Normal_Response
  imports Worker Compression Header_Map
begin

text \<open>
  Building the response of a script (\<open>build_normal_response\<close> in \<open>src/handler.rs\<close>): status, content
  type, headers, body. The http crate and the compressor are arguments.
\<close>

section \<open>Responses on the wire\<close>

text \<open>
  A body: none, all of it, the chunks of a channel with the layers put on top (cancellable, brotli),
  or what another server sends.
\<close>

datatype resp_body =
    NoBody
  | FullBody bytes
  | StreamBody bool bool "bytes list"
  | UpstreamBody "bytes polled list"

text \<open>\<open>rp_guarded\<close>: the body is wrapped in a \<open>LoggingBody\<close>, which owns the request's guard.\<close>

record 'h reply =
  rp_status :: "16 word"
  rp_headers :: 'h
  rp_body :: resp_body
  rp_guarded :: bool

text \<open>
  What else the http, brotli and tokio crates give: which status codes exist, the texts of their
  errors, and the one-call compressor.
\<close>

record wire =
  wi_status_ok :: "16 word \<Rightarrow> bool"
  wi_bad_name :: string
  wi_bad_value :: string
  wi_bad_status :: string
  wi_channel_closed :: string
  wi_compress_full :: "bytes \<Rightarrow> (string, bytes) outcome"

section \<open>Custom headers\<close>

text \<open>One entry of the table of headers; \<open>build_normal_response\<close> and the proxy share the code.\<close>

definition append_value :: "'h header_lib \<Rightarrow> string \<Rightarrow> 'h \<Rightarrow> string \<Rightarrow> 'h" where
  "append_value L name h value =
     (case header_value L value of Some v \<Rightarrow> hl_append L name v h | None \<Rightarrow> h)"

definition apply_header :: "'h header_lib \<Rightarrow> wire \<Rightarrow> string \<times> header_val \<Rightarrow> 'h \<Rightarrow> (string, 'h) outcome" where
  "apply_header L W kv h =
     (case header_name L (fst kv) of
        None \<Rightarrow> Err (wi_bad_name W)
      | Some name \<Rightarrow>
          (case snd kv of
             Single s \<Rightarrow>
               (case header_value L s of
                  None \<Rightarrow> Err (wi_bad_value W)
                | Some v \<Rightarrow> Ok (hl_insert L name v h))
           | Multiple vals \<Rightarrow> Ok (foldl (append_value L name) h vals)))"

fun apply_headers :: "'h header_lib \<Rightarrow> wire \<Rightarrow> header_table \<Rightarrow> 'h \<Rightarrow> (string, 'h) outcome" where
  "apply_headers L W [] h = Ok h"
| "apply_headers L W (kv # kvs) h = obind (apply_header L W kv h) (apply_headers L W kvs)"

section \<open>Status and content type\<close>

definition response_status :: "http_response_meta \<Rightarrow> response_transport \<Rightarrow> 16 word" where
  "response_status http_meta body =
     (case meta_status http_meta of
        Some s \<Rightarrow> s
      | None \<Rightarrow> (if body = TEmpty then 204 else 200))"

definition explicit_content_type :: "header_table \<Rightarrow> string option" where
  "explicit_content_type hs =
     Option.bind
       (case map_of hs ''content-type'' of Some hv \<Rightarrow> Some hv | None \<Rightarrow> map_of hs ''Content-Type'')
       (\<lambda>hv. case hv of
          Single s \<Rightarrow> Some s
        | Multiple [] \<Rightarrow> None
        | Multiple (s # _) \<Rightarrow> Some s)"

definition content_type_of :: "string option \<Rightarrow> http_response_meta \<Rightarrow> response_transport \<Rightarrow> string option" where
  "content_type_of inferred http_meta body =
     (case explicit_content_type (meta_headers http_meta) of
        Some ct \<Rightarrow> Some ct
      | None \<Rightarrow>
          (case inferred of
             Some ct \<Rightarrow> Some ct
           | None \<Rightarrow> if body = TEmpty then None else Some ''text/html; charset=utf-8''))"

definition is_sse_type :: "string option \<Rightarrow> bool" where
  "is_sse_type ct = (ct = Some ''text/event-stream'')"

section \<open>Headers\<close>

definition content_type_header :: "'h header_lib \<Rightarrow> wire \<Rightarrow> string option \<Rightarrow> 'h \<Rightarrow> (string, 'h) outcome" where
  "content_type_header L W ct h =
     (case ct of
        None \<Rightarrow> Ok h
      | Some c \<Rightarrow>
          (case header_value L c of
             None \<Rightarrow> Err (wi_bad_value W)
           | Some v \<Rightarrow> Ok (hl_insert L ''content-type'' v h)))"

definition brotli_headers :: "'h header_lib \<Rightarrow> bool \<Rightarrow> 'h \<Rightarrow> 'h" where
  "brotli_headers L use_brotli h =
     (if use_brotli
      then hl_insert L ''vary'' ''accept-encoding'' (hl_insert L ''content-encoding'' ''br'' h)
      else h)"

definition sse_headers :: "'h header_lib \<Rightarrow> bool \<Rightarrow> 'h \<Rightarrow> 'h" where
  "sse_headers L is_sse h =
     (if is_sse then hl_insert L ''connection'' ''keep-alive'' (hl_insert L ''cache-control'' ''no-cache'' h)
      else h)"

text \<open>
  The headers a script sets go last, so that they can replace the ones above. \<open>to_lowercase\<close> is
  Unicode's in the source; no character outside ASCII lowers to a letter of \<open>content-type\<close>.
\<close>

definition custom_headers :: "header_table \<Rightarrow> header_table" where
  "custom_headers hs = filter (\<lambda>kv. to_lower (fst kv) \<noteq> ''content-type'') hs"

definition response_headers :: "'h header_lib \<Rightarrow> wire \<Rightarrow> bool \<Rightarrow> string option \<Rightarrow> header_table \<Rightarrow> (string, 'h) outcome" where
  "response_headers L W use_brotli ct hs =
     obind (content_type_header L W ct (hl_empty L))
       (\<lambda>h. apply_headers L W (custom_headers hs)
          (sse_headers L (is_sse_type ct) (brotli_headers L use_brotli h)))"

section \<open>The response\<close>

definition response_body :: "wire \<Rightarrow> bool \<Rightarrow> bool \<Rightarrow> response_transport \<Rightarrow> (string, resp_body) outcome" where
  "response_body W use_brotli is_sse body =
     (case body of
        TEmpty \<Rightarrow> Ok NoBody
      | TFull b \<Rightarrow> if use_brotli then obind (wi_compress_full W b) (\<lambda>c. Ok (FullBody c)) else Ok (FullBody b)
      | TStream chunks \<Rightarrow> Ok (StreamBody is_sse use_brotli chunks))"

text \<open>
  \<open>build_normal_response\<close>: the outcome and what it logs. The response is logged before the body is
  made; \<open>builder.headers_mut().unwrap()\<close> panics if the builder was given a status that does not
  exist. \<open>latency\<close> is the time elapsed in milliseconds.
\<close>

definition build_normal_response :: "'h header_lib \<Rightarrow> wire \<Rightarrow> pipeline_result \<Rightarrow> bool \<Rightarrow> string \<Rightarrow> 64 word \<Rightarrow>
    (string, 'h reply) outcome \<times> log_event list" where
  "build_normal_response L W pipeline_result use_brotli request_id latency =
     (case pipeline_result of
        (inferred, http_meta, body) \<Rightarrow>
          let status = response_status http_meta body;
              ct = content_type_of inferred http_meta body
          in case response_headers L W use_brotli ct (meta_headers http_meta) of
               Err e \<Rightarrow> (Err e, [])
             | Panic m \<Rightarrow> (Panic m, [])
             | Ok h \<Rightarrow>
                 (if \<not> wi_status_ok W status then Panic ''called `Option::unwrap()` on a `None` value''
                  else obind (response_body W use_brotli (is_sse_type ct) body)
                    (\<lambda>b. Ok \<lparr>rp_status = status, rp_headers = h, rp_body = b, rp_guarded = True\<rparr>),
                  log_response L request_id status h latency))"

section \<open>What a streaming body yields\<close>

text \<open>
  The layers of a streamed body over its channel: at each poll, whether the token is cancelled and
  what the receiver would yield. Cancellation is only looked at for event streams.
\<close>

definition stream_polls :: "'e brotli \<Rightarrow> nat \<Rightarrow> bool \<Rightarrow> bool \<Rightarrow> (bool \<times> bytes polled) list \<Rightarrow> bytes polled list option" where
  "stream_polls B n is_sse use_brotli ps =
     (let src = (if is_sse then sse_run True ps else map snd ps)
      in if use_brotli then brotli_run B n False (bl_new B) src else Some src)"

section \<open>Laws of the header table\<close>

text \<open>What a table entry makes of the values a name had.\<close>

fun header_effect :: "'h header_lib \<Rightarrow> header_val option \<Rightarrow> string list \<Rightarrow> string list" where
  "header_effect L None base = base"
| "header_effect L (Some (Single s)) base = [s]"
| "header_effect L (Some (Multiple vals)) base = base @ filter (\<lambda>v. header_value L v \<noteq> None) vals"

definition lower_table :: "header_table \<Rightarrow> header_table" where
  "lower_table hs = map (\<lambda>kv. (to_lower (fst kv), snd kv)) hs"

lemma lower_table_simps [simp]: "lower_table [] = []"
  "lower_table (kv # hs) = (to_lower (fst kv), snd kv) # lower_table hs"
  by (simp_all add: lower_table_def)

lemma apply_headers_no_panic [simp]: "apply_headers L W kvs h \<noteq> Panic m"
  by (induction kvs arbitrary: h) (auto simp: obind_Panic_iff apply_header_def split: option.splits header_val.splits)

lemma response_headers_no_panic [simp]: "response_headers L W br ct hs \<noteq> Panic m"
  by (auto simp: response_headers_def obind_Panic_iff content_type_header_def split: option.splits)

text \<open>The table is rejected exactly for a bad name or a bad single value.\<close>

definition header_entry_ok :: "'h header_lib \<Rightarrow> string \<times> header_val \<Rightarrow> bool" where
  "header_entry_ok L kv \<longleftrightarrow> header_name L (fst kv) \<noteq> None \<and>
     (case snd kv of Single s \<Rightarrow> header_value L s \<noteq> None | Multiple vs \<Rightarrow> True)"

lemma apply_header_Ok: "(\<exists>h'. apply_header L W kv h = Ok h') \<longleftrightarrow> header_entry_ok L kv"
  by (auto simp: apply_header_def header_entry_ok_def split: option.splits header_val.splits)

lemma apply_headers_Ok: "(\<exists>h'. apply_headers L W kvs h = Ok h') \<longleftrightarrow> list_all (header_entry_ok L) kvs"
proof (induction kvs arbitrary: h)
  case (Cons kv kvs)
  then show ?case using apply_header_Ok [of L W kv h] by (auto simp: obind_Ok_iff)
qed simp

lemma response_headers_Ok:
  "(\<exists>h. response_headers L W br ct hs = Ok h) \<longleftrightarrow>
    (\<forall>c. ct = Some c \<longrightarrow> header_value L c \<noteq> None) \<and> list_all (header_entry_ok L) (custom_headers hs)"
  using apply_headers_Ok [of L W "custom_headers hs"]
  by (cases ct) (auto simp: response_headers_def obind_Ok_iff content_type_header_def split: option.splits)

text \<open>The headers the server sets itself.\<close>

definition own_values :: "bool \<Rightarrow> string option \<Rightarrow> string \<Rightarrow> string list" where
  "own_values br ct n =
     (if n = ''content-type'' then (case ct of Some c \<Rightarrow> [c] | None \<Rightarrow> [])
      else if br \<and> n = ''content-encoding'' then [''br'']
      else if br \<and> n = ''vary'' then [''accept-encoding'']
      else if is_sse_type ct \<and> n = ''cache-control'' then [''no-cache'']
      else if is_sse_type ct \<and> n = ''connection'' then [''keep-alive'']
      else [])"

context header_map
begin

lemma get_all_append_values:
  "hl_get_all L (foldl (append_value L m) h vals) n =
    (if n = m then hl_get_all L h n @ filter (\<lambda>v. header_value L v \<noteq> None) vals else hl_get_all L h n)"
  by (induction vals arbitrary: h)
    (auto simp: append_value_def get_all_append dest: header_value_same split: option.splits)

lemma get_all_apply_header:
  assumes "apply_header L W kv h = Ok h'"
  shows "hl_get_all L h' n =
    (if n = to_lower (fst kv) then header_effect L (Some (snd kv)) (hl_get_all L h n) else hl_get_all L h n)"
  using assms
  by (auto simp: apply_header_def get_all_append_values get_all_insert
    dest!: header_name_lower header_value_same split: option.splits header_val.splits)

lemma get_all_apply_headers:
  assumes "apply_headers L W kvs h = Ok h'" "distinct (map fst (lower_table kvs))"
  shows "hl_get_all L h' n = header_effect L (map_of (lower_table kvs) n) (hl_get_all L h n)"
  using assms
proof (induction kvs arbitrary: h)
  case (Cons kv kvs)
  then obtain h1 where h1: "apply_header L W kv h = Ok h1" "apply_headers L W kvs h1 = Ok h'"
    by (auto simp: obind_Ok_iff)
  with Cons have "hl_get_all L h' n = header_effect L (map_of (lower_table kvs) n) (hl_get_all L h1 n)" by simp
  moreover have "n = to_lower (fst kv) \<Longrightarrow> map_of (lower_table kvs) n = None"
    using Cons(3) by (auto simp: map_of_eq_None_iff)
  ultimately show ?case using get_all_apply_header [OF h1(1), of n] by auto
qed simp

text \<open>Whatever the table, a name none of its keys stands for keeps its values.\<close>

lemma get_all_apply_headers_other:
  assumes "apply_headers L W kvs h = Ok h'" "n \<notin> fst ` set (lower_table kvs)"
  shows "hl_get_all L h' n = hl_get_all L h n"
  using assms
proof (induction kvs arbitrary: h)
  case (Cons kv kvs)
  then obtain h1 where h1: "apply_header L W kv h = Ok h1" "apply_headers L W kvs h1 = Ok h'"
    by (auto simp: obind_Ok_iff)
  with Cons show ?case using get_all_apply_header [OF h1(1), of n] by auto
qed simp

lemma get_all_own:
  assumes "content_type_header L W ct (hl_empty L) = Ok h"
  shows "hl_get_all L (sse_headers L (is_sse_type ct) (brotli_headers L br h)) n = own_values br ct n"
proof -
  have "hl_get_all L h n = (if n = ''content-type'' then (case ct of Some c \<Rightarrow> [c] | None \<Rightarrow> []) else [])"
    using assms by (auto simp: content_type_header_def get_all_simps dest!: header_value_same split: option.splits)
  then show ?thesis
    by (cases "n = ''content-type''") (simp_all add: sse_headers_def brotli_headers_def own_values_def get_all_simps)
qed

lemma get_all_response_headers:
  assumes "response_headers L W br ct hs = Ok h" "distinct (map fst (lower_table (custom_headers hs)))"
  shows "hl_get_all L h n = header_effect L (map_of (lower_table (custom_headers hs)) n) (own_values br ct n)"
  using assms by (auto simp: response_headers_def obind_Ok_iff get_all_apply_headers get_all_own)

lemma content_type_response_headers:
  assumes "response_headers L W br ct hs = Ok h"
  shows "hl_get_all L h ''content-type'' = (case ct of Some c \<Rightarrow> [c] | None \<Rightarrow> [])"
proof -
  have "''content-type'' \<notin> fst ` set (lower_table (custom_headers hs))"
    by (auto simp: lower_table_def custom_headers_def)
  with assms show ?thesis
    by (auto simp: response_headers_def obind_Ok_iff get_all_own own_values_def
      dest!: get_all_apply_headers_other [where n = "''content-type''"])
qed

end

text \<open>A cancelled event stream.\<close>

lemma cancelled_polls:
  assumes "brotli_crate B decompress so_far" "\<forall>p\<in>set before. \<not> fst p \<and> live (snd p)" "length before < n"
  shows "\<exists>rs kept lost. stream_polls B n True br (before @ (True, rx) # after) =
      Some (rs @ Failed ''sse cancelled'' # (if br then [] else replicate (length after) Done)) \<and>
    (\<forall>r\<in>set rs. live r) \<and> (\<not> br \<longrightarrow> rs = map snd before) \<and>
    (br \<longrightarrow> map snd before = kept @ lost \<and> (\<forall>p\<in>set lost. is_chunk p) \<and> length lost < 32 \<and>
      (if kept = [] then rs = [] else so_far (concat (items rs)) = concat (items kept)))"
proof -
  have "\<forall>p\<in>set before. \<not> fst p \<and> snd p \<noteq> Done \<and> (\<forall>e. snd p \<noteq> Failed e)" using assms(2) by auto
  note src = sse_run_cancelled [OF this, of rx after]
  have "\<forall>p\<in>set (map snd before). live p" using assms(2) by auto
  from brotli_run_failed [OF assms(1) enc_ready_new this, of n "''sse cancelled''" "replicate (length after) Done"] assms(3)
  obtain rs kept lost where cut: "brotli_run B n False (bl_new B) (map snd before @ Failed ''sse cancelled'' # replicate (length after) Done) =
      Some (rs @ [Failed ''sse cancelled''])" "\<forall>r\<in>set rs. live r" "map snd before = kept @ lost" "\<forall>p\<in>set lost. is_chunk p"
      "length lost < 32" "if kept = [] then rs = [] else so_far (concat (items rs)) = concat (items kept)"
    unfolding drain_budget_def append_Nil length_map by blast
  show ?thesis
  proof (cases br)
    case True
    with cut src show ?thesis
      by (intro exI [of _ rs] exI [of _ kept] exI [of _ lost]) (simp add: stream_polls_def)
  next
    case False
    with src \<open>\<forall>p\<in>set (map snd before). live p\<close> show ?thesis
      by (intro exI [of _ "map snd before"]) (simp add: stream_polls_def)
  qed
qed

text \<open>Codes and error texts for the examples.\<close>

definition test_wire :: wire where
  "test_wire = \<lparr>wi_status_ok = (\<lambda>s. 100 \<le> s \<and> s \<le> 999), wi_bad_name = ''bad name'', wi_bad_value = ''bad value'',
     wi_bad_status = ''bad status'', wi_channel_closed = ''channel closed'', wi_compress_full = Ok\<rparr>"

section \<open>Properties\<close>

text \<open>
  C25. A response has at most one content type: the one the script put into its headers (spelled
  \<open>content-type\<close> or \<open>Content-Type\<close>), else the one of the evaluation, else, for a body, HTML. The
  other headers of the script can neither replace nor repeat it.
\<close>

theorem one_content_type:
  assumes "header_map L" "build_normal_response L W (inferred, m, body) br rid latency = (Ok r, evs)"
  shows "hl_get_all L (rp_headers r) ''content-type'' =
    (case explicit_content_type (meta_headers m) of
       Some ct \<Rightarrow> [ct]
     | None \<Rightarrow> (case inferred of
         Some ct \<Rightarrow> [ct]
       | None \<Rightarrow> if body = TEmpty then [] else [''text/html; charset=utf-8'']))"
proof -
  obtain h where "response_headers L W br (content_type_of inferred m body) (meta_headers m) = Ok h" "rp_headers r = h"
    using assms(2) by (auto simp: build_normal_response_def Let_def obind_Ok_iff split: outcome.splits if_splits)
  then show ?thesis
    using header_map.content_type_response_headers [OF assms(1)]
    by (auto simp: content_type_of_def split: option.split)
qed

theorem one_content_type_witness:
  "\<exists>r evs. build_normal_response alist_header_lib test_wire
      (Some ''application/json'', \<lparr>meta_status = None, meta_headers = [(''CONTENT-TYPE'', Single ''text/css'')]\<rparr>, TFull ''x'')
      False ''id'' 5 = (Ok r, evs) \<and> hl_get_all alist_header_lib (rp_headers r) ''content-type'' = [''application/json'']"
proof -
  let ?m = "\<lparr>meta_status = None, meta_headers = [(''CONTENT-TYPE'', Single ''text/css'')]\<rparr>"
  have "fst (build_normal_response alist_header_lib test_wire (Some ''application/json'', ?m, TFull ''x'') False ''id'' 5) =
      Ok \<lparr>rp_status = 200, rp_headers = [(''content-type'', ''application/json'')], rp_body = FullBody ''x'', rp_guarded = True\<rparr>"
    by code_simp
  then obtain r evs where r: "build_normal_response alist_header_lib test_wire
      (Some ''application/json'', ?m, TFull ''x'') False ''id'' 5 = (Ok r, evs)" by (metis prod.collapse)
  have "explicit_content_type (meta_headers ?m) = None" by (simp add: explicit_content_type_def)
  with one_content_type [OF alist_headers.header_map_axioms r] r show ?thesis by auto
qed

text \<open>
  C24. The values of every other header are a function of the table of headers, not of the order in
  which the hash map is walked, when no two keys are spellings of one name: a string replaces what
  the server set, a list adds its legal values, and a name the script does not mention keeps the
  server's own values.
\<close>

theorem header_table_effect:
  assumes "header_map L" "response_headers L W br ct hs = Ok h"
    and "distinct (map (to_lower \<circ> fst) (custom_headers hs))"
  shows "hl_get_all L h n =
    header_effect L (map_of (lower_table (custom_headers hs)) n) (own_values br ct n)"
  using assms by (intro header_map.get_all_response_headers) (simp_all add: lower_table_def o_def)

theorem header_table_effect_witness:
  "\<exists>h. response_headers alist_header_lib test_wire True (Some ''text/event-stream'')
      [(''Cache-Control'', Single ''no-store''), (''Vary'', Multiple [''a'', ''b''])] = Ok h \<and>
    hl_get_all alist_header_lib h ''cache-control'' = [''no-store''] \<and>
    hl_get_all alist_header_lib h ''vary'' = [''accept-encoding'', ''a'', ''b''] \<and>
    hl_get_all alist_header_lib h ''connection'' = [''keep-alive'']"
proof -
  let ?hs = "[(''Cache-Control'', Single ''no-store''), (''Vary'', Multiple [''a'', ''b''])]"
  have "list_all (header_entry_ok alist_header_lib) (custom_headers ?hs)" by code_simp
  then obtain h where h: "response_headers alist_header_lib test_wire True (Some ''text/event-stream'') ?hs = Ok h"
    using response_headers_Ok [of alist_header_lib test_wire True "Some ''text/event-stream''" ?hs]
    by (auto simp: alist_header_lib_def is_value_byte_def byte_of_def)
  have d: "distinct (map (to_lower \<circ> fst) (custom_headers ?hs))" by code_simp
  have t: "lower_table (custom_headers ?hs) = [(''cache-control'', Single ''no-store''), (''vary'', Multiple [''a'', ''b''])]"
    by code_simp
  have "header_value alist_header_lib ''a'' \<noteq> None" "header_value alist_header_lib ''b'' \<noteq> None" by code_simp+
  with h header_table_effect [OF alist_headers.header_map_axioms h d, unfolded t] show ?thesis
    by (simp add: own_values_def is_sse_type_def)
qed

text \<open>
  C36. Building a response fails exactly for an illegal content type, header name or single header
  value (or a compressor that fails), and panics exactly when the headers are legal and the status
  is not an HTTP status; such a status is logged before the panic.
\<close>

theorem build_normal_response_panics:
  assumes "\<And>b. \<not> is_panic (wi_compress_full W b)"
  shows "is_panic (fst (build_normal_response L W (inferred, m, body) br rid latency)) \<longleftrightarrow>
    (\<forall>c. content_type_of inferred m body = Some c \<longrightarrow> header_value L c \<noteq> None) \<and>
    list_all (header_entry_ok L) (custom_headers (meta_headers m)) \<and> \<not> wi_status_ok W (response_status m body)"
proof -
  have "\<not> is_panic (response_body W br sse body)" for sse
    using assms by (simp add: response_body_def split: response_transport.split)
  then show ?thesis
    using response_headers_Ok [of L W br "content_type_of inferred m body" "meta_headers m"]
    by (cases "response_headers L W br (content_type_of inferred m body) (meta_headers m)")
      (auto simp: build_normal_response_def Let_def)
qed

theorem build_normal_response_panics_witness:
  "is_panic (fst (build_normal_response alist_header_lib test_wire
      (None, \<lparr>meta_status = Some 99, meta_headers = []\<rparr>, TEmpty) False ''id'' 5))"
proof -
  have "\<And>b. \<not> is_panic (wi_compress_full test_wire b)" by (simp add: test_wire_def)
  from build_normal_response_panics [OF this, of alist_header_lib None "\<lparr>meta_status = Some 99, meta_headers = []\<rparr>" TEmpty]
  show ?thesis
    by (simp add: content_type_of_def explicit_content_type_def custom_headers_def response_status_def test_wire_def)
qed

text \<open>
  A cancelled event stream never ends cleanly: uncompressed, all chunks up to the cancellation are
  passed on, then comes an error; compressed, what is sent before the error decodes to all of them
  but the chunks (fewer than thirty-two) that the failing poll had taken, and the brotli stream is
  not finished, so that the client reconnects.
\<close>

theorem cancelled_stream_fails:
  assumes "brotli_crate B decompress so_far" "\<forall>p\<in>set before. \<not> fst p \<and> live (snd p)" "length before < n"
  shows "\<exists>rs kept lost. stream_polls B n True br (before @ (True, rx) # after) =
      Some (rs @ Failed ''sse cancelled'' # (if br then [] else replicate (length after) Done)) \<and>
    (\<forall>r\<in>set rs. live r) \<and> (\<not> br \<longrightarrow> rs = map snd before) \<and>
    (br \<longrightarrow> map snd before = kept @ lost \<and> (\<forall>p\<in>set lost. is_chunk p) \<and> length lost < 32 \<and>
      (if kept = [] then rs = [] else so_far (concat (items rs)) = concat (items kept)))"
  using assms by (rule cancelled_polls)

theorem cancelled_stream_fails_witness:
  "\<exists>rs. stream_polls stored 3 True True [(False, Item ''a''), (False, Pend), (True, Item ''b'')] =
      Some (rs @ [Failed ''sse cancelled'']) \<and> (\<forall>r\<in>set rs. live r)"
  using cancelled_stream_fails [OF stored_crate, of "[(False, Item ''a''), (False, Pend)]" 3 True "Item ''b''" "[]"]
  by auto

end
