(* ===== verification/Handler.thy ===== *)
theory Handler
  imports Normal_Response
begin

text \<open>
  Handling one request (\<open>src/handler.rs\<close>): the request record, the embedded Datastar bundle, the
  evaluation, the dispatch on what the script asked for, static files and the reverse proxy. The
  services of other crates (\<open>ServeDir\<close>, the HTTP client, the parser of URIs, the form encoding) are
  arguments.
\<close>

section \<open>The request\<close>

text \<open>What hyper delivers: the head of the request and the frames of its body.\<close>

record 'h incoming =
  in_version :: string
  in_method :: string
  in_uri :: uri
  in_headers :: 'h
  in_frames :: "frame polled list"

text \<open>
  The task that reads the frames and the byte stream made from its channel: data frames become
  reads (an empty one is skipped by the reader), an error ends them.
\<close>

fun body_reads :: "frame polled list \<Rightarrow> read_result list" where
  "body_reads [] = []"
| "body_reads (Item (DataFrame b) # ps) = (if b = [] then body_reads ps else ReadOk b # body_reads ps)"
| "body_reads (Item TrailersFrame # ps) = body_reads ps"
| "body_reads (Failed err # ps) = [ReadErr (IoShell (Generic ''Body read error'' err))]"
| "body_reads (Done # ps) = []"
| "body_reads (Pend # ps) = body_reads ps"

record 'net app_config =
  trusted_proxies :: "'net list"
  datastar :: bool
  dev :: bool

text \<open>The other crates' services.\<close>

record ('h, 'net) services =
  sv_contains :: "'net \<Rightarrow> ip_addr \<Rightarrow> bool"
  sv_show_ip :: "ip_addr \<Rightarrow> string"
  sv_accepts_brotli :: "'h \<Rightarrow> bool"
  sv_parse_query :: "string \<Rightarrow> (string \<times> string) list"
  sv_form_encode :: "(string \<times> string) list \<Rightarrow> string"
  sv_parse_uri :: "string \<Rightarrow> (string, uri) outcome"
  sv_datastar_js :: bytes
  sv_datastar_br :: bytes
  sv_path_join :: "string \<Rightarrow> string \<Rightarrow> string"
  sv_serve_dir :: "string \<Rightarrow> string option \<Rightarrow> string \<Rightarrow> uri \<Rightarrow> 'h \<Rightarrow>
    (string, 16 word \<times> 'h \<times> (string, bytes) outcome) outcome"
  sv_client :: "string \<Rightarrow> uri \<Rightarrow> 'h \<Rightarrow> bytes \<Rightarrow> (16 word \<times> 'h \<times> bytes polled list) option"

definition build_request :: "'h header_lib \<Rightarrow> ('h, 'net) services \<Rightarrow> 'net app_config \<Rightarrow>
    (ip_addr \<times> 16 word) option \<Rightarrow> 'h incoming \<Rightarrow> 'h request" where
  "build_request L S config addr req =
     (let peer = map_option fst addr in
      \<lparr>proto = in_version req, req_method = in_method req, authority = uri_authority (in_uri req),
       remote_ip = peer, remote_port = map_option snd addr,
       trusted_ip = resolve_trusted_ip L (sv_contains S) (in_headers req) peer (trusted_proxies config),
       headers = in_headers req, req_uri = in_uri req, path = uri_path (in_uri req),
       query = (case uri_query (in_uri req) of
                  None \<Rightarrow> []
                | Some v \<Rightarrow> foldl (\<lambda>m kv. map_insert (fst kv) (snd kv) m) [] (sv_parse_query S v))\<rparr>)"

section \<open>The Datastar bundle\<close>

definition datastar_js_path :: string where
  "datastar_js_path = ''/datastar@1.0.1.js''"

definition datastar_headers :: "'h header_lib \<Rightarrow> bool \<Rightarrow> 'h" where
  "datastar_headers L use_brotli =
     (let h = hl_insert L ''cache-control'' ''public, max-age=31536000, immutable''
                (hl_insert L ''content-type'' ''application/javascript'' (hl_empty L))
      in brotli_headers L use_brotli h)"

definition datastar_reply :: "'h header_lib \<Rightarrow> ('h, 'net) services \<Rightarrow> bool \<Rightarrow> 'h reply" where
  "datastar_reply L S use_brotli =
     \<lparr>rp_status = 200, rp_headers = datastar_headers L use_brotli,
      rp_body = FullBody (if use_brotli then sv_datastar_br S else sv_datastar_js S), rp_guarded = True\<rparr>"

section \<open>Static files\<close>

text \<open>\<open>format!("/{path}").parse().unwrap()\<close> panics on a path that is not one of a URI.\<close>

definition static_reply :: "'h header_lib \<Rightarrow> ('h, 'net) services \<Rightarrow> string \<Rightarrow> 64 word \<Rightarrow> 'h incoming \<Rightarrow> static_params \<Rightarrow>
    (string, 'h reply) outcome \<times> log_event list" where
  "static_reply L S request_id latency req p =
     (case sv_parse_uri S (CHR ''/'' # st_path p) of
        Err e \<Rightarrow> (Panic (''called `Result::unwrap()` on an `Err` value: '' @ e), [])
      | Panic m \<Rightarrow> (Panic m, [])
      | Ok u \<Rightarrow>
          (case sv_serve_dir S (st_root p) (map_option (sv_path_join S (st_root p)) (st_fallback p))
                  (in_method req) u (in_headers req) of
             Err e \<Rightarrow> (Err e, [])
           | Panic m \<Rightarrow> (Panic m, [])
           | Ok (status, h, body) \<Rightarrow>
               (obind body (\<lambda>b. Ok \<lparr>rp_status = status, rp_headers = h, rp_body = FullBody b, rp_guarded = True\<rparr>),
                log_response L request_id status h latency)))"

section \<open>The reverse proxy\<close>

text \<open>The path forwarded: the prefix removed if it is one, and a leading slash ensured.\<close>

definition stripped_path :: "string option \<Rightarrow> string \<Rightarrow> string" where
  "stripped_path pre_opt p =
     (case pre_opt of
        None \<Rightarrow> p
      | Some pre \<Rightarrow> (case strip_prefix p pre of Some rest \<Rightarrow> rest | None \<Rightarrow> p))"

definition proxy_path :: "string option \<Rightarrow> string \<Rightarrow> string" where
  "proxy_path pre_opt p =
     (let q = stripped_path pre_opt p in if starts_with q ''/'' then q else CHR ''/'' # q)"

definition proxy_query :: "('h, 'net) services \<Rightarrow> (string \<times> string) list option \<Rightarrow> uri \<Rightarrow> string" where
  "proxy_query S custom_query u =
     (case custom_query of
        Some q \<Rightarrow> sv_form_encode S q
      | None \<Rightarrow> (case uri_query u of Some q \<Rightarrow> q | None \<Rightarrow> []))"

definition proxy_target :: "('h, 'net) services \<Rightarrow> proxy_params \<Rightarrow> uri \<Rightarrow> string" where
  "proxy_target S p u =
     (let pth = proxy_path (px_strip_prefix p) (uri_path u);
          query_string = proxy_query S (px_query p) u
      in if query_string = [] then px_target_url p @ pth
         else px_target_url p @ pth @ ''?'' @ query_string)"

definition content_length_header :: "'h header_lib \<Rightarrow> wire \<Rightarrow> bytes \<Rightarrow> 'h \<Rightarrow> (string, 'h) outcome" where
  "content_length_header L W request_body h =
     (if request_body \<noteq> [] \<or> hl_contains L h ''content-length'' then
        (case header_value L (nat_str (length request_body)) of
           None \<Rightarrow> Err (wi_bad_value W)
         | Some v \<Rightarrow> Ok (hl_insert L ''content-length'' v h))
      else Ok h)"

definition host_header :: "'h header_lib \<Rightarrow> wire \<Rightarrow> ('h, 'net) services \<Rightarrow> proxy_params \<Rightarrow> 'h \<Rightarrow> (string, 'h) outcome" where
  "host_header L W S p h =
     (if px_preserve_host p then Ok h
      else
        (case sv_parse_uri S (px_target_url p) of
           Ok target_uri \<Rightarrow>
             (case uri_authority target_uri of
                None \<Rightarrow> Ok h
              | Some a \<Rightarrow>
                  (case header_value L a of
                     None \<Rightarrow> Err (wi_bad_value W)
                   | Some v \<Rightarrow> Ok (hl_insert L ''host'' v h)))
         | Err e \<Rightarrow> Ok h
         | Panic m \<Rightarrow> Panic m))"

definition proxy_headers :: "'h header_lib \<Rightarrow> wire \<Rightarrow> ('h, 'net) services \<Rightarrow> proxy_params \<Rightarrow> 'h \<Rightarrow> (string, 'h) outcome" where
  "proxy_headers L W S p h =
     obind (content_length_header L W (px_request_body p) h)
       (\<lambda>h1. obind (apply_headers L W (px_headers p) h1) (host_header L W S p))"

definition proxy_reply :: "'h header_lib \<Rightarrow> wire \<Rightarrow> ('h, 'net) services \<Rightarrow> string \<Rightarrow> 64 word \<Rightarrow> 'h incoming \<Rightarrow>
    proxy_params \<Rightarrow> (string, 'h reply) outcome \<times> log_event list" where
  "proxy_reply L W S request_id latency req p =
     (case obind (sv_parse_uri S (proxy_target S p (in_uri req)))
             (\<lambda>u. obind (proxy_headers L W S p (in_headers req)) (\<lambda>h. Ok (u, h))) of
        Err e \<Rightarrow> (Err e, [])
      | Panic m \<Rightarrow> (Panic m, [])
      | Ok (u, h) \<Rightarrow>
          (case sv_client S (in_method req) u h (px_request_body p) of
             Some (status, h', body) \<Rightarrow>
               (Ok \<lparr>rp_status = status, rp_headers = h', rp_body = UpstreamBody body, rp_guarded = True\<rparr>,
                log_response L request_id status h' latency)
           | None \<Rightarrow>
               (Ok \<lparr>rp_status = 502, rp_headers = hl_empty L, rp_body = FullBody ''Bad Gateway'', rp_guarded = True\<rparr>,
                log_response L request_id 502 (hl_empty L) latency)))"

section \<open>Dispatch\<close>

text \<open>
  \<open>handle_inner\<close>: \<open>eval\<close> is the evaluation of the script on the request (the thread of
  \<open>spawn_eval_thread\<close>), run only when the bundle is not what is asked for. The second component is
  what is logged by the time the function returns; a guard that was not put into a body is dropped
  there, which logs the completion with no bytes sent.
\<close>

definition special_reply :: "'h header_lib \<Rightarrow> wire \<Rightarrow> ('h, 'net) services \<Rightarrow> string \<Rightarrow> 64 word \<Rightarrow> 'h incoming \<Rightarrow>
    response option \<Rightarrow> pipeline_result option \<Rightarrow> (string, 'h reply) outcome \<times> log_event list" where
  "special_reply L W S request_id latency req special body_result =
     (case map_option body_type special of
        Some (Static p) \<Rightarrow> static_reply L S request_id latency req p
      | Some (ReverseProxy p) \<Rightarrow> proxy_reply L W S request_id latency req p
      | _ \<Rightarrow>
          (case body_result of
             None \<Rightarrow> (Err (wi_channel_closed W), [])
           | Some res \<Rightarrow>
               build_normal_response L W res (sv_accepts_brotli S (in_headers req)) request_id latency))"

definition drop_guard :: "string \<Rightarrow> 64 word \<Rightarrow> (string, 'h reply) outcome \<times> log_event list \<Rightarrow>
    (string, 'h reply) outcome \<times> log_event list" where
  "drop_guard request_id duration res =
     (case res of
        (Ok r, evs) \<Rightarrow> (Ok r, evs)
      | (e, evs) \<Rightarrow> (e, evs @ log_complete request_id 0 duration))"

definition handle_inner :: "'h header_lib \<Rightarrow> wire \<Rightarrow> ('h, 'net) services \<Rightarrow> 'net app_config \<Rightarrow>
    (nu_value \<Rightarrow> byte_stream \<Rightarrow> worker) \<Rightarrow> (ip_addr \<times> 16 word) option \<Rightarrow> string \<Rightarrow> 64 word \<Rightarrow> 'h incoming \<Rightarrow>
    (string, 'h reply) outcome \<times> log_event list" where
  "handle_inner L W S config eval addr request_id latency req =
     (let request = build_request L S config addr req;
          logged = log_request L (sv_show_ip S) request_id request;
          res =
            (if datastar config \<and> path request = datastar_js_path then
               let use_brotli = sv_accepts_brotli S (in_headers req) in
               (Ok (datastar_reply L S use_brotli),
                log_response L request_id 200 (datastar_headers L use_brotli) latency)
             else
               let w = eval (request_to_value L (sv_show_ip S) request) (Some (body_reads (in_frames req))) in
               special_reply L W S request_id latency req (received_meta w) (received_body w))
      in case drop_guard request_id latency res of (r, evs) \<Rightarrow> (r, logged @ evs))"

text \<open>\<open>handle\<close>: an error becomes a 500 of its own, which is not logged as a response.\<close>

definition error_reply :: "'h header_lib \<Rightarrow> wire \<Rightarrow> string \<Rightarrow> (string, 'h reply) outcome" where
  "error_reply L W err =
     (if wi_status_ok W 500
      then Ok \<lparr>rp_status = 500, rp_headers = hl_empty L, rp_body = FullBody (''Script error: '' @ err), rp_guarded = False\<rparr>
      else Err (wi_bad_status W))"

definition handle :: "'h header_lib \<Rightarrow> wire \<Rightarrow> ('h, 'net) services \<Rightarrow> 'net app_config \<Rightarrow>
    (nu_value \<Rightarrow> byte_stream \<Rightarrow> worker) \<Rightarrow> (ip_addr \<times> 16 word) option \<Rightarrow> string \<Rightarrow> 64 word \<Rightarrow> 'h incoming \<Rightarrow>
    (string, 'h reply) outcome \<times> log_event list" where
  "handle L W S config eval addr request_id latency req =
     (case handle_inner L W S config eval addr request_id latency req of
        (Ok r, evs) \<Rightarrow> (Ok r, evs)
      | (Panic m, evs) \<Rightarrow> (Panic m, evs)
      | (Err e, evs) \<Rightarrow> (error_reply L W e, evs))"

section \<open>Laws of the proxy\<close>

text \<open>The authority of a URL: what stands between \<open>://\<close> and the path, the query or the fragment.\<close>

fun after_scheme :: "string \<Rightarrow> string" where
  "after_scheme [] = []"
| "after_scheme (c # s) = (case strip_prefix (c # s) ''://'' of Some r \<Rightarrow> r | None \<Rightarrow> after_scheme s)"

definition url_authority :: "string \<Rightarrow> string" where
  "url_authority s = takeWhile (\<lambda>c. c \<notin> {CHR ''/'', CHR ''?'', CHR ''#''}) (after_scheme s)"

lemma after_scheme_append: "CHR '':'' \<notin> set scheme \<Longrightarrow> after_scheme (scheme @ ''://'' @ s) = s"
  by (induction scheme) auto

lemma proxy_path_slash: "\<exists>r. proxy_path pre p = CHR ''/'' # r"
  by (auto simp: proxy_path_def Let_def starts_with_iff)

lemma proxy_target_slash: "\<exists>r. proxy_target S p u = px_target_url p @ CHR ''/'' # r"
  using proxy_path_slash [of "px_strip_prefix p" "uri_path u"] by (auto simp: proxy_target_def Let_def)

lemma takeWhile_stop: "\<not> P c \<Longrightarrow> takeWhile P (xs @ c # ys) = takeWhile P xs"
  by (induction xs) auto

context header_map
begin

lemma content_length_get:
  assumes "content_length_header L W b h = Ok h'"
  shows "hl_get_all L h' n =
    (if n = ''content-length'' \<and> (b \<noteq> [] \<or> hl_get_all L h ''content-length'' \<noteq> []) then [nat_str (length b)]
     else hl_get_all L h n)"
  using assms
  by (auto simp: content_length_header_def hl_contains_def get_all_insert dest!: header_value_same
    split: if_splits option.splits)

lemma host_get:
  assumes "host_header L W S p h = Ok h'"
  shows "hl_get_all L h' n =
    (case (px_preserve_host p, sv_parse_uri S (px_target_url p)) of
       (False, Ok u) \<Rightarrow> (case uri_authority u of
          Some a \<Rightarrow> if n = ''host'' then [a] else hl_get_all L h n
        | None \<Rightarrow> hl_get_all L h n)
     | _ \<Rightarrow> hl_get_all L h n)"
  using assms
  by (auto simp: host_header_def get_all_insert dest!: header_value_same split: if_splits option.splits outcome.splits)

end

section \<open>Laws of the handler\<close>

fun is_complete :: "log_event \<Rightarrow> bool" where
  "is_complete (EvComplete rid n d) = True"
| "is_complete _ = False"

fun is_response :: "log_event \<Rightarrow> bool" where
  "is_response (EvResponse rid s hs l) = True"
| "is_response _ = False"

definition response_logged :: "'h header_lib \<Rightarrow> string \<Rightarrow> 64 word \<Rightarrow> (string, 'h reply) outcome \<times> log_event list \<Rightarrow> bool" where
  "response_logged L rid latency res \<longleftrightarrow>
     (case res of
        (Ok r, evs) \<Rightarrow> rp_guarded r \<and> evs = log_response L rid (rp_status r) (rp_headers r) latency
      | (_, evs) \<Rightarrow> evs = [] \<or> (\<exists>s h. evs = log_response L rid s h latency))"

lemma build_normal_response_logged: "response_logged L rid latency (build_normal_response L W res br rid latency)"
proof -
  obtain inferred m body where res: "res = (inferred, m, body)" by (cases res)
  show ?thesis
  proof (cases "response_headers L W br (content_type_of inferred m body) (meta_headers m)")
    case (Ok h)
    then show ?thesis
      by (cases "response_body W br (is_sse_type (content_type_of inferred m body)) body")
        (auto simp: res response_logged_def build_normal_response_def Let_def)
  qed (simp_all add: res response_logged_def build_normal_response_def Let_def)
qed

lemma static_reply_logged: "response_logged L rid latency (static_reply L S rid latency req p)"
proof -
  have "response_logged L rid latency
      (obind body (\<lambda>b. Ok \<lparr>rp_status = s, rp_headers = h, rp_body = FullBody b, rp_guarded = True\<rparr>),
       log_response L rid s h latency)" for s h body
    by (cases body) (auto simp: response_logged_def)
  then show ?thesis by (simp add: static_reply_def response_logged_def [of _ _ _ "(_, [])"] split: outcome.split prod.split)
qed

lemma proxy_reply_logged: "response_logged L rid latency (proxy_reply L W S rid latency req p)"
  by (simp add: proxy_reply_def response_logged_def split: outcome.split prod.split option.split)

lemma special_reply_logged: "response_logged L rid latency (special_reply L W S rid latency req special body)"
  by (simp add: special_reply_def static_reply_logged proxy_reply_logged build_normal_response_logged
      response_logged_def [of _ _ _ "(_, [])"] split: option.split response_body_type.split)

lemma log_kinds [simp]:
  "filter is_complete (log_response L rid s h l) = []" "filter is_response (log_complete rid n d) = []"
  "filter is_complete (log_complete rid n d) = log_complete rid n d"
  "filter is_response (log_response L rid s h l) = log_response L rid s h l"
  "length (log_complete rid n d) = 1" "length (log_response L rid s h l) = 1"
  "filter is_complete (log_request L sh rid req) = []" "filter is_response (log_request L sh rid req) = []"
  by (simp_all add: log_complete_def log_response_def log_request_def)

text \<open>The part of \<open>handle_inner\<close> between the request's log entry and the guard.\<close>

definition handle_core :: "'h header_lib \<Rightarrow> wire \<Rightarrow> ('h, 'net) services \<Rightarrow> 'net app_config \<Rightarrow>
    (nu_value \<Rightarrow> byte_stream \<Rightarrow> worker) \<Rightarrow> (ip_addr \<times> 16 word) option \<Rightarrow> string \<Rightarrow> 64 word \<Rightarrow> 'h incoming \<Rightarrow>
    (string, 'h reply) outcome \<times> log_event list" where
  "handle_core L W S config eval addr rid latency req =
     (if datastar config \<and> uri_path (in_uri req) = datastar_js_path then
        (Ok (datastar_reply L S (sv_accepts_brotli S (in_headers req))),
         log_response L rid 200 (datastar_headers L (sv_accepts_brotli S (in_headers req))) latency)
      else
        let w = eval (request_to_value L (sv_show_ip S) (build_request L S config addr req))
                  (Some (body_reads (in_frames req)))
        in special_reply L W S rid latency req (received_meta w) (received_body w))"

lemma handle_inner_core:
  "handle_inner L W S config eval addr rid latency req =
    (case drop_guard rid latency (handle_core L W S config eval addr rid latency req) of
       (r, evs) \<Rightarrow> (r, log_request L (sv_show_ip S) rid (build_request L S config addr req) @ evs))"
proof -
  have "path (build_request L S config addr req) = uri_path (in_uri req)" by (simp add: build_request_def Let_def)
  then show ?thesis by (simp add: handle_inner_def handle_core_def Let_def)
qed

lemma handle_core_logged: "response_logged L rid latency (handle_core L W S config eval addr rid latency req)"
  by (simp add: handle_core_def special_reply_logged Let_def)
    (simp add: response_logged_def datastar_reply_def)

text \<open>Services for the examples: a URL parser that takes what stands after the authority as the path.\<close>

definition test_parse_uri :: "string \<Rightarrow> (string, uri) outcome" where
  "test_parse_uri s =
     (if CHR '' '' \<in> set s then Err ''invalid uri character''
      else Ok \<lparr>uri_text = s, uri_authority = (if url_authority s = [] then None else Some (url_authority s)),
        uri_path = (if url_authority s = [] then s else drop (length (url_authority s)) (after_scheme s)), uri_query = None\<rparr>)"

definition test_services :: "('h, 'net) services" where
  "test_services = \<lparr>sv_contains = (\<lambda>net ip. False), sv_show_ip = (\<lambda>ip. ''ip''), sv_accepts_brotli = (\<lambda>h. False),
     sv_parse_query = (\<lambda>q. []), sv_form_encode = (\<lambda>q. []), sv_parse_uri = test_parse_uri, sv_datastar_js = ''js'',
     sv_datastar_br = ''br'', sv_path_join = (\<lambda>a b. a @ ''/'' @ b),
     sv_serve_dir = (\<lambda>root fb m u h. Err ''no such directory''), sv_client = (\<lambda>m u h b. None)\<rparr>"

definition test_uri :: "string \<Rightarrow> uri" where
  "test_uri p = \<lparr>uri_text = p, uri_authority = None, uri_path = p, uri_query = None\<rparr>"

definition test_incoming :: "string \<Rightarrow> alist_headers incoming" where
  "test_incoming p = \<lparr>in_version = ''HTTP/1.1'', in_method = ''GET'', in_uri = test_uri p, in_headers = [], in_frames = []\<rparr>"

section \<open>Properties\<close>

text \<open>
  C2. A request cannot steer the reverse proxy to another server: whatever its path, its query and
  the prefix stripped, the authority of the URL forwarded to is the one of the configured target.
\<close>

theorem proxy_target_authority:
  assumes "px_target_url p = scheme @ ''://'' @ target" "CHR '':'' \<notin> set scheme"
  shows "url_authority (proxy_target S p u) = url_authority (px_target_url p)"
proof -
  obtain r where "proxy_target S p u = px_target_url p @ CHR ''/'' # r" using proxy_target_slash by blast
  then have "url_authority (proxy_target S p u) =
      takeWhile (\<lambda>c. c \<notin> {CHR ''/'', CHR ''?'', CHR ''#''}) (target @ CHR ''/'' # r)"
    using assms by (simp add: url_authority_def after_scheme_append [simplified])
  also have "\<dots> = takeWhile (\<lambda>c. c \<notin> {CHR ''/'', CHR ''?'', CHR ''#''}) target" by (rule takeWhile_stop) simp
  finally show ?thesis using assms by (simp add: url_authority_def after_scheme_append [simplified])
qed

definition evil_proxy :: proxy_params where
  "evil_proxy = \<lparr>px_target_url = ''http://backend:80'', px_headers = [(''X-A'', Single ''1'')], px_preserve_host = False,
     px_strip_prefix = Some ''/api'', px_request_body = ''hi'', px_query = None\<rparr>"

theorem proxy_target_authority_witness:
  "url_authority (proxy_target test_services evil_proxy (test_uri ''/api@evil.com/x'')) = ''backend:80''"
proof -
  have p: "px_target_url evil_proxy = ''http'' @ ''://'' @ ''backend:80''" by (simp add: evil_proxy_def)
  have a: "url_authority (px_target_url evil_proxy) = ''backend:80''" by code_simp
  from proxy_target_authority [OF p] a show ?thesis by simp
qed

text \<open>
  The path forwarded is the request's without the configured prefix, if it starts with it, and
  with a slash in front if what is left has none.
\<close>

theorem proxy_path_spec:
  "proxy_path None p = (if starts_with p ''/'' then p else CHR ''/'' # p) \<and>
   proxy_path (Some pre) (pre @ CHR ''/'' # rest) = CHR ''/'' # rest \<and>
   (\<not> starts_with p pre \<longrightarrow> proxy_path (Some pre) p = proxy_path None p) \<and>
   (\<not> starts_with rest ''/'' \<longrightarrow> proxy_path (Some pre) (pre @ rest) = CHR ''/'' # rest)"
  by (auto simp: proxy_path_def stripped_path_def Let_def starts_with_def split: option.splits)

theorem proxy_path_spec_witness:
  "proxy_path (Some ''/api'') ''/web/x'' = ''/web/x'' \<and> proxy_path (Some ''/api'') ''/api@evil.com/'' = ''/@evil.com/''"
proof -
  have "\<not> starts_with ''/web/x'' ''/api''" "\<not> starts_with ''@evil.com/'' ''/''" "starts_with ''/web/x'' ''/''" by code_simp+
  with proxy_path_spec [of "''/web/x''" "''/api''" "''@evil.com/''"] show ?thesis by simp
qed

text \<open>
  C38. The headers forwarded: the host is the target's unless it is to be preserved; every other
  header is changed by the table of custom headers as its entry says, starting from the length of the
  body sent for the content length (when there is a body, or the client announced one) and from the
  client's own values for the rest. So the table, when it names it, overrides the length too. This is
  for a table without two spellings of one name and a target that parses with an authority.
\<close>

theorem proxy_headers_spec:
  assumes "header_map L" "proxy_headers L W S p h = Ok h'" "distinct (map fst (lower_table (px_headers p)))"
    and "sv_parse_uri S (px_target_url p) = Ok target" "uri_authority target = Some a"
  shows "hl_get_all L h' n =
    (if n = ''host'' \<and> \<not> px_preserve_host p then [a]
     else header_effect L (map_of (lower_table (px_headers p)) n)
       (if n = ''content-length'' \<and> (px_request_body p \<noteq> [] \<or> hl_get_all L h ''content-length'' \<noteq> [])
        then [nat_str (length (px_request_body p))] else hl_get_all L h n))"
proof -
  obtain h1 h2 where h: "content_length_header L W (px_request_body p) h = Ok h1" "apply_headers L W (px_headers p) h1 = Ok h2"
    "host_header L W S p h2 = Ok h'"
    using assms(2) by (auto simp: proxy_headers_def obind_Ok_iff)
  from header_map.content_length_get [OF assms(1) h(1), of n]
    header_map.get_all_apply_headers [OF assms(1) h(2) assms(3), of n]
    header_map.host_get [OF assms(1) h(3), of n]
  show ?thesis using assms(4,5) by (cases "px_preserve_host p") auto
qed

theorem proxy_headers_spec_witness:
  "\<exists>h'. proxy_headers alist_header_lib test_wire test_services evil_proxy [(''host'', ''me''), (''x-a'', ''0'')] = Ok h' \<and>
    hl_get_all alist_header_lib h' ''host'' = [''backend:80''] \<and> hl_get_all alist_header_lib h' ''content-length'' = [''2''] \<and>
    hl_get_all alist_header_lib h' ''x-a'' = [''1'']"
proof -
  have h: "proxy_headers alist_header_lib test_wire test_services evil_proxy [(''host'', ''me''), (''x-a'', ''0'')] =
      Ok [(''content-length'', ''2''), (''x-a'', ''1''), (''host'', ''backend:80'')]" by code_simp
  have d: "distinct (map fst (lower_table (px_headers evil_proxy)))" by code_simp
  have u: "sv_parse_uri test_services (px_target_url evil_proxy) = Ok \<lparr>uri_text = ''http://backend:80'',
      uri_authority = Some ''backend:80'', uri_path = '''', uri_query = None\<rparr>" by code_simp
  have t: "lower_table (px_headers evil_proxy) = [(''x-a'', Single ''1'')]" by code_simp
  have l: "nat_str (Suc (Suc 0)) = ''2''" by code_simp
  have p: "px_preserve_host evil_proxy = False" "px_request_body evil_proxy = ''hi''" by (simp_all add: evil_proxy_def)
  note spec = proxy_headers_spec [OF alist_headers.header_map_axioms h d u, of "''backend:80''", unfolded p t, simplified]
  from spec [of "''host''"] spec [of "''content-length''"] spec [of "''x-a''"] show ?thesis
    by (simp add: h l)
qed

text \<open>
  With the flag set, the Datastar bundle is served without running the script: the reply does
  not depend on the evaluation, and says it may be cached for ever.
\<close>

theorem datastar_bypasses_script:
  assumes "header_map L" "datastar config" "uri_path (in_uri req) = datastar_js_path"
  shows "handle L W S config eval addr rid latency req = handle L W S config eval' addr rid latency req \<and>
    (\<exists>r. fst (handle L W S config eval addr rid latency req) = Ok r \<and> rp_status r = 200 \<and>
      hl_get_all L (rp_headers r) ''cache-control'' = [''public, max-age=31536000, immutable''] \<and>
      hl_get_all L (rp_headers r) ''content-encoding'' = (if sv_accepts_brotli S (in_headers req) then [''br''] else []) \<and>
      rp_body r = FullBody (if sv_accepts_brotli S (in_headers req) then sv_datastar_br S else sv_datastar_js S))"
proof -
  have "handle L W S config e addr rid latency req =
      (Ok (datastar_reply L S (sv_accepts_brotli S (in_headers req))),
       log_request L (sv_show_ip S) rid (build_request L S config addr req) @
       log_response L rid 200 (datastar_headers L (sv_accepts_brotli S (in_headers req))) latency)" for e
    using assms(2,3) by (simp add: handle_def handle_inner_core handle_core_def drop_guard_def)
  then show ?thesis
    by (simp add: datastar_reply_def datastar_headers_def brotli_headers_def Let_def
        header_map.get_all_insert [OF assms(1)] header_map.get_all_empty [OF assms(1)])
qed

theorem datastar_bypasses_script_witness:
  "\<exists>r. fst (handle alist_header_lib test_wire test_services \<lparr>trusted_proxies = [], datastar = True, dev = False\<rparr>
      (\<lambda>r b. spawn_eval_thread (test_engine [] (Err ''never'')) (\<lambda>n. True) r b 1 {}) None ''id'' 3
      (test_incoming datastar_js_path)) = Ok r \<and> rp_status r = 200"
proof -
  let ?c = "\<lparr>trusted_proxies = [], datastar = True, dev = False\<rparr>"
  have c: "datastar ?c" by simp
  have p: "uri_path (in_uri (test_incoming datastar_js_path)) = datastar_js_path"
    by (simp add: test_incoming_def test_uri_def)
  show ?thesis
    using conjunct2 [OF datastar_bypasses_script [OF alist_headers.header_map_axioms c p]] by blast
qed

text \<open>
  Every request is accounted for: its log starts with the request; its completion is logged
  exactly once, by the handler if the reply has no guard (or there is none) and else by the guard
  the reply's body owns; and a guarded reply has exactly one response entry, with its status and
  headers.
\<close>

theorem request_accounting:
  "case handle L W S config eval addr rid latency req of (res, evs) \<Rightarrow>
    \<exists>rest. evs = log_request L (sv_show_ip S) rid (build_request L S config addr req) @ rest \<and>
      length (filter is_complete rest) = (case res of Ok r \<Rightarrow> if rp_guarded r then 0 else 1 | _ \<Rightarrow> 1) \<and>
      (case res of
         Ok r \<Rightarrow> if rp_guarded r then rest = log_response L rid (rp_status r) (rp_headers r) latency else True
       | _ \<Rightarrow> True)"
proof -
  obtain res evs where core: "handle_core L W S config eval addr rid latency req = (res, evs)" by fastforce
  with handle_core_logged [of L rid latency W S config eval addr req] have logged: "response_logged L rid latency (res, evs)"
    by simp
  show ?thesis
  proof (cases res)
    case (Ok r)
    with core logged show ?thesis
      by (simp add: handle_def handle_inner_core drop_guard_def response_logged_def)
  next
    case (Err e)
    with core logged show ?thesis
      by (auto simp: handle_def handle_inner_core drop_guard_def response_logged_def error_reply_def)
  next
    case (Panic m)
    with core logged show ?thesis
      by (auto simp: handle_def handle_inner_core drop_guard_def response_logged_def)
  qed
qed

text \<open>
  C30. A script that fails (or panics) before it answered through a command (its one-shot sender is
  still there) is reported to the client as a closed channel: the reply is a 500 whose text is that of
  the channel, not that of the script's error, which only the log has. (The request is one that a
  script answers, not one for the bundled Datastar file.)
\<close>

theorem script_error_text_lost:
  assumes "\<And>request body. \<exists>err. en_run E request body armed = (Err err, armed) \<or> en_run E request body armed = (Panic err, armed)"
    and "wi_status_ok W 500" "\<not> (datastar config \<and> uri_path (in_uri req) = datastar_js_path)"
  shows "fst (handle L W S config (\<lambda>request body. spawn_eval_thread E accepts request body job_id jobs) addr rid latency req) =
    Ok \<lparr>rp_status = 500, rp_headers = hl_empty L, rp_body = FullBody (''Script error: '' @ wi_channel_closed W), rp_guarded = False\<rparr>"
proof -
  have "received_meta (spawn_eval_thread E accepts request body job_id jobs) = None \<and>
      received_body (spawn_eval_thread E accepts request body job_id jobs) = None" for request body
    using assms(1) [of request "PByteStream body None"]
    by (elim exE disjE)
      (simp_all add: received_meta_def received_body_def spawn_eval_thread_def job_thread_eq inner_def armed_def clear_slot_def)
  then have "handle_core L W S config (\<lambda>request body. spawn_eval_thread E accepts request body job_id jobs) addr rid latency req =
      (Err (wi_channel_closed W), [])"
    using assms(3) by (auto simp: handle_core_def special_reply_def Let_def)
  then show ?thesis using assms(2) by (simp add: handle_def handle_inner_core drop_guard_def error_reply_def)
qed

theorem script_error_text_lost_witness:
  "fst (handle alist_header_lib test_wire test_services \<lparr>trusted_proxies = [], datastar = True, dev = False\<rparr>
      (\<lambda>r b. spawn_eval_thread (test_engine [] (Err ''division by zero'')) (\<lambda>n. True) r b 1 {}) None ''id'' 3 (test_incoming ''/'')) =
    Ok \<lparr>rp_status = 500, rp_headers = [], rp_body = FullBody ''Script error: channel closed'', rp_guarded = False\<rparr>"
proof -
  let ?E = "test_engine [] (Err ''division by zero'')"
  have run: "\<exists>err. en_run ?E request body armed = (Err err, armed) \<or> en_run ?E request body armed = (Panic err, armed)" for request body
    by (simp add: test_engine_def send_all_def)
  have "wi_status_ok test_wire 500" by code_simp
  moreover have "uri_path (in_uri (test_incoming ''/'')) \<noteq> datastar_js_path" by code_simp
  moreover have "hl_empty alist_header_lib = []" "wi_channel_closed test_wire = ''channel closed''" by code_simp+
  ultimately show ?thesis
    using script_error_text_lost [OF run, of test_wire "\<lparr>trusted_proxies = [], datastar = True, dev = False\<rparr>" "test_incoming ''/''"
        alist_header_lib test_services "\<lambda>n. True" 1 "{}" None "''id''" 3]
    by simp
qed

end
