(* ===== verification/Stdlib.thy ===== *)
theory Stdlib
  imports Engine
begin

text \<open>
  The embedded modules (\<open>src/stdlib/mod.rs\<close>) and the new engine (\<open>Engine::new\<close> in \<open>src/engine.rs\<close>).
  Nushell's virtual file system is an argument: a working set takes files and paths, each by a number
  it gives, and is merged into the state.
\<close>

section \<open>The virtual file system\<close>

datatype virtual_path = VFile nat | VDir "nat list"

record ('st, 'w) vfs_lib =
  vf_working_set :: "'st \<Rightarrow> 'w"
  vf_add_file :: "string \<Rightarrow> string \<Rightarrow> 'w \<Rightarrow> nat \<times> 'w"
  vf_add_path :: "string \<Rightarrow> virtual_path \<Rightarrow> 'w \<Rightarrow> nat \<times> 'w"
  vf_merge :: "'w \<Rightarrow> 'st \<Rightarrow> (string, 'st) outcome"
  vf_file :: "'w \<Rightarrow> nat \<Rightarrow> (string \<times> string) option"
  vf_path :: "'w \<Rightarrow> nat \<Rightarrow> (string \<times> virtual_path) option"

text \<open>The texts the build embeds.\<close>

record stdlib_sources =
  STDLIB_MOD :: string
  ROUTER_MOD :: string
  HTML_MOD :: string
  DATASTAR_MOD :: string
  HTTP_MOD :: string

definition create_virt_file :: "('st, 'w) vfs_lib \<Rightarrow> string \<Rightarrow> string \<Rightarrow> 'w \<Rightarrow> nat \<times> 'w" where
  "create_virt_file F name content w =
     (case vf_add_file F name content w of (file_id, w') \<Rightarrow> vf_add_path F name (VFile file_id) w')"

text \<open>The loop over the submodules: \<open>ids\<close> are the paths for the directory of all.\<close>

fun add_submodules :: "('st, 'w) vfs_lib \<Rightarrow> (string \<times> string \<times> string) list \<Rightarrow> nat list \<Rightarrow> 'w \<Rightarrow> nat list \<times> 'w" where
  "add_submodules F [] ids w = (ids, w)"
| "add_submodules F ((filename, mod_dir, content) # ms) ids w =
     (case create_virt_file F (mod_dir @ ''/'' @ filename) content w of
        (virt_file_id, w1) \<Rightarrow>
          (case vf_add_path F mod_dir (VDir [virt_file_id]) w1 of
             (virt_dir_id, w2) \<Rightarrow> add_submodules F ms (ids @ [virt_dir_id]) w2))"

definition std_submodules :: "stdlib_sources \<Rightarrow> (string \<times> string \<times> string) list" where
  "std_submodules src =
     [(''mod.nu'', ''http-nu/router'', ROUTER_MOD src),
      (''mod.nu'', ''http-nu/html'', HTML_MOD src),
      (''mod.nu'', ''http-nu/datastar'', DATASTAR_MOD src),
      (''mod.nu'', ''http-nu/http'', HTTP_MOD src)]"

definition stdlib_files :: "('st, 'w) vfs_lib \<Rightarrow> stdlib_sources \<Rightarrow> 'w \<Rightarrow> nat \<times> 'w" where
  "stdlib_files F src w =
     (case create_virt_file F ''http-nu/mod.nu'' (STDLIB_MOD src) w of
        (std_mod_id, w1) \<Rightarrow>
          (case add_submodules F (std_submodules src) [std_mod_id] w1 of
             (http_nu_virt_paths, w2) \<Rightarrow> vf_add_path F ''http-nu'' (VDir http_nu_virt_paths) w2))"

definition load_http_nu_stdlib :: "('st, 'w) vfs_lib \<Rightarrow> stdlib_sources \<Rightarrow> 'st \<Rightarrow> (string, 'st) outcome" where
  "load_http_nu_stdlib F src st = (case stdlib_files F src (vf_working_set F st) of (_, w) \<Rightarrow> vf_merge F w st)"

section \<open>The new engine\<close>

text \<open>
  What the new engine takes from nushell and the system: the state with nushell's own commands; its
  standard library; the current directory; the environment. The bus and the token are new: numbers.
\<close>

record ('st, 'w) engine_parts =
  ep_contexts :: 'st
  ep_vfs :: "('st, 'w) vfs_lib"
  ep_sources :: stdlib_sources
  ep_nu_std :: "'st \<Rightarrow> (string, 'st) outcome"
  ep_current_dir :: "string + string"
  ep_gather_env :: "string \<Rightarrow> 'st \<Rightarrow> 'st"

definition engine_new :: "('st, 'w) engine_parts \<Rightarrow> nat \<Rightarrow> nat \<Rightarrow> (string, 'st engine) outcome" where
  "engine_new P bus token =
     obind (load_http_nu_stdlib (ep_vfs P) (ep_sources P) (ep_contexts P)) (\<lambda>st1.
     obind (ep_nu_std P st1) (\<lambda>st2.
       (case ep_current_dir P of
          Inl e \<Rightarrow> Err e
        | Inr init_cwd \<Rightarrow>
            Ok \<lparr>eg_state = ep_gather_env P init_cwd st2, eg_closure = None, eg_bus = bus, eg_token = token\<rparr>)))"

section \<open>What the modules' names find\<close>

text \<open>What the program relies on of the working set: a new entry has its number, the old ones stay.\<close>

definition vfs_law :: "('st, 'w) vfs_lib \<Rightarrow> bool" where
  "vfs_law F \<longleftrightarrow>
     (\<forall>n c w i w'. vf_add_file F n c w = (i, w') \<longrightarrow>
       vf_file F w' i = Some (n, c) \<and> (\<forall>j x. vf_file F w j = Some x \<longrightarrow> vf_file F w' j = Some x) \<and>
       (\<forall>j x. vf_path F w j = Some x \<longrightarrow> vf_path F w' j = Some x)) \<and>
     (\<forall>n v w i w'. vf_add_path F n v w = (i, w') \<longrightarrow>
       vf_path F w' i = Some (n, v) \<and> (\<forall>j x. vf_file F w j = Some x \<longrightarrow> vf_file F w' j = Some x) \<and>
       (\<forall>j x. vf_path F w j = Some x \<longrightarrow> vf_path F w' j = Some x))"

definition extends :: "('st, 'w) vfs_lib \<Rightarrow> 'w \<Rightarrow> 'w \<Rightarrow> bool" where
  "extends F w w' \<longleftrightarrow> (\<forall>j x. vf_file F w j = Some x \<longrightarrow> vf_file F w' j = Some x) \<and>
     (\<forall>j x. vf_path F w j = Some x \<longrightarrow> vf_path F w' j = Some x)"

definition holds_file :: "('st, 'w) vfs_lib \<Rightarrow> 'w \<Rightarrow> nat \<Rightarrow> string \<Rightarrow> string \<Rightarrow> bool" where
  "holds_file F w i name content \<longleftrightarrow> (\<exists>f. vf_path F w i = Some (name, VFile f) \<and> vf_file F w f = Some (name, content))"

definition holds_module :: "('st, 'w) vfs_lib \<Rightarrow> 'w \<Rightarrow> string \<times> string \<times> string \<Rightarrow> nat \<Rightarrow> bool" where
  "holds_module F w m d \<longleftrightarrow>
     (case m of (filename, mod_dir, content) \<Rightarrow>
        \<exists>i. vf_path F w d = Some (mod_dir, VDir [i]) \<and> holds_file F w i (mod_dir @ ''/'' @ filename) content)"

lemma extends_refl [simp]: "extends F w w"
  by (simp add: extends_def)

lemma extends_trans: "extends F w w' \<Longrightarrow> extends F w' w'' \<Longrightarrow> extends F w w''"
  by (simp add: extends_def)

lemma add_path_law:
  "vfs_law F \<Longrightarrow> vf_add_path F n v w = (i, w') \<Longrightarrow> vf_path F w' i = Some (n, v) \<and> extends F w w'"
  unfolding vfs_law_def extends_def by blast

lemma add_file_law:
  "vfs_law F \<Longrightarrow> vf_add_file F n c w = (i, w') \<Longrightarrow> vf_file F w' i = Some (n, c) \<and> extends F w w'"
  unfolding vfs_law_def extends_def by blast

lemma holds_extends:
  "extends F w w' \<Longrightarrow> holds_file F w i name content \<Longrightarrow> holds_file F w' i name content"
  "extends F w w' \<Longrightarrow> holds_module F w m d \<Longrightarrow> holds_module F w' m d"
  by (fastforce simp: holds_file_def holds_module_def extends_def split: prod.splits)+

lemma create_virt_file_law:
  assumes "vfs_law F" "create_virt_file F name content w = (i, w')"
  shows "holds_file F w' i name content \<and> extends F w w'"
proof -
  obtain f w1 where f: "vf_add_file F name content w = (f, w1)" by fastforce
  then have p: "vf_add_path F name (VFile f) w1 = (i, w')" using assms(2) by (simp add: create_virt_file_def)
  from add_file_law [OF assms(1) f] add_path_law [OF assms(1) p] show ?thesis
    by (auto simp: holds_file_def extends_def)
qed

lemma add_submodules_law:
  assumes "vfs_law F" "add_submodules F ms ids w = (ids', w')"
  shows "extends F w w' \<and> (\<exists>ds. ids' = ids @ ds \<and> list_all2 (holds_module F w') ms ds)"
  using assms(2)
proof (induction ms arbitrary: ids w)
  case (Cons m ms)
  obtain filename mod_dir content where m: "m = (filename, mod_dir, content)" by (cases m)
  obtain i w1 where i: "create_virt_file F (mod_dir @ ''/'' @ filename) content w = (i, w1)" by fastforce
  obtain d w2 where d: "vf_add_path F mod_dir (VDir [i]) w1 = (d, w2)" by fastforce
  have "add_submodules F ms (ids @ [d]) w2 = (ids', w')" using Cons.prems m i d by simp
  from Cons.IH [OF this] obtain ds where rest: "extends F w2 w'" "ids' = ids @ d # ds" "list_all2 (holds_module F w') ms ds"
    by auto
  note made = create_virt_file_law [OF assms(1) i] and dir = add_path_law [OF assms(1) d]
  then have "holds_module F w2 m d" by (auto simp: holds_module_def m intro: holds_extends)
  with rest made dir show ?case
    by (intro conjI exI [of _ "d # ds"]) (auto intro: extends_trans holds_extends)
qed simp

text \<open>
  Loading the modules makes a directory \<open>http-nu\<close> of five entries: the main module, and a directory
  for each of the four submodules with its text; what was there stays.
\<close>

theorem stdlib_tree:
  assumes "vfs_law F" "stdlib_files F src w = (d, w')"
  shows "extends F w w' \<and> (\<exists>i ds. vf_path F w' d = Some (''http-nu'', VDir (i # ds)) \<and>
    holds_file F w' i ''http-nu/mod.nu'' (STDLIB_MOD src) \<and> list_all2 (holds_module F w') (std_submodules src) ds)"
proof -
  obtain i w1 where i: "create_virt_file F ''http-nu/mod.nu'' (STDLIB_MOD src) w = (i, w1)" by fastforce
  obtain ids w2 where ids: "add_submodules F (std_submodules src) [i] w1 = (ids, w2)" by fastforce
  have d: "vf_add_path F ''http-nu'' (VDir ids) w2 = (d, w')" using assms(2) i ids by (simp add: stdlib_files_def)
  note made = create_virt_file_law [OF assms(1) i] and dir = add_path_law [OF assms(1) d]
  from add_submodules_law [OF assms(1) ids] obtain ds where
    ds: "extends F w1 w2" "ids = i # ds" "list_all2 (holds_module F w2) (std_submodules src) ds" by auto
  have "list_all2 (holds_module F w') (std_submodules src) ds"
    using ds(3) by (rule list_all2_mono) (use dir in \<open>blast intro: holds_extends\<close>)
  with made dir ds show ?thesis by (meson extends_trans holds_extends)
qed

text \<open>A working set of two lists, and an engine made with it, for the examples.\<close>

definition toy_vfs :: "'st \<Rightarrow> ('st, (string \<times> string) list \<times> (string \<times> virtual_path) list) vfs_lib" where
  "toy_vfs merged = \<lparr>vf_working_set = (\<lambda>st. ([], [])),
     vf_add_file = (\<lambda>n c (fs, ps). (length fs, fs @ [(n, c)], ps)),
     vf_add_path = (\<lambda>n v (fs, ps). (length ps, fs, ps @ [(n, v)])),
     vf_merge = (\<lambda>w st. Ok merged),
     vf_file = (\<lambda>(fs, ps) i. if i < length fs then Some (fs ! i) else None),
     vf_path = (\<lambda>(fs, ps) i. if i < length ps then Some (ps ! i) else None)\<rparr>"

lemma toy_vfs_law: "vfs_law (toy_vfs st)"
  by (auto simp: vfs_law_def toy_vfs_def nth_append)

theorem stdlib_tree_witness:
  "\<exists>d w' i ds. stdlib_files (toy_vfs ()) \<lparr>STDLIB_MOD = ''m'', ROUTER_MOD = ''r'', HTML_MOD = ''h'', DATASTAR_MOD = ''d'', HTTP_MOD = ''t''\<rparr>
      ([], []) = (d, w') \<and> vf_path (toy_vfs ()) w' d = Some (''http-nu'', VDir (i # ds)) \<and> length ds = 4"
proof -
  let ?src = "\<lparr>STDLIB_MOD = ''m'', ROUTER_MOD = ''r'', HTML_MOD = ''h'', DATASTAR_MOD = ''d'', HTTP_MOD = ''t''\<rparr>"
  obtain d w' where load: "stdlib_files (toy_vfs ()) ?src ([], []) = (d, w')" by (meson surj_pair)
  with stdlib_tree [OF toy_vfs_law load] show ?thesis
    by (auto simp: std_submodules_def dest: list_all2_lengthD)
qed

definition toy_parts :: "'st \<Rightarrow> ('st, (string \<times> string) list \<times> (string \<times> virtual_path) list) engine_parts" where
  "toy_parts st = \<lparr>ep_contexts = st, ep_vfs = toy_vfs st,
     ep_sources = \<lparr>STDLIB_MOD = [], ROUTER_MOD = [], HTML_MOD = [], DATASTAR_MOD = [], HTTP_MOD = []\<rparr>,
     ep_nu_std = Ok, ep_current_dir = Inr ''/'', ep_gather_env = (\<lambda>cwd st. st)\<rparr>"

lemma engine_new_toy:
  "engine_new (toy_parts st) bus token = Ok \<lparr>eg_state = st, eg_closure = None, eg_bus = bus, eg_token = token\<rparr>"
  by (simp add: engine_new_def toy_parts_def load_http_nu_stdlib_def toy_vfs_def split: prod.split)

end
