(* ===== verification/Startup.thy ===== *)
theory Startup
  imports Serve Handler Stdlib
begin

text \<open>
  The program's start (\<open>src/main.rs\<close>, with \<open>load_plugin\<close> of \<open>src/engine.rs\<close> and
  \<open>configure_engine\<close> of \<open>src/store.rs\<close>): the command line and what clap guarantees of it, the base
  engine, opening the store, the choice of the script's source, the \<open>eval\<close> subcommand, interruption, and
  the options handed on. Files,
  plugins, the store and the operating system are arguments.
\<close>

section \<open>The command line\<close>

record eval_args =
  ea_file :: "string option"
  ea_commands :: "string option"
  ea_store :: "string option"
  ea_datastar :: bool

datatype log_format = Human | Jsonl

record 'net args =
  ar_command :: "eval_args option"
  ar_addr :: "string option"
  ar_tls :: "string option"
  ar_plugins :: "string list"
  ar_script :: "string option"
  ar_commands :: "string option"
  ar_watch :: bool
  ar_log_format :: log_format
  ar_store :: "string option"
  ar_services :: bool
  ar_topic :: "string option"
  ar_expose :: "string option"
  ar_dev :: bool
  ar_datastar :: bool
  ar_trust_proxies :: "'net list"
  ar_include_paths :: "string list"

text \<open>The \<open>conflicts_with_all\<close> and \<open>requires\<close> attributes of the options.\<close>

definition args_valid :: "'net args \<Rightarrow> bool" where
  "args_valid a \<longleftrightarrow>
     (ar_commands a \<noteq> None \<longrightarrow> \<not> ar_watch a \<and> ar_script a = None) \<and>
     (ar_services a \<longrightarrow> ar_store a \<noteq> None) \<and>
     (ar_topic a \<noteq> None \<longrightarrow> ar_store a \<noteq> None \<and> ar_script a = None \<and> ar_commands a = None) \<and>
     (ar_expose a \<noteq> None \<longrightarrow> ar_store a \<noteq> None)"

definition http_nu_options_of :: "'net args \<Rightarrow> http_nu_options" where
  "http_nu_options_of a = \<lparr>ho_dev = ar_dev a, ho_datastar = ar_datastar a, ho_watch = ar_watch a, ho_store = ar_store a,
     ho_topic = ar_topic a, ho_expose = ar_expose a, ho_tls = ar_tls a, ho_services = ar_services a\<rparr>"

definition startup_options_of :: "'net args \<Rightarrow> startup_options" where
  "startup_options_of a = \<lparr>so_watch = ar_watch a, so_tls = ar_tls a, so_store = ar_store a, so_topic = ar_topic a,
     so_expose = ar_expose a, so_services = ar_services a, so_datastar = ar_datastar a\<rparr>"

definition app_config_of :: "'net args \<Rightarrow> 'net app_config" where
  "app_config_of a = \<lparr>trusted_proxies = ar_trust_proxies a, datastar = ar_datastar a, dev = ar_dev a\<rparr>"

section \<open>The base engine\<close>

text \<open>
  The outside: what a new engine takes, and the numbers of its bus and token; plugins by path, first made
  canonical; \<open>sl_debug\<close>, a path in an error text; the store, by a number; files and standard input.
\<close>

record ('st, 'w) startup_lib =
  sl_engine :: "('st, 'w) engine_parts"
  sl_fresh :: "nat \<times> nat"
  sl_canonical :: "string \<Rightarrow> string + string"
  sl_plugin_name_ok :: "string \<Rightarrow> bool"
  sl_debug :: "string \<Rightarrow> string"
  sl_register :: "string \<Rightarrow> 'st \<Rightarrow> (string, 'st) outcome"
  sl_metadata :: "string \<Rightarrow> (string, unit) outcome"
  sl_signatures :: "string \<Rightarrow> (string, command_decl list) outcome"
  sl_set_signals :: "'st \<Rightarrow> 'st"
  sl_set_ctrlc :: "(string, unit) outcome"
  sl_store_new :: "string \<Rightarrow> string + nat"
  sl_stdin :: "string + string"
  sl_read_file :: "string \<Rightarrow> string + string"

definition of_sum :: "('e \<Rightarrow> 'f) \<Rightarrow> 'e + 'a \<Rightarrow> ('f, 'a) outcome" where
  "of_sum f r = (case r of Inr x \<Rightarrow> Ok x | Inl e \<Rightarrow> Err (f e))"

definition load_plugin :: "('st, 'b, 'd, 'k) nushell \<Rightarrow> ('st, 'w) startup_lib \<Rightarrow> string \<Rightarrow> 'st engine \<Rightarrow> (string, 'st engine) outcome" where
  "load_plugin N L p eng =
     obind (of_sum (\<lambda>e. ''Failed to canonicalize plugin path '' @ sl_debug L p @ '': '' @ e) (sl_canonical L p)) (\<lambda>q.
     obind (if sl_plugin_name_ok L q then Ok ()
            else Err (''Invalid plugin path '' @ sl_debug L q @ '': must be named nu_plugin_*'')) (\<lambda>_.
     obind (sl_register L q (eg_state eng)) (\<lambda>st.
     obind (sl_metadata L q) (\<lambda>_.
     obind (sl_signatures L q) (\<lambda>decls.
       add_commands N decls (eng\<lparr>eg_state := st\<rparr>))))))"

fun load_plugins :: "('st, 'b, 'd, 'k) nushell \<Rightarrow> ('st, 'w) startup_lib \<Rightarrow> string list \<Rightarrow> 'st engine \<Rightarrow> (string, 'st engine) outcome" where
  "load_plugins N L [] eng = Ok eng"
| "load_plugins N L (p # ps) eng = obind (load_plugin N L p eng) (load_plugins N L ps)"

definition configure_engine :: "('st, 'b, 'd, 'k) nushell \<Rightarrow> nat option \<Rightarrow> 'st engine \<Rightarrow> (string, 'st engine) outcome" where
  "configure_engine N store eng =
     (case store of
        None \<Rightarrow> Ok eng
      | Some s \<Rightarrow> obind (add_store_commands N s eng) (add_store_mj_commands N s))"

definition set_signals :: "('st, 'w) startup_lib \<Rightarrow> 'st engine \<Rightarrow> 'st engine" where
  "set_signals L eng = eng\<lparr>eg_state := sl_set_signals L (eg_state eng)\<rparr>"

definition create_base_engine :: "('st, 'b, 'd, 'k) nushell \<Rightarrow> ('st, 'w) startup_lib \<Rightarrow> string list \<Rightarrow> string list \<Rightarrow> nat option \<Rightarrow>
    http_nu_options \<Rightarrow> (string, 'st engine) outcome" where
  "create_base_engine N L plugins include_paths store options =
     obind (engine_new (sl_engine L) (fst (sl_fresh L)) (snd (sl_fresh L))) (\<lambda>e0.
     obind (add_custom_commands N e0) (\<lambda>e1.
     obind (set_lib_dirs N include_paths e1) (\<lambda>e2.
     obind (set_http_nu_const N options e2) (\<lambda>e3.
     obind (load_plugins N L plugins e3) (\<lambda>e4.
     obind (configure_engine N store e4) (\<lambda>e5.
     obind (sl_set_ctrlc L) (\<lambda>_.
       Ok (set_signals L e5))))))))"

section \<open>The subcommand eval\<close>

definition eval_source :: "('st, 'w) startup_lib \<Rightarrow> eval_args \<Rightarrow> (string, string \<times> string option) outcome" where
  "eval_source L ea =
     (case (ea_file ea, ea_commands ea) of
        (Some _, Some _) \<Rightarrow> Err ''Error: cannot specify both file and --commands''
      | (None, None) \<Rightarrow> Err ''Error: provide a file or use --commands''
      | (Some f, None) \<Rightarrow>
          if f = ''-'' then obind (of_sum id (sl_stdin L)) (\<lambda>script. Ok (script, None))
          else obind (of_sum id (sl_canonical L f)) (\<lambda>p.
               obind (of_sum id (sl_read_file L p)) (\<lambda>script. Ok (script, Some p)))
      | (None, Some cmd) \<Rightarrow> Ok (cmd, None))"

definition eval_engine :: "('st, 'b, 'd, 'k) nushell \<Rightarrow> ('st, 'w) startup_lib \<Rightarrow> 'net args \<Rightarrow> eval_args \<Rightarrow> (string, 'st engine) outcome" where
  "eval_engine N L a ea =
     obind (engine_new (sl_engine L) (fst (sl_fresh L)) (snd (sl_fresh L))) (\<lambda>e0.
     obind (add_custom_commands N e0) (\<lambda>e1.
     obind (set_lib_dirs N (ar_include_paths a) e1) (\<lambda>e2.
     obind (set_http_nu_const N \<lparr>ho_dev = ar_dev a, ho_datastar = ea_datastar ea, ho_watch = False, ho_store = ea_store ea,
         ho_topic = None, ho_expose = None, ho_tls = None, ho_services = False\<rparr> e2) (\<lambda>e3.
     obind (case ea_store ea of
              None \<Rightarrow> Ok e3
            | Some p \<Rightarrow> obind (of_sum id (sl_store_new L p)) (\<lambda>s. configure_engine N (Some s) e3)) (\<lambda>e4.
     obind (load_plugins N L (ar_plugins a) e4) (\<lambda>e5.
       Ok (set_signals L e5)))))))"

text \<open>
  Exit status, standard output and standard error of \<open>eval\<close>. An error that leaves \<open>main\<close> through \<open>?\<close> is
  printed by the runtime in its debugging form; the text here is the error's own.
\<close>

definition eval_main :: "('st, 'b, 'd, 'k) nushell \<Rightarrow> ('st, 'w) startup_lib \<Rightarrow> 'net args \<Rightarrow> eval_args \<Rightarrow> nat \<times> string option \<times> string option" where
  "eval_main N L a ea =
     (case obind (eval_source L ea) (\<lambda>src. obind (eval_engine N L a ea) (\<lambda>eng. Ok (src, eng))) of
        Err e \<Rightarrow> (1, None, Some e)
      | Panic m \<Rightarrow> (101, None, Some m)
      | Ok ((script, script_path), eng) \<Rightarrow>
          (case fst (eval_script N script script_path eng) of
             Ok value \<Rightarrow>
               (let output = ns_expand N value in (0, if output = [] then None else Some output, None))
           | Err e \<Rightarrow> (1, None, Some e)
           | Panic m \<Rightarrow> (101, None, Some m)))"

section \<open>The server\<close>

datatype script_source_choice = From_Topic string nat | From_Commands string | From_Stdin | From_File string

text \<open>Which source feeds the server; the two \<open>unreachable!\<close> arms panic.\<close>

definition choose_source :: "'net args \<Rightarrow> nat option \<Rightarrow> (string, script_source_choice) outcome" where
  "choose_source a store =
     (case (ar_topic a, store) of
        (Some topic, Some s) \<Rightarrow> Ok (From_Topic topic s)
      | _ \<Rightarrow>
          (case (ar_script a, ar_commands a) of
             (Some _, Some _) \<Rightarrow> Panic ''internal error: entered unreachable code''
           | (None, Some cmd) \<Rightarrow>
               if ar_watch a then Panic ''internal error: entered unreachable code'' else Ok (From_Commands cmd)
           | (None, None) \<Rightarrow> Err ''Error: provide a script file, --commands, or --topic''
           | (Some f, None) \<Rightarrow> if f = ''-'' then Ok From_Stdin else Ok (From_File f)))"

text \<open>
  \<open>Store::init\<close>: the store, and the tasks it spawns to serve it: the API, and with \<open>--services\<close> three
  processors. What the tasks do is the store's own.
\<close>

datatype store_task =
    Store_Api nat "string option"
  | Actor_Processor nat
  | Service_Processor nat
  | Action_Processor nat

definition store_init :: "('st, 'w) startup_lib \<Rightarrow> string \<Rightarrow> bool \<Rightarrow> string option \<Rightarrow> (string, nat \<times> store_task list) outcome" where
  "store_init L p services expose =
     obind (of_sum id (sl_store_new L p)) (\<lambda>s.
       Ok (s, Store_Api s expose # (if services then [Actor_Processor s, Service_Processor s, Action_Processor s] else [])))"

definition open_store :: "('st, 'w) startup_lib \<Rightarrow> 'net args \<Rightarrow> (string, nat option \<times> store_task list) outcome" where
  "open_store L a =
     (case ar_store a of
        None \<Rightarrow> Ok (None, [])
      | Some p \<Rightarrow>
          (case store_init L p (ar_services a) (ar_expose a) of
             Ok (s, tasks) \<Rightarrow> Ok (Some s, tasks)
           | Err e \<Rightarrow> Err (''Failed to open store at '' @ p @ '': '' @ e)
           | Panic m \<Rightarrow> Panic m))"

text \<open>
  \<open>main\<close> in server mode up to the source: the address, the base engine and the chosen source.
\<close>

definition server_setup :: "('st, 'b, 'd, 'k) nushell \<Rightarrow> ('st, 'w) startup_lib \<Rightarrow> 'net args \<Rightarrow>
    (string, string \<times> 'st engine \<times> script_source_choice \<times> store_task list) outcome" where
  "server_setup N L a =
     obind (of_option ''Usage: http-nu <ADDR> [OPTIONS]'' (ar_addr a)) (\<lambda>addr.
     obind (open_store L a) (\<lambda>(store, tasks).
     obind (create_base_engine N L (ar_plugins a) (ar_include_paths a) store (http_nu_options_of a)) (\<lambda>base.
     obind (choose_source a store) (\<lambda>src. Ok (addr, base, src, tasks)))))"

text \<open>
  What the chosen source does before \<open>serve\<close> begins to receive: it offers one script, unless it is
  standard input with \<open>--watch\<close>, which is read by a thread of its own. \<open>E\<close> is the topic's store.
\<close>

definition start_source :: "('st, 'b, 'd, 'k) nushell \<Rightarrow> ('st, 'w) startup_lib \<Rightarrow> 'st topic_env \<Rightarrow> (nat \<Rightarrow> bool) \<Rightarrow> 'net args \<Rightarrow>
    'st engine \<Rightarrow> script_source_choice \<Rightarrow> 'st source_out \<Rightarrow> (string, unit) outcome \<times> 'st source_out" where
  "start_source N L E accepts a base src s =
     (case src of
        From_Topic topic store \<Rightarrow> topic_source N accepts E base topic s
      | From_Commands cmd \<Rightarrow> offer_first N accepts base cmd None s
      | From_Stdin \<Rightarrow>
          if ar_watch a then (Ok (), s) else stdin_source_once N accepts base (of_sum id (sl_stdin L)) s
      | From_File f \<Rightarrow> file_source N accepts base f (of_sum id (sl_read_file L f)) (of_sum id (sl_canonical L f)) s)"

text \<open>
  The beginning of \<open>main\<close>: the handler of the log by its format, then the two TLS providers and the
  database that must stay open; \<open>installed\<close>, \<open>crypto\<close> and \<open>stor_db\<close> are what the libraries return.
\<close>

datatype log_handler = Human_Handler | Jsonl_Handler

definition log_handler_of :: "log_format \<Rightarrow> log_handler" where
  "log_handler_of f = (case f of Human \<Rightarrow> Human_Handler | Jsonl \<Rightarrow> Jsonl_Handler)"

definition main_begin :: "log_format \<Rightarrow> bool \<Rightarrow> bool \<Rightarrow> (string, unit) outcome \<Rightarrow> (string, log_handler) outcome" where
  "main_begin f installed crypto stor_db =
     obind (if installed then Ok () else Panic ''failed to install default rustls CryptoProvider'') (\<lambda>_.
     obind (if crypto then Ok () else Panic ''failed to set nu_command crypto provider'') (\<lambda>_.
     obind stor_db (\<lambda>_. Ok (log_handler_of f))))"

text \<open>
  Its end: what \<open>serve\<close> returned is returned; the shutdown is emitted, and the log's handler waited for,
  only when it is no error.
\<close>

definition main_end :: "(string, unit) outcome \<Rightarrow> (string, unit) outcome \<times> log_event list \<times> bool" where
  "main_end served =
     (case served of
        Ok _ \<Rightarrow> (Ok (), shutdown, True)
      | Err e \<Rightarrow> (Err e, [], False)
      | Panic m \<Rightarrow> (Panic m, [], False))"

section \<open>Interruption\<close>

text \<open>
  The handler \<open>setup_ctrlc_handler\<close> installs: it sets the flag and, unless the table of jobs is poisoned
  (\<open>None\<close>), kills every job in it. Nushell's table is an argument: the numbers in it, and
  \<open>kill_and_remove\<close>.
\<close>

definition ctrlc_handler :: "('j \<Rightarrow> nat list) \<Rightarrow> (nat \<Rightarrow> 'j \<Rightarrow> 'j) \<Rightarrow> 'j option \<Rightarrow> bool \<times> 'j option" where
  "ctrlc_handler job_ids kill_and_remove jobs =
     (True, map_option (\<lambda>j. foldl (\<lambda>j id. kill_and_remove id j) j (job_ids j)) jobs)"

text \<open>
  \<open>interrupt_check\<close>: the flag as read at each tick of 100 milliseconds; the number of ticks it takes, or
  \<open>None\<close> while it is still waiting.
\<close>

fun interrupt_check :: "bool list \<Rightarrow> nat option" where
  "interrupt_check [] = None"
| "interrupt_check (interrupt # ticks) = (if interrupt then Some 0 else map_option Suc (interrupt_check ticks))"

text \<open>
  \<open>shutdown_signal\<close>: what the three futures are at each point it is polled; it returns at the first
  where one is ready. (It panics when the system refuses to install a signal handler.)
\<close>

definition shutdown_signal :: "(bool \<times> bool \<times> bool) list \<Rightarrow> nat option" where
  "shutdown_signal polls = interrupt_check (map (\<lambda>(ctrl_c, terminate, interrupted). ctrl_c \<or> terminate \<or> interrupted) polls)"

lemma interrupt_check_Some:
  "interrupt_check ticks = Some n \<longleftrightarrow> n < length ticks \<and> ticks ! n \<and> (\<forall>k<n. \<not> ticks ! k)"
proof (induction ticks arbitrary: n)
  case (Cons b ticks)
  then show ?case by (cases n) (auto simp: less_Suc_eq_0_disj)
qed simp

text \<open>After the handler no job is left, when killing a job takes it, and only it, off the table.\<close>

lemma ctrlc_kills_all:
  assumes "\<And>id j. job_ids (kill id j) = filter (\<lambda>i. i \<noteq> id) (job_ids j)" "ctrlc_handler job_ids kill (Some jobs) = (flag, Some jobs')"
  shows "flag \<and> job_ids jobs' = []"
proof -
  have "job_ids (foldl (\<lambda>j id. kill id j) j ids) = filter (\<lambda>i. i \<notin> set ids) (job_ids j)" for j ids
    by (induction ids arbitrary: j) (simp_all add: assms(1) conj_commute)
  with assms(2) show ?thesis by (auto simp: ctrlc_handler_def)
qed

section \<open>Laws\<close>

lemma of_sum_iff [outcome_simps]:
  "of_sum f r = Ok x \<longleftrightarrow> r = Inr x" "of_sum f r = Err e \<longleftrightarrow> (\<exists>d. r = Inl d \<and> e = f d)" "of_sum f r \<noteq> Panic m"
  by (cases r; auto simp: of_sum_def)+

lemma offer_first_sent:
  "so_sent s = [] \<Longrightarrow> length (so_sent (snd (offer_first N accepts base script p s))) \<le> Suc 0"
  using offer_sent [of N accepts base script p s]
  by (cases "offer N accepts base script p s") (auto simp: offer_first_def)

text \<open>What the program relies on of nushell: a name finds the last command added under it.\<close>

definition decls_law :: "('st, 'b, 'd, 'k) nushell \<Rightarrow> bool" where
  "decls_law N \<longleftrightarrow>
     (\<forall>ds st st' n. ns_add_decls N ds st = Ok st' \<longrightarrow>
       ns_find_decl N st' n = (case find (\<lambda>d. decl_name d = n) (rev ds) of Some d \<Rightarrow> Some d | None \<Rightarrow> ns_find_decl N st n))"

lemma add_commands_finds:
  assumes "decls_law N" "add_commands N ds eng = Ok eng'"
  shows "ns_find_decl N (eg_state eng') n =
    (case find (\<lambda>d. decl_name d = n) (rev ds) of Some d \<Rightarrow> Some d | None \<Rightarrow> ns_find_decl N (eg_state eng) n)"
  using assms by (auto simp: add_commands_def outcome_simps decls_law_def)

lemma configure_engine_finds:
  assumes "decls_law N" "configure_engine N (Some s) eng = Ok eng'"
  shows "ns_find_decl N (eg_state eng') ''.mj'' = Some (Store_Command ''.mj'' s)"
    and "ns_find_decl N (eg_state eng') ''.mj compile'' = Some (Store_Command ''.mj compile'' s)"
  using assms
  by (auto simp: configure_engine_def outcome_simps add_store_mj_commands_def add_commands_finds)

section \<open>Properties\<close>

text \<open>
  With arguments that clap lets through, the choice of the source never runs into the two
  \<open>unreachable!\<close> arms: a topic is always served from the store, and otherwise there is an error
  exactly when neither a script nor a command is given.
\<close>

theorem source_always_chosen:
  assumes "args_valid a" "open_store L a = Ok (store, tasks)"
  shows "(case ar_topic a of
      Some topic \<Rightarrow> \<exists>s. store = Some s \<and> choose_source a store = Ok (From_Topic topic s)
    | None \<Rightarrow> choose_source a store =
        (case ar_commands a of
           Some cmd \<Rightarrow> Ok (From_Commands cmd)
         | None \<Rightarrow>
             (case ar_script a of
                None \<Rightarrow> Err ''Error: provide a script file, --commands, or --topic''
              | Some f \<Rightarrow> Ok (if f = ''-'' then From_Stdin else From_File f))))"
  using assms
  by (auto simp: args_valid_def open_store_def choose_source_def outcome_simps split: option.splits outcome.splits)

definition demo_args :: "unit args" where
  "demo_args = \<lparr>ar_command = None, ar_addr = Some '':3001'', ar_tls = None, ar_plugins = [], ar_script = None,
     ar_commands = None, ar_watch = True, ar_log_format = Human, ar_store = Some ''store'', ar_services = False,
     ar_topic = Some ''app'', ar_expose = None, ar_dev = False, ar_datastar = True, ar_trust_proxies = [], ar_include_paths = []\<rparr>"

definition demo_lib :: "(nat option list list, (string \<times> string) list \<times> (string \<times> virtual_path) list) startup_lib" where
  "demo_lib = \<lparr>sl_engine = toy_parts [], sl_fresh = (3, 0), sl_canonical = Inr, sl_plugin_name_ok = (\<lambda>p. True), sl_debug = id,
     sl_register = (\<lambda>p st. Ok st), sl_metadata = (\<lambda>p. Ok ()), sl_signatures = (\<lambda>p. Ok []), sl_set_signals = id,
     sl_set_ctrlc = Ok (), sl_store_new = (\<lambda>p. Inr 9), sl_stdin = Inr ''x'',
     sl_read_file = (\<lambda>p. Inr ''x'')\<rparr>"

theorem source_always_chosen_witness:
  "choose_source demo_args (Some 9) = Ok (From_Topic ''app'' 9)"
proof -
  have "args_valid demo_args" by (simp add: args_valid_def demo_args_def)
  moreover have "open_store demo_lib demo_args = Ok (Some 9, [Store_Api 9 None])"
    by (simp add: open_store_def store_init_def demo_lib_def demo_args_def of_sum_def)
  ultimately show ?thesis using source_always_chosen [of demo_args demo_lib "Some 9"] by (simp add: demo_args_def)
qed

text \<open>
  Before the server receives, the chosen source sends at most as many engines as the channel
  holds, so the start never waits on the server it is about to begin.
\<close>

theorem start_never_blocks:
  "length (so_sent (snd (start_source N L E accepts a base src (source_start t)))) \<le> channel_capacity"
  by (auto simp: start_source_def topic_source_def stdin_source_once_def file_source_def source_start_def channel_capacity_def
      eprint_def eprint_opt_def intro!: offer_first_sent split: script_source_choice.split prod.split option.split outcome.split)

text \<open>
  In a server with a store, \<open>.mj\<close> and \<open>.mj compile\<close> are the commands with that store, whatever
  plugins define: the store's commands are added last. (In \<open>eval\<close> the plugins are loaded after the
  store, so there a plugin can replace them.)
\<close>

theorem store_templates_win:
  assumes "decls_law N" "\<And>st n. ns_find_decl N (sl_set_signals L st) n = ns_find_decl N st n"
    and "create_base_engine N L plugins include_paths (Some s) options = Ok eng"
  shows "ns_find_decl N (eg_state eng) ''.mj'' = Some (Store_Command ''.mj'' s) \<and>
    ns_find_decl N (eg_state eng) ''.mj compile'' = Some (Store_Command ''.mj compile'' s)"
  using assms(3) configure_engine_finds [OF assms(1)]
  by (auto simp: create_base_engine_def outcome_simps set_signals_def assms(2))

definition decl_nu :: "(command_decl list, unit, unit, unit) nushell" where
  "decl_nu = \<lparr>ns_parse = (\<lambda>st f s. ((), [], [], ())), ns_debug = id, ns_merge_delta = (\<lambda>d st. Ok st), ns_merge_env = (\<lambda>k st. Ok st),
     ns_new_stack = (), ns_capture_stack = (\<lambda>c k. k), ns_pipe_output = id, ns_add_var = (\<lambda>i v k. k),
     ns_eval = (\<lambda>st b p k. (Ok p, k)), ns_get_block = (\<lambda>st i. None), ns_required = (\<lambda>b. []),
     ns_into_value = (\<lambda>p. Ok VNothing), ns_into_closure = (\<lambda>v. Err (OtherShellError ''no closure'')),
     ns_set_file = (\<lambda>f st. st), ns_set_const = (\<lambda>n v st. Ok st), ns_add_decls = (\<lambda>ds st. Ok (rev ds @ st)),
     ns_store_decls = (\<lambda>s. [Store_Command ''.cat'' s]), ns_find_decl = (\<lambda>st n. find (\<lambda>d. decl_name d = n) st),
     ns_format_error = (\<lambda>st e. []), ns_format_in = (\<lambda>st d e. []), ns_show_error = (\<lambda>e. []), ns_strip_ansi = id,
     ns_expand = (\<lambda>v. []), ns_into_string = (\<lambda>s. Ok [])\<rparr>"

definition decl_lib :: "(command_decl list, (string \<times> string) list \<times> (string \<times> virtual_path) list) startup_lib" where
  "decl_lib = \<lparr>sl_engine = toy_parts [], sl_fresh = (0, 0), sl_canonical = Inr,
     sl_plugin_name_ok = (\<lambda>p. True), sl_debug = id, sl_register = (\<lambda>p st. Ok st), sl_metadata = (\<lambda>p. Ok ()),
     sl_signatures = (\<lambda>p. Ok [Plain_Command ''.mj'']), sl_set_signals = id, sl_set_ctrlc = Ok (),
     sl_store_new = (\<lambda>p. Inr 9), sl_stdin = Inr [], sl_read_file = (\<lambda>p. Inr [])\<rparr>"

lemma find_append: "find P (xs @ ys) = (case find P xs of Some x \<Rightarrow> Some x | None \<Rightarrow> find P ys)"
  by (induction xs) auto

theorem store_templates_win_witness:
  "\<exists>eng. create_base_engine decl_nu decl_lib [''nu_plugin_mj''] [] (Some 9) (http_nu_options_of demo_args) = Ok eng \<and>
    ns_find_decl decl_nu (eg_state eng) ''.mj'' = Some (Store_Command ''.mj'' 9)"
proof -
  have "ns_add_decls decl_nu ds st = Ok (rev ds @ st)" "ns_find_decl decl_nu st n = find (\<lambda>d. decl_name d = n) st" for ds st n
    by (simp_all add: decl_nu_def)
  then have 1: "decls_law decl_nu" by (auto simp: decls_law_def find_append split: option.split)
  have 2: "ns_find_decl decl_nu (sl_set_signals decl_lib st) n = ns_find_decl decl_nu st n" for st n
    by (simp add: decl_lib_def)
  obtain eng where eng: "create_base_engine decl_nu decl_lib [''nu_plugin_mj''] [] (Some 9) (http_nu_options_of demo_args) = Ok eng"
    by (simp add: create_base_engine_def engine_new_toy decl_lib_def decl_nu_def add_custom_commands_def add_commands_def set_lib_dirs_def
        set_http_nu_const_def load_plugin_def configure_engine_def add_store_commands_def add_store_mj_commands_def
        map_err_def of_sum_def)
  from store_templates_win [OF 1 2 this] eng show ?thesis by blast
qed

end
