(* ===== verification/End_To_End.thy ===== *)
theory End_To_End
  imports Handler Sse Serve
begin

text \<open>
  What holds across components: an event stream on its whole way from the script to the client, and
  what a reload makes of the event streams under way.
\<close>

section \<open>The way of a stream\<close>







section \<open>A stream and the reloads\<close>

text \<open>
  The polls of an event stream whose script has token \<open>t\<close>, while the server goes on: at each, the
  state of the server and what the receiver would yield.
\<close>

definition poll_trace :: "nat \<Rightarrow> ('st server \<times> bytes polled) list \<Rightarrow> (bool \<times> bytes polled) list" where
  "poll_trace t tr = map (\<lambda>(s, rx). (t \<in> sv_cancelled s, rx)) tr"

lemma not_cancelled_current:
  assumes "serving s" "t \<in> eg_token ` set (sv_installed s)"
  shows "t \<notin> sv_cancelled s \<Longrightarrow> \<exists>eng. sv_current s = Some eng \<and> eg_token eng = t"
    and "sv_current s = Some eng \<Longrightarrow> t \<noteq> eg_token eng \<Longrightarrow> t \<in> sv_cancelled s"
  using token_current [OF assms] by auto

lemma cancelled_by_reload:
  assumes "serving s" "t \<in> sv_cancelled s"
  shows "sv_phase s \<in> {Accepting, Closing} \<longrightarrow> sv_held s \<noteq> None \<or> (\<exists>e. sv_current s = Some e \<and> eg_token e \<noteq> t)"
proof -
  have inv: "flow_inv s" "cancel_inv s" using serving_invs [OF assms(1)] by simp_all
  show ?thesis using inv assms(2) current_token_fresh [OF inv(1)] by (auto simp: cancel_inv_def flow_inv_def)
qed


section \<open>The log of a whole run\<close>

text \<open>The events \<open>serve\<close> emits, and those among all events that are its own.\<close>

fun serve_events :: "startup_options \<Rightarrow> nat \<Rightarrow> serve_log \<Rightarrow> log_event list" where
  "serve_events opts startup_ms (LogStarted address) = log_started address startup_ms opts"
| "serve_events opts startup_ms LogReloaded = log_reloaded"
| "serve_events opts startup_ms (LogStopping inflight) = log_stopping inflight"
| "serve_events opts startup_ms LogStopped = log_stopped"
| "serve_events opts startup_ms LogStopTimedOut = log_stop_timed_out"

lemmas emit_defs = log_started_def log_reloaded_def log_stopping_def log_stopped_def log_stop_timed_out_def shutdown_def

fun of_serve :: "log_event \<Rightarrow> bool" where
  "of_serve (EvStarted address ms opts) = True"
| "of_serve EvReloaded = True"
| "of_serve (EvStopping n) = True"
| "of_serve EvStopped = True"
| "of_serve EvStopTimedOut = True"
| "of_serve _ = False"

fun is_stop_event :: "log_event \<Rightarrow> bool" where
  "is_stop_event EvStopped = True"
| "is_stop_event EvStopTimedOut = True"
| "is_stop_event _ = False"

lemma filter_stop_events:
  "filter is_stop_event (concat (map (serve_events opts ms) es)) = concat (map (serve_events opts ms) (filter is_stop es))"
proof (induction es)
  case (Cons e es)
  then show ?case by (cases e) (simp_all add: emit_defs)
qed simp

lemma length_serve_events: "length (concat (map (serve_events opts ms) es)) = length es"
proof (induction es)
  case (Cons e es)
  then show ?case by (cases e) (simp_all add: emit_defs)
qed simp

lemma is_stop_of_serve: "is_stop_event e \<Longrightarrow> of_serve e"
  by (cases e) simp_all

lemma filter_stop_of_serve: "filter is_stop_event evs = filter is_stop_event (filter of_serve evs)"
  by (induction evs) (auto dest: is_stop_of_serve)

lemma one_of_filter: "length (filter P xs) = 1 \<Longrightarrow> \<exists>!k. k < length xs \<and> P (xs ! k)"
proof -
  assume "length (filter P xs) = 1"
  then obtain k where "{i. i < length xs \<and> P (xs ! i)} = {k}"
    by (auto simp: length_filter_conv_card card_1_singleton_iff)
  then show ?thesis by (intro ex1I [of _ k]) blast+
qed

lemma concat_singletons: "(\<And>x. x \<in> set xs \<Longrightarrow> \<exists>l. f x = [l]) \<Longrightarrow> concat (map f xs) = map (hd \<circ> f) xs"
proof (induction xs)
  case (Cons x xs)
  from Cons.prems [of x] obtain l where "f x = [l]" by auto
  with Cons show ?case by simp
qed simp

text \<open>What the JSON-lines handler prints of the events up to the shutdown, when none was missed.\<close>

lemma jsonl_of_events:
  assumes "map fst rs = map RxEvent (evs @ shutdown)" "EvShutdown \<notin> set evs" "\<And>j. js j \<noteq> None"
  shows "\<exists>ls. flushed [] [] (fst (run_jsonl js bi rs)) = (ls, []) \<and> snd (run_jsonl js bi rs) \<and> length ls = length evs \<and>
    (\<forall>k<length evs. [ls ! k] = line_of js bi (rs ! k))"
proof -
  have ne: "rs \<noteq> []" using assms(1) by (auto simp: shutdown_def)
  have rs: "map fst (butlast rs) = map RxEvent evs" "fst (last rs) = RxEvent EvShutdown"
    using arg_cong [OF assms(1), of butlast] arg_cong [OF assms(1), of last] ne
    by (simp_all add: map_butlast shutdown_def last_map)
  have line: "\<exists>l. line_of js bi r = [l]" "\<not> is_end r" if r: "r \<in> set (butlast rs)" for r
  proof -
    have "fst r \<in> set (map fst (butlast rs))" using r by simp
    then obtain ev where ev: "fst r = RxEvent ev" "ev \<in> set evs" unfolding rs(1) by auto
    obtain x y z where r': "r = (x, y, z)" by (cases r)
    obtain j where "event_json bi y ev = Some j" using ev assms(2) by (cases "event_json bi y ev") auto
    moreover obtain l where "js j = Some l" using assms(3) by blast
    ultimately show "\<exists>l. line_of js bi r = [l]" "\<not> is_end r"
      using r' ev assms(2) by (auto simp: line_of_def)
  qed
  have fin: "is_end (last rs)" using rs(2) by (cases "last rs") auto
  have tw: "takeWhile (\<lambda>r. \<not> is_end r) rs = butlast rs"
    using line(2) fin by (subst append_butlast_last_id [OF ne, symmetric]) (simp add: takeWhile_append2 del: append_butlast_last_id)
  have len: "length (butlast rs) = length evs" using arg_cong [OF rs(1), of length] by simp
  have "concat (map (line_of js bi) (butlast rs)) = map (hd \<circ> line_of js bi) (butlast rs)"
    using line(1) by (intro concat_singletons) blast
  with jsonl_output [of rs js bi] tw fin ne
  have out: "flushed [] [] (fst (run_jsonl js bi rs)) = (map (hd \<circ> line_of js bi) (butlast rs), [])"
    using last_in_set by metis
  have "[hd (line_of js bi (rs ! k))] = line_of js bi (rs ! k)" if "k < length evs" for k
    using that line(1) [of "butlast rs ! k"] len nth_mem [of k "butlast rs"] by (auto simp: nth_butlast)
  with out len fin ne show ?thesis
    by (intro exI [of _ "map (hd \<circ> line_of js bi) (butlast rs)"])
      (auto simp: run_jsonl_fin nth_butlast intro: bexI [OF _ last_in_set])
qed

section \<open>Properties\<close>






text \<open>
  C6. A reload ends the event streams of the scripts it replaces, and only by cancelling them: follow
  a request from the state it began in through later states of the server; if the last of them has
  another script's engine, and its own script has not ended or failed by then, the stream fails, so
  that the client reconnects to the new script, at the first poll at which its token is cancelled (before the shutdown this means that a reload has
  begun). Uncompressed, it has passed on exactly the chunks polled before, each while its own engine
  was the current one; compressed, what it has sent decodes to all of them but the chunks the failing
  poll had already taken, fewer than thirty-two, which are lost.
\<close>

theorem reload_ends_stream:
  assumes "serving s0" "sv_requests s0 i = Some (c, t)" "sorted_wrt serve_step\<^sup>*\<^sup>* (s0 # map fst tr)"
    and "tr \<noteq> []" "sv_current (fst (last tr)) = Some eng" "t \<noteq> eg_token eng"
    and "\<forall>p\<in>set tr. live (snd p)" "brotli_crate B decompress so_far" "length tr < n"
  shows "\<exists>before s rx after rs kept lost. tr = before @ (s, rx) # after \<and>
    (\<forall>u\<in>fst ` set before. t \<notin> sv_cancelled u \<and> (\<exists>e. sv_current u = Some e \<and> eg_token e = t)) \<and>
    t \<in> sv_cancelled s \<and>
    (sv_phase s \<in> {Accepting, Closing} \<longrightarrow> sv_held s \<noteq> None \<or> (\<exists>e. sv_current s = Some e \<and> eg_token e \<noteq> t)) \<and>
    stream_polls B n True br (poll_trace t tr) =
      Some (rs @ Failed ''sse cancelled'' # (if br then [] else replicate (length after) Done)) \<and>
    (\<forall>r\<in>set rs. live r) \<and> (\<not> br \<longrightarrow> rs = map snd before) \<and>
    (br \<longrightarrow> map snd before = kept @ lost \<and> (\<forall>p\<in>set lost. is_chunk p) \<and> length lost < 32 \<and>
      (if kept = [] then rs = [] else so_far (concat (items rs)) = concat (items kept)))"
proof -
  have later: "serving u \<and> t \<in> eg_token ` set (sv_installed u)" if "u \<in> fst ` set tr" for u
  proof -
    have "serve_step\<^sup>*\<^sup>* s0 u" using assms(3) that by auto
    with assms(1) serve_steps_mono [of s0 u] serving_steps [of s0 u] request_installed [OF assms(1,2)] show ?thesis by auto
  qed
  have "t \<in> sv_cancelled (fst (last tr))"
    using later [of "fst (last tr)"] not_cancelled_current(2) assms(4-6) by force
  then have "\<exists>p\<in>set tr. t \<in> sv_cancelled (fst p)" using assms(4) by force
  from split_list_first_prop [OF this] obtain before p after where
    tr: "tr = before @ p # after" "t \<in> sv_cancelled (fst p)" "\<forall>q\<in>set before. t \<notin> sv_cancelled (fst q)" by blast
  obtain s rx where p: "p = (s, rx)" by fastforce
  have polls: "poll_trace t tr = poll_trace t before @ (True, rx) # poll_trace t after"
    using tr p by (simp add: poll_trace_def)
  have "\<forall>q\<in>set before. live (snd q)" using tr(1) assms(7) by simp
  then have "\<forall>q\<in>set (poll_trace t before). \<not> fst q \<and> live (snd q)"
    using tr(3) by (simp add: poll_trace_def case_prod_beta)
  moreover have "length (poll_trace t before) < n" using tr(1) assms(9) by (simp add: poll_trace_def)
  ultimately obtain rs kept lost where rs: "stream_polls B n True br (poll_trace t tr) =
      Some (rs @ Failed ''sse cancelled'' # (if br then [] else replicate (length (poll_trace t after)) Done))"
    "\<forall>r\<in>set rs. live r" "\<not> br \<longrightarrow> rs = map snd (poll_trace t before)"
    "br \<longrightarrow> map snd (poll_trace t before) = kept @ lost \<and> (\<forall>p\<in>set lost. is_chunk p) \<and> length lost < 32 \<and>
      (if kept = [] then rs = [] else so_far (concat (items rs)) = concat (items kept))"
    using cancelled_polls [OF assms(8), of "poll_trace t before" n br rx "poll_trace t after"] polls by auto
  have lens: "length (poll_trace t after) = length after" "map snd (poll_trace t before) = map snd before"
    by (simp_all add: poll_trace_def case_prod_beta)
  have before: "t \<notin> sv_cancelled u \<and> (\<exists>e. sv_current u = Some e \<and> eg_token e = t)" if "u \<in> fst ` set before" for u
    using that tr(1,3) later [of u] not_cancelled_current(1) [of u t] by auto
  have "serving s" "t \<in> sv_cancelled s" using later [of s] tr(1,2) p by auto
  note failed = this(2) cancelled_by_reload [OF this]
  have "tr = before @ (s, rx) # after" using tr(1) p by simp
  with before failed rs [unfolded lens] show ?thesis by blast
qed

theorem reload_ends_stream_witness:
  "stream_polls stored 3 True False (poll_trace 1 [(demo_serving, Item ''data: 1''), (demo_reloaded, Item ''data: 2'')]) =
    Some [Item ''data: 1'', Failed ''sse cancelled'']"
proof -
  let ?tr = "[(demo_serving, Item ''data: 1''), (demo_reloaded, Item ''data: 2'')]"
  have steps: "serve_step\<^sup>*\<^sup>* demo_serving demo_reloaded"
    using demo_updater_cancel demo_updater_store demo_updater_log by (meson rtranclp.rtrancl_into_rtrancl rtranclp.rtrancl_refl)
  have req: "sv_requests demo_serving 0 = Some (7, 1)" by (simp add: demo_serving_def)
  have chain: "sorted_wrt serve_step\<^sup>*\<^sup>* (demo_serving # map fst ?tr)" using steps by simp
  have cur: "sv_current (fst (last ?tr)) = Some (demo_engine 2)" "1 \<noteq> eg_token (demo_engine 2)"
    by (simp_all add: demo_reloaded_def demo_stored_def demo_reloading_def demo_engine_def)
  from reload_ends_stream [OF serving_demo_serving req chain _ cur _ stored_crate, of 3 False]
  obtain before s rx after rs where b: "?tr = before @ (s, rx) # after"
    and out: "stream_polls stored 3 True False (poll_trace 1 ?tr) =
      Some (map snd before @ Failed ''sse cancelled'' # replicate (length after) Done)"
    by auto
  have "1 \<notin> sv_cancelled demo_serving" by (simp add: demo_serving_def)
  then have first: "hd (the (stream_polls stored 3 True False (poll_trace 1 ?tr))) = Item ''data: 1''"
    by (simp add: stream_polls_def poll_trace_def)
  with b out have "before \<noteq> []" by (cases before) auto
  with b have "before = [(demo_serving, Item ''data: 1'')] \<and> after = []" by (auto simp: Cons_eq_append_conv)
  with out show ?thesis by simp
qed

text \<open>
  C37. When the server stops, its log is whole: if main emits the shutdown after \<open>serve\<close> returned, and
  the JSON-lines handler missed no event, the handler ends with every event before it on standard
  output, a line each, in order, and none left in its buffer; exactly one of these lines is the
  entry of the end, and unless it says that the time ran out, no connection was left.
\<close>

theorem shutdown_log_whole:
  assumes "serving s" "sv_phase s = Ended"
    and "filter of_serve evs = concat (map (serve_events opts ms) (sv_log s))" "EvShutdown \<notin> set evs"
    and "map fst rs = map RxEvent (evs @ shutdown)" "\<And>j. js j \<noteq> None"
  shows "\<exists>ls. flushed [] [] (fst (run_jsonl js bi rs)) = (ls, []) \<and> snd (run_jsonl js bi rs) \<and> length ls = length evs \<and>
    (\<forall>k<length evs. [ls ! k] = line_of js bi (rs ! k)) \<and> (\<exists>!k. k < length evs \<and> is_stop_event (evs ! k)) \<and>
    (EvStopTimedOut \<notin> set evs \<longrightarrow> sv_conns s = {})"
proof -
  have stop: "length (filter is_stop (sv_log s)) = 1" "LogStopTimedOut \<notin> set (sv_log s) \<longrightarrow> sv_conns s = {}"
    using serving_stop [OF assms(1)] assms(2) by (simp_all add: stop_inv_def)
  have "length (filter is_stop_event evs) = 1"
    using stop(1) by (simp add: filter_stop_of_serve [of evs] assms(3) filter_stop_events length_serve_events del: One_nat_def)
  moreover have "EvStopTimedOut \<in> set evs" if "LogStopTimedOut \<in> set (sv_log s)"
  proof -
    have "EvStopTimedOut \<in> set (concat (map (serve_events opts ms) (sv_log s)))"
      using that by (force simp: emit_defs)
    then have "EvStopTimedOut \<in> set (filter of_serve evs)" using assms(3) by simp
    then show ?thesis by simp
  qed
  ultimately show ?thesis using jsonl_of_events [OF assms(5,4,6), where bi = bi] one_of_filter [of is_stop_event evs] stop(2) by auto
qed

text \<open>A server interrupted before it had a script.\<close>

theorem shutdown_log_whole_witness:
  "\<exists>ls. flushed [] [] (fst (run_jsonl (\<lambda>j. Some ''line'') \<lparr>pkg_version = '''', nu_version = '''', xs_version = None\<rparr>
      [(RxEvent (EvError ''x''), ''t1'', False), (RxEvent EvStopped, ''t2'', True), (RxEvent EvShutdown, ''t3'', True)])) = (ls, []) \<and>
    length ls = 2"
proof -
  let ?s = "(note_log LogStopped server_start)\<lparr>sv_phase := Ended\<rparr> :: unit server"
  let ?rs = "[(RxEvent (EvError ''x''), ''t1'', False), (RxEvent EvStopped, ''t2'', True), (RxEvent EvShutdown, ''t3'', True)]"
  have "serve_step server_start ?s" by (rule interrupted_early) (simp add: server_start_def)
  then have s: "serving ?s" using serving.intros by blast
  have log: "filter of_serve [EvError ''x'', EvStopped] = concat (map (serve_events opts 5) (sv_log ?s))" for opts
    by (simp add: server_start_def emit_defs)
  have "map fst ?rs = map RxEvent ([EvError ''x'', EvStopped] @ shutdown)" by (simp add: emit_defs)
  from shutdown_log_whole [OF s _ log _ this, of "\<lambda>j. Some ''line''"] show ?thesis by fastforce
qed

end
