(* ===== verification/Request_Log.thy ===== *)
theory Request_Log
  imports End_To_End
begin

text \<open>
  A request in the log, from its handling to standard output: the events of its life (\<open>handler.rs\<close>, the
  guard of its body), emitted among those of other requests over the log's channel, and the lines the
  JSON-lines handler prints of them (\<open>logging.rs\<close>).
\<close>

section \<open>The life of a request\<close>

text \<open>The request an event belongs to.\<close>

fun event_request :: "log_event \<Rightarrow> string option" where
  "event_request (EvRequest rid d) = Some rid"
| "event_request (EvResponse rid s hs l) = Some rid"
| "event_request (EvComplete rid n d) = Some rid"
| "event_request ev = None"

text \<open>
  The events of a request: those of \<open>handle\<close>, and of the guard when the connection has polled the body
  of the reply (\<open>polls\<close> is what its inner body yields) and drops it.
\<close>

definition request_life :: "'h header_lib \<Rightarrow> wire \<Rightarrow> ('h, 'net) services \<Rightarrow> 'net app_config \<Rightarrow>
    (nu_value \<Rightarrow> byte_stream \<Rightarrow> worker) \<Rightarrow> (ip_addr \<times> 16 word) option \<Rightarrow> string \<Rightarrow> 64 word \<Rightarrow> 'h incoming \<Rightarrow>
    instant \<Rightarrow> frame polled list \<Rightarrow> instant \<Rightarrow> log_event list" where
  "request_life L W S config eval addr rid latency req start polls now =
     (case handle L W S config eval addr rid latency req of
        (Ok r, evs) \<Rightarrow>
          evs @ (if rp_guarded r then guard_drop (fst (logging_run (guard_new rid start) polls)) now else [])
      | (_, evs) \<Rightarrow> evs)"

section \<open>Laws\<close>

lemma request_life_shape:
  "\<exists>mid n d. request_life L W S config eval addr rid latency req start polls now =
      log_request L (sv_show_ip S) rid (build_request L S config addr req) @ mid @ [EvComplete rid n d] \<and>
    filter is_complete mid = [] \<and>
    (\<forall>r. fst (handle L W S config eval addr rid latency req) = Ok r \<and> rp_guarded r \<longrightarrow>
       n = of_nat (length (concat (map frame_bytes polls))))"
proof -
  obtain res evs where core: "handle_core L W S config eval addr rid latency req = (res, evs)" by fastforce
  with handle_core_logged [of L rid latency W S config eval addr req] have logged: "response_logged L rid latency (res, evs)"
    by simp
  then have mid: "filter is_complete evs = []" by (cases res) (auto simp: response_logged_def)
  show ?thesis
  proof (cases res)
    case (Ok r)
    then have "rp_guarded r" using logged by (simp add: response_logged_def)
    with Ok core mid show ?thesis
      using conjunct2 [OF logging_run_spec [of "guard_new rid start" polls]]
      by (simp add: request_life_def handle_def handle_inner_core drop_guard_def guard_drop_def guard_new_def log_complete_def)
  next
    case (Err e)
    with core mid show ?thesis
      by (auto simp: request_life_def handle_def handle_inner_core drop_guard_def error_reply_def log_complete_def)
  next
    case (Panic m)
    with core mid show ?thesis
      by (simp add: request_life_def handle_def handle_inner_core drop_guard_def log_complete_def)
  qed
qed

text \<open>The first and the last element of a kind in a list.\<close>

lemma first_of_filter:
  assumes "filter P xs = a # rest"
  shows "\<exists>i<length xs. xs ! i = a \<and> P a \<and> (\<forall>k<i. \<not> P (xs ! k))"
proof -
  from assms obtain us vs where "xs = us @ a # vs" "\<forall>u\<in>set us. \<not> P u" "P a" by (auto simp: filter_eq_Cons_iff)
  then show ?thesis by (intro exI [of _ "length us"]) (simp add: nth_append)
qed

lemma last_of_filter:
  assumes "filter P xs = rest @ [b]"
  shows "\<exists>j<length xs. xs ! j = b \<and> P b \<and> (\<forall>k. j < k \<and> k < length xs \<longrightarrow> \<not> P (xs ! k))"
proof -
  have "filter P (rev xs) = b # rev rest" by (simp add: assms rev_filter [symmetric])
  then obtain us vs where us: "rev xs = us @ b # vs" "\<forall>u\<in>set us. \<not> P u" "P b" by (auto simp: filter_eq_Cons_iff)
  then have xs: "xs = rev vs @ b # rev us" by (simp add: rev_swap)
  have "\<not> P (xs ! k)" if "length vs < k" "k < length xs" for k
  proof -
    have "xs ! k = rev us ! (k - Suc (length vs))" using that by (simp add: xs nth_append)
    moreover have "k - Suc (length vs) < length (rev us)" using that by (simp add: xs)
    ultimately show ?thesis using us(2) nth_mem by (metis set_rev)
  qed
  then show ?thesis using us(3) by (intro exI [of _ "length vs"]) (simp add: xs nth_append)
qed

text \<open>What the handler prints when it missed nothing: a line for every event before the shutdown.\<close>

lemma line_for_each_event:
  assumes "broadcast_channel L hist pos cap" "init_broadcast L = (r, c0)" "bc_run L r acts c0 = (rs, c')"
    and "sends acts = evs @ EvShutdown # later" "EvShutdown \<notin> set evs \<union> set later" "keeps_up log_capacity r 0 acts"
    and "map fst results = log_results rs" "snd (run_jsonl js bi results)" "\<And>j. js j \<noteq> None"
  shows "\<exists>ls. flushed [] [] (fst (run_jsonl js bi results)) = (ls, []) \<and> length ls = length evs \<and>
    (\<forall>k<length evs. [ls ! k] = line_of js bi (results ! k) \<and> fst (results ! k) = RxEvent (evs ! k))"
proof -
  let ?received = "takeWhile (\<lambda>x. \<not> is_end x) results"
  from log_until_shutdown [OF assms(1-5,7,8)] assms(6) obtain rs1 where fin: "\<exists>x\<in>set results. is_end x"
    and received: "map fst ?received = log_results rs1" and rs: "explains rs1 evs" "\<not> list_ex is_lag rs1" by blast
  have "log_results rs1 = map RxEvent (got rs1)"
    using rs(2) by (induction rs1 rule: log_results.induct) auto
  with received explains_no_lag [OF rs] have fsts: "map fst ?received = map RxEvent evs" by simp
  then have len: "length ?received = length evs" by (metis length_map)
  have nth: "results ! k = ?received ! k" "fst (results ! k) = RxEvent (evs ! k)" if "k < length evs" for k
  proof -
    show r: "results ! k = ?received ! k" using that len by (simp add: takeWhile_nth)
    show "fst (results ! k) = RxEvent (evs ! k)" using arg_cong [OF fsts, of "\<lambda>xs. xs ! k"] that len by (simp add: r)
  qed
  have line: "\<exists>l. line_of js bi x = [l]" if "x \<in> set ?received" for x
  proof -
    from that obtain k where k: "k < length evs" "x = results ! k" using len nth(1) by (metis in_set_conv_nth)
    then have ev: "fst x = RxEvent (evs ! k)" "evs ! k \<noteq> EvShutdown" using nth(2) assms(5) nth_mem by (blast, metis Un_iff)
    obtain y z where x: "x = (RxEvent (evs ! k), y, z)" using ev(1) by (metis prod.exhaust_sel)
    obtain j where "event_json bi y (evs ! k) = Some j" using ev(2) by (cases "event_json bi y (evs ! k)") auto
    moreover obtain l where "js j = Some l" using assms(9) by blast
    ultimately show ?thesis using x ev(2) by (simp add: line_of_def)
  qed
  have "flushed [] [] (fst (run_jsonl js bi results)) = (map (hd \<circ> line_of js bi) ?received, [])"
    using jsonl_output [OF fin] concat_singletons [of ?received "line_of js bi"] line by simp
  moreover have "[hd (line_of js bi (results ! k))] = line_of js bi (results ! k)" if "k < length evs" for k
    using line [of "?received ! k"] that len nth(1) nth_mem by fastforce
  ultimately show ?thesis using len nth by (intro exI [of _ "map (hd \<circ> line_of js bi) ?received"]) simp
qed

section \<open>Properties\<close>

text \<open>
  C10. Every request leaves its trace on standard output: whatever other requests and events are logged
  meanwhile, when the JSON-lines handler ends after the shutdown without having fallen behind, there is
  a line for every event before the shutdown, in order; the first of the request's lines is its request
  entry, the last is its completion, no other line is a completion of it, and when the reply carried
  the guard, the completion gives the number of bytes its body sent (the reply to a failed script
  carries none: its completion is logged before its text is sent, with zero bytes).
\<close>

theorem request_log_lines:
  assumes "broadcast_channel B hist pos cap" "init_broadcast B = (r, c0)" "bc_run B r acts c0 = (rs, c')"
    and "sends acts = evs @ EvShutdown # later" "EvShutdown \<notin> set evs \<union> set later" "keeps_up log_capacity r 0 acts"
    and "map fst results = log_results rs" "snd (run_jsonl js bi results)" "\<And>j. js j \<noteq> None"
    and "filter (\<lambda>ev. event_request ev = Some rid) evs =
      request_life L W S config eval addr rid latency req start polls now"
  shows "\<exists>ls i j nbytes duration. flushed [] [] (fst (run_jsonl js bi results)) = (ls, []) \<and> length ls = length evs \<and>
    (\<forall>k<length evs. [ls ! k] = line_of js bi (results ! k) \<and> fst (results ! k) = RxEvent (evs ! k)) \<and>
    i < j \<and> j < length evs \<and>
    evs ! i = EvRequest rid (request_data_of L (sv_show_ip S) (build_request L S config addr req)) \<and>
    evs ! j = EvComplete rid nbytes duration \<and>
    (\<forall>k<length evs. event_request (evs ! k) = Some rid \<longrightarrow> i \<le> k \<and> k \<le> j \<and> (is_complete (evs ! k) \<longrightarrow> k = j)) \<and>
    (\<forall>reply. fst (handle L W S config eval addr rid latency req) = Ok reply \<and> rp_guarded reply \<longrightarrow>
       nbytes = of_nat (length (concat (map frame_bytes polls))))"
proof -
  let ?P = "\<lambda>ev. event_request ev = Some rid"
  let ?first = "EvRequest rid (request_data_of L (sv_show_ip S) (build_request L S config addr req))"
  from request_life_shape [of L W S config eval addr rid latency req start polls now] obtain mid n d where
    life: "filter ?P evs = ?first # mid @ [EvComplete rid n d]" and mid: "filter is_complete mid = []"
    and guarded: "\<forall>reply. fst (handle L W S config eval addr rid latency req) = Ok reply \<and> rp_guarded reply \<longrightarrow>
      n = of_nat (length (concat (map frame_bytes polls)))"
    unfolding assms(10) by (auto simp: log_request_def)
  from first_of_filter [OF life] obtain i where i: "i < length evs" "evs ! i = ?first" "\<forall>k<i. \<not> ?P (evs ! k)" by blast
  from last_of_filter [of ?P evs "?first # mid"] life obtain j where
    j: "j < length evs" "evs ! j = EvComplete rid n d" "\<forall>k. j < k \<and> k < length evs \<longrightarrow> \<not> ?P (evs ! k)" by auto
  have "filter is_complete (filter ?P evs) = [EvComplete rid n d]" by (simp add: life mid)
  then have "length (filter (\<lambda>ev. ?P ev \<and> is_complete ev) evs) = 1" by (simp add: conj_commute)
  from one_of_filter [OF this] have one: "\<exists>!k. k < length evs \<and> ?P (evs ! k) \<and> is_complete (evs ! k)" .
  have within: "i \<le> k \<and> k \<le> j \<and> (is_complete (evs ! k) \<longrightarrow> k = j)" if k: "k < length evs" "?P (evs ! k)" for k
  proof -
    have "?P (evs ! j) \<and> is_complete (evs ! j)" using j(2) by simp
    with k one j(1) have "is_complete (evs ! k) \<longrightarrow> k = j" by blast
    with k i(3) j(3) show ?thesis by (meson not_le)
  qed
  have "i \<noteq> j" using i(2) j(2) by auto
  with within [OF j(1)] j(2) have "i < j" by simp
  with line_for_each_event [OF assms(1-9)] i(2) j(1,2) within guarded show ?thesis by blast
qed

text \<open>A request for the Datastar bundle, of which 3 bytes are sent, while another request's script prints.\<close>

definition bundle_config :: "string app_config" where
  "bundle_config = \<lparr>trusted_proxies = [], datastar = True, dev = False\<rparr>"

definition bundle_services :: "(alist_headers, string) services" where
  "bundle_services = test_services"

definition never_eval :: "nu_value \<Rightarrow> byte_stream \<Rightarrow> worker" where
  "never_eval request body = spawn_eval_thread (test_engine [] (Err ''never'')) (\<lambda>n. True) request body 1 {}"

lemma bundle_life:
  "\<exists>h. request_life alist_header_lib test_wire bundle_services bundle_config never_eval None ''id'' 3
      (test_incoming datastar_js_path) 0 [Item (DataFrame ''abc'')] 5000000 =
    [EvRequest ''id'' (request_data_of alist_header_lib (sv_show_ip bundle_services)
       (build_request alist_header_lib bundle_services bundle_config None (test_incoming datastar_js_path))),
     EvResponse ''id'' 200 h 3, EvComplete ''id'' 3 5]"
proof -
  have p: "uri_path (in_uri (test_incoming datastar_js_path)) = datastar_js_path"
    by (simp add: test_incoming_def test_uri_def)
  show ?thesis
    by (simp add: request_life_def handle_def handle_inner_core handle_core_def p bundle_config_def drop_guard_def
        datastar_reply_def log_request_def log_response_def guard_drop_def guard_new_def logging_poll_def log_complete_def
        elapsed_ms_def)
qed

theorem request_log_lines_witness:
  "\<exists>d h rs c' ls. let evs = [EvRequest ''id'' d, EvPrint ''other'', EvResponse ''id'' 200 h 3, EvComplete ''id'' 3 5] in
    bc_run kept_lib 0 (map Send evs @ [Recv 0, Send EvShutdown, Recv 0, Recv 0, Recv 0, Recv 0]) (snd (init_broadcast kept_lib)) =
      (rs, c') \<and>
    flushed [] [] (fst (run_jsonl (\<lambda>j. Some ''line'') \<lparr>pkg_version = [], nu_version = [], xs_version = None\<rparr>
      (map (\<lambda>x. (x, ''t'', False)) (log_results rs)))) = (ls, []) \<and> length ls = 4"
proof -
  let ?d = "request_data_of alist_header_lib (sv_show_ip bundle_services)
       (build_request alist_header_lib bundle_services bundle_config None (test_incoming datastar_js_path))"
  obtain h where life: "request_life alist_header_lib test_wire bundle_services bundle_config never_eval None ''id'' 3
      (test_incoming datastar_js_path) 0 [Item (DataFrame ''abc'')] 5000000 =
      [EvRequest ''id'' ?d, EvResponse ''id'' 200 h 3, EvComplete ''id'' 3 5]" using bundle_life by blast
  let ?evs = "[EvRequest ''id'' ?d, EvPrint ''other'', EvResponse ''id'' 200 h 3, EvComplete ''id'' 3 5]"
  let ?acts = "map Send ?evs @ [Recv 0, Send EvShutdown, Recv 0, Recv 0, Recv 0, Recv 0]"
  let ?bi = "\<lparr>pkg_version = [], nu_version = [], xs_version = None\<rparr>"
  let ?js = "\<lambda>j :: json. Some ''line''"
  obtain rs c' where run: "bc_run kept_lib 0 ?acts (snd (init_broadcast kept_lib)) = (rs, c')" by (metis surj_pair)
  have init: "init_broadcast (kept_lib :: (log_event, log_event kept) broadcast_lib) = (0, snd (init_broadcast kept_lib))"
    by (simp add: init_broadcast_def kept_lib_def)
  have rs: "rs = map Got ?evs @ [Got EvShutdown]"
    using run by (auto simp: init_broadcast_def kept_lib_def kept_recv_def log_capacity_def Let_def)
  let ?results = "map (\<lambda>x. (x, ''t'', False)) (log_results rs)"
  have sends: "sends ?acts = ?evs @ EvShutdown # []" by simp
  have up: "keeps_up log_capacity 0 0 ?acts" by (simp add: log_capacity_def)
  have results: "map fst ?results = log_results rs" "snd (run_jsonl ?js ?bi ?results)"
    by (simp_all add: o_def rs run_jsonl_fin)
  have mine: "filter (\<lambda>ev. event_request ev = Some ''id'') ?evs =
      request_life alist_header_lib test_wire bundle_services bundle_config never_eval None ''id'' 3
        (test_incoming datastar_js_path) 0 [Item (DataFrame ''abc'')] 5000000" by (simp add: life)
  from request_log_lines [OF kept.broadcast_channel_axioms init run sends _ up results _ mine]
  obtain ls where "flushed [] [] (fst (run_jsonl ?js ?bi ?results)) = (ls, [])" "length ls = length ?evs" by auto
  with run show ?thesis unfolding Let_def
    by (intro exI [of _ ?d] exI [of _ h] exI [of _ rs] exI [of _ c'] exI [of _ ls]) simp
qed

end
