(* ===== verification/Live.thy ===== *)
theory Live
  imports Serve
begin

text \<open>
  Live scripts: a source and the server together (\<open>main\<close>, \<open>file_source\<close>, \<open>stdin_source\<close> and
  \<open>serve\<close> in \<open>src/main.rs\<close>, the watcher of \<open>src/store.rs\<close>). The source compiles one script after the
  other and waits for room in the channel with each engine; the server goes on meanwhile.
\<close>

section \<open>Source and server\<close>

text \<open>
  The scripts still to come; an engine compiled and waiting in \<open>send\<close>; what the source has done;
  the server.
\<close>

record 'st live =
  lv_todo :: "'st offered list"
  lv_ready :: "'st engine option"
  lv_source :: "'st source_out"
  lv_server :: "'st server"

definition live_start :: "nat \<Rightarrow> 'st offered list \<Rightarrow> 'st live" where
  "live_start token scripts = \<lparr>lv_todo = scripts, lv_ready = None, lv_source = source_start token, lv_server = server_start\<rparr>"

text \<open>The engines among what \<open>send\<close> adds.\<close>

definition new_engine :: "'st source_out \<Rightarrow> 'st source_out \<Rightarrow> 'st engine option" where
  "new_engine s s' = (if so_sent s' = so_sent s then None else Some (last (so_sent s')))"

text \<open>
  The source compiles a script, when it waits for no room; its engine goes to the channel; the source
  ends when it has no more scripts; a panic ends it before. Every other step is the server's own.
\<close>

inductive live_step :: "('st, 'b, 'd, 'k) nushell \<Rightarrow> 'st live \<Rightarrow> 'st live \<Rightarrow> bool" for N where
  compile: "lv_todo L = (base, script, p) # os \<Longrightarrow> lv_ready L = None \<Longrightarrow> sv_open (lv_server L) \<Longrightarrow>
    offer N (\<lambda>n. True) base script p (lv_source L) = (Ok go, src) \<Longrightarrow>
    live_step N L (L\<lparr>lv_todo := os, lv_ready := new_engine (lv_source L) src, lv_source := src\<rparr>)"
| send: "lv_ready L = Some eng \<Longrightarrow> serve_step (lv_server L) sv \<Longrightarrow> sv_sent sv = sv_sent (lv_server L) @ [eng] \<Longrightarrow>
    live_step N L (L\<lparr>lv_ready := None, lv_server := sv\<rparr>)"
| finish: "lv_todo L = [] \<Longrightarrow> lv_ready L = None \<Longrightarrow> sv_open (lv_server L) \<Longrightarrow>
    live_step N L (L\<lparr>lv_server := (lv_server L)\<lparr>sv_open := False\<rparr>\<rparr>)"
| abort: "lv_todo L = (base, script, p) # os \<Longrightarrow> lv_ready L = None \<Longrightarrow> sv_open (lv_server L) \<Longrightarrow>
    offer N (\<lambda>n. True) base script p (lv_source L) = (Panic m, src) \<Longrightarrow>
    live_step N L (L\<lparr>lv_server := (lv_server L)\<lparr>sv_open := False\<rparr>\<rparr>)"
| server: "serve_step (lv_server L) sv \<Longrightarrow> sv_sent sv = sv_sent (lv_server L) \<Longrightarrow> sv_open sv = sv_open (lv_server L) \<Longrightarrow>
    live_step N L (L\<lparr>lv_server := sv\<rparr>)"

inductive live_run :: "('st, 'b, 'd, 'k) nushell \<Rightarrow> nat \<Rightarrow> 'st offered list \<Rightarrow> 'st live \<Rightarrow> bool" for N token scripts where
  start: "live_run N token scripts (live_start token scripts)"
| step: "live_run N token scripts L \<Longrightarrow> live_step N L L' \<Longrightarrow> live_run N token scripts L'"

text \<open>The server is a run of the server alone.\<close>

lemma live_step_server: "live_step N L L' \<Longrightarrow> serving (lv_server L) \<Longrightarrow> serving (lv_server L')"
  by (induction rule: live_step.induct) (auto intro: serving.step serve_step.source_end)

lemma live_serving: "live_run N token scripts L \<Longrightarrow> serving (lv_server L)"
  by (induction rule: live_run.induct) (auto simp: live_start_def intro: serving.start live_step_server)

section \<open>The engines are those of the scripts\<close>

text \<open>The engine of a script, if it compiles, and what is logged.\<close>

definition script_result :: "('st, 'b, 'd, 'k) nushell \<Rightarrow> nat \<Rightarrow> 'st offered \<Rightarrow> (string, 'st engine option) outcome \<times> string list" where
  "script_result N token s = script_to_engine N token (fst s) (fst (snd s)) (snd (snd s))"

text \<open>The specification: every script is compiled with the next token; the engines of those that compile.\<close>

fun engines_of :: "('st, 'b, 'd, 'k) nushell \<Rightarrow> nat \<Rightarrow> 'st offered list \<Rightarrow> 'st engine list" where
  "engines_of N token [] = []"
| "engines_of N token (s # ss) =
     (case script_result N token s of (Ok (Some eng), log) \<Rightarrow> [eng] | _ \<Rightarrow> []) @ engines_of N (Suc token) ss"

fun reports_of :: "('st, 'b, 'd, 'k) nushell \<Rightarrow> nat \<Rightarrow> 'st offered list \<Rightarrow> string list" where
  "reports_of N token [] = []"
| "reports_of N token (s # ss) = snd (script_result N token s) @ reports_of N (Suc token) ss"

lemma engines_of_append:
  "engines_of N token (xs @ ys) = engines_of N token xs @ engines_of N (token + length xs) ys"
  by (induction xs arbitrary: token) simp_all

lemma reports_of_append:
  "reports_of N token (xs @ ys) = reports_of N token xs @ reports_of N (token + length xs) ys"
  by (induction xs arbitrary: token) simp_all

definition live_inv :: "('st, 'b, 'd, 'k) nushell \<Rightarrow> nat \<Rightarrow> 'st offered list \<Rightarrow> 'st live \<Rightarrow> bool" where
  "live_inv N token scripts L \<longleftrightarrow> (\<exists>done. scripts = done @ lv_todo L \<and>
     so_sent (lv_source L) = engines_of N token done \<and> so_log (lv_source L) = reports_of N token done \<and>
     so_next (lv_source L) = token + length done \<and>
     sv_sent (lv_server L) @ (case lv_ready L of Some eng \<Rightarrow> [eng] | None \<Rightarrow> []) = so_sent (lv_source L))"

lemma offer_result:
  assumes "offer N (\<lambda>n. True) base script p s = (Ok go, s')"
  shows "so_next s' = Suc (so_next s)" "so_log s' = so_log s @ reports_of N (so_next s) [(base, script, p)]"
    "so_sent s' = so_sent s @ engines_of N (so_next s) [(base, script, p)]"
  using assms
  by (auto simp: offer_def script_result_def Let_def split: prod.splits outcome.splits option.splits if_splits)

lemma serve_step_open: "serve_step s t \<Longrightarrow> sv_open t \<Longrightarrow> sv_open s"
  by (induction rule: serve_step.induct) auto

lemma live_inv_step: "live_step N L L' \<Longrightarrow> live_inv N token scripts L \<Longrightarrow> live_inv N token scripts L'"
proof (induction rule: live_step.induct)
  case (compile L base script p os go src)
  then obtain "done" where d: "scripts = done @ (base, script, p) # os"
    "so_sent (lv_source L) = engines_of N token done" "so_log (lv_source L) = reports_of N token done"
    "so_next (lv_source L) = token + length done" "sv_sent (lv_server L) = so_sent (lv_source L)"
    by (auto simp: live_inv_def)
  note r = offer_result [OF compile.hyps(4)]
  have "so_sent src = so_sent (lv_source L) @ (case new_engine (lv_source L) src of Some eng \<Rightarrow> [eng] | None \<Rightarrow> [])"
    using r(3) by (auto simp: new_engine_def split: prod.splits outcome.splits option.splits)
  then show ?case unfolding live_inv_def
    using d r compile.hyps(1)
    by (intro exI [of _ "done @ [(base, script, p)]"])
      (simp add: engines_of_append reports_of_append del: engines_of.simps reports_of.simps)
next
  case (send L eng sv)
  then show ?case using serve_step_open [OF send.hyps(2)] by (force simp: live_inv_def)
qed (force simp: live_inv_def)+

lemma live_inv_live: "live_run N token scripts L \<Longrightarrow> live_inv N token scripts L"
proof (induction rule: live_run.induct)
  case start
  show ?case by (auto simp: live_inv_def live_start_def server_start_def source_start_def)
next
  case (step L L')
  then show ?case using live_inv_step by blast
qed

section \<open>Properties\<close>

lemma script_result_cases:
  "(\<exists>eng. script_result N token x = (Ok (Some eng), []) \<and> eg_token eng = token \<and> (nushell_ok N \<longrightarrow> engine_ready N eng)) \<or>
    (\<exists>log. script_result N token x = (Ok None, log)) \<or> (\<exists>m log. script_result N token x = (Panic m, log))"
proof (cases "fst (script_result N token x)")
  case (Ok e)
  show ?thesis
  proof (cases e)
    case (Some eng)
    with Ok have r: "script_to_engine N token (fst x) (fst (snd x)) (snd (snd x)) = (Ok (Some eng), snd (script_result N token x))"
      by (simp add: script_result_def prod_eq_iff)
    then show ?thesis
      using script_to_engine_Some [OF r] script_to_engine_identity(1) [OF r] parse_closure_ready [of N]
      by (auto simp: script_result_def)
  qed (use Ok in \<open>auto simp: prod_eq_iff\<close>)
next
  case (Err e)
  then show ?thesis by (auto simp: script_result_def script_to_engine_def split: prod.splits outcome.splits)
qed (auto simp: prod_eq_iff)

lemma offer_ends:
  assumes "\<forall>m. fst (script_result N (so_next s) (base, script, p)) \<noteq> Panic m"
  shows "\<exists>go s'. offer N (\<lambda>n. True) base script p s = (Ok go, s')"
  using script_result_cases [of N "so_next s" "(base, script, p)"] assms
  by (elim disjE exE conjE) (auto simp: offer_def script_result_def Let_def)

lemma engines_of_tokens:
  "sorted_wrt (<) (map eg_token (engines_of N token xs)) \<and>
    (\<forall>e\<in>set (engines_of N token xs). token \<le> eg_token e \<and> eg_token e < token + length xs)"
proof (induction xs arbitrary: token)
  case (Cons x xs)
  show ?case using Cons [of "Suc token"] script_result_cases [of N token x] by fastforce
qed simp

lemma engines_of_ready: "nushell_ok N \<Longrightarrow> e \<in> set (engines_of N token xs) \<Longrightarrow> engine_ready N e"
proof (induction xs arbitrary: token)
  case (Cons x xs)
  then show ?case using script_result_cases [of N token x] by auto
qed simp

text \<open>Everything offered has arrived: nothing is left to compile, to send, to receive or to store.\<close>

definition settled :: "'st live \<Rightarrow> bool" where
  "settled L \<longleftrightarrow> lv_todo L = [] \<and> lv_ready L = None \<and> sv_queue (lv_server L) = [] \<and> sv_held (lv_server L) = None"

text \<open>The engines of the scripts seen, where they are: installed, held, in the channel, waiting for it.\<close>

lemma live_flow:
  assumes "live_run N token scripts L"
  obtains seen where "scripts = seen @ lv_todo L" "so_log (lv_source L) = reports_of N token seen"
    "engines_of N token seen = sv_installed (lv_server L) @ held_list (lv_server L) @ sv_queue (lv_server L) @
      (case lv_ready L of Some eng \<Rightarrow> [eng] | None \<Rightarrow> [])"
proof -
  obtain seen where seen: "scripts = seen @ lv_todo L" "so_log (lv_source L) = reports_of N token seen"
    and sent: "sv_sent (lv_server L) @ (case lv_ready L of Some eng \<Rightarrow> [eng] | None \<Rightarrow> []) = engines_of N token seen"
    using live_inv_live [OF assms] by (auto simp: live_inv_def)
  have "sv_installed (lv_server L) @ held_list (lv_server L) @ sv_queue (lv_server L) = sv_sent (lv_server L)"
    using serving_invs [OF live_serving [OF assms]] by (simp add: flow_inv_def)
  with sent have "engines_of N token seen = sv_installed (lv_server L) @ held_list (lv_server L) @ sv_queue (lv_server L) @
      (case lv_ready L of Some eng \<Rightarrow> [eng] | None \<Rightarrow> [])" by (metis append.assoc)
  with seen show ?thesis by (rule that)
qed

lemma settled_installed:
  assumes "live_run N token scripts L" "settled L"
  shows "sv_installed (lv_server L) = engines_of N token scripts"
proof -
  obtain seen where "scripts = seen @ lv_todo L"
    "engines_of N token seen = sv_installed (lv_server L) @ held_list (lv_server L) @ sv_queue (lv_server L) @
      (case lv_ready L of Some eng \<Rightarrow> [eng] | None \<Rightarrow> [])"
    using live_flow [OF assms(1)] by metis
  then show ?thesis using assms(2) by (simp add: settled_def held_list_def)
qed

subsection \<open>They arrive\<close>

text \<open>What is left for source and updater to do.\<close>

definition live_work :: "'st live \<Rightarrow> nat" where
  "live_work L = 6 * length (lv_todo L) + (if lv_ready L = None then 0 else 5) + 4 * length (sv_queue (lv_server L)) +
     (if sv_held (lv_server L) = None then 0 else 3) + (if sv_noting (lv_server L) then 2 else 0)"

definition accepting :: "'st live \<Rightarrow> bool" where
  "accepting L \<longleftrightarrow> sv_phase (lv_server L) = Accepting \<and> sv_open (lv_server L)"

definition same_clients :: "'st live \<Rightarrow> 'st live \<Rightarrow> bool" where
  "same_clients L L' \<longleftrightarrow> sv_conns (lv_server L') = sv_conns (lv_server L) \<and> sv_requests (lv_server L') = sv_requests (lv_server L)"

definition scripts_end :: "('st, 'b, 'd, 'k) nushell \<Rightarrow> 'st offered list \<Rightarrow> bool" where
  "scripts_end N scripts \<longleftrightarrow> (\<forall>x\<in>set scripts. \<forall>token m. fst (script_result N token x) \<noteq> Panic m)"

text \<open>
  These are the engines a source sends when the server takes all: any source that keeps the contract of
  \<open>script_source\<close> sends them, the file watcher, standard input and the topics alike.
\<close>

lemma offer_all_engines:
  assumes "scripts_end N os"
  shows "so_sent (snd (offer_all N (\<lambda>n. True) os s)) = so_sent s @ engines_of N (so_next s) os"
  using assms
proof (induction os arbitrary: s)
  case (Cons x os)
  obtain base script p where x: "x = (base, script, p)" by (cases x)
  have "\<forall>m. fst (script_result N (so_next s) (base, script, p)) \<noteq> Panic m"
    using Cons.prems x by (simp add: scripts_end_def)
  then obtain go s' where o: "offer N (\<lambda>n. True) base script p s = (Ok go, s')" using offer_ends by metis
  moreover have "go" using o by (auto simp: offer_def Let_def split: prod.splits outcome.splits option.splits)
  moreover have "scripts_end N os" using Cons.prems by (simp add: scripts_end_def)
  ultimately show ?case using x Cons.IH [of s'] offer_result [OF o] by simp
qed simp

context script_source
begin

lemma sends_engines:
  assumes "scripts_end N (offers inputs)" "\<And>n. accepts n"
  shows "so_sent (snd (run inputs (source_start t))) = engines_of N t (offers inputs)"
proof -
  have "accepts = (\<lambda>n. True)" using assms(2) by auto
  then show ?thesis using offer_all_engines [OF assms(1), of "source_start t"] same(2) by (simp add: source_start_def)
qed

end

lemma work_step:
  "live_step N L K \<Longrightarrow> live_work K < live_work L \<Longrightarrow> accepting K \<Longrightarrow> same_clients L K \<Longrightarrow>
    \<exists>L'. live_step N L L' \<and> live_work L' < live_work L \<and> accepting L' \<and> same_clients L L'"
  by blast

lemma live_work_step:
  assumes "live_run N token scripts L" "accepting L" "scripts_end N scripts" "live_work L \<noteq> 0"
  shows "\<exists>L'. live_step N L L' \<and> live_work L' < live_work L \<and> accepting L' \<and> same_clients L L'"
proof -
  let ?s = "lv_server L"
  have flow: "flow_inv ?s" using serving_invs [OF live_serving [OF assms(1)]] by simp
  obtain seen where seen: "scripts = seen @ lv_todo L" "so_sent (lv_source L) = engines_of N token seen"
    and sent: "sv_sent ?s @ (case lv_ready L of Some eng \<Rightarrow> [eng] | None \<Rightarrow> []) = engines_of N token seen"
    using live_inv_live [OF assms(1)] by (auto simp: live_inv_def)
  have acc: "sv_phase ?s = Accepting" "sv_open ?s" using assms(2) by (simp_all add: accepting_def)
  have cur: "sv_current ?s \<noteq> None" using flow acc(1) by (auto simp: flow_inv_def)
  note own = live_step.server [of L] and defs = live_work_def accepting_def same_clients_def
  consider "sv_noting ?s" | eng where "\<not> sv_noting ?s" "sv_held ?s = Some eng"
    | eng rest where "\<not> sv_noting ?s" "sv_held ?s = None" "sv_queue ?s = eng # rest"
    | eng where "\<not> sv_noting ?s" "sv_held ?s = None" "sv_queue ?s = []" "lv_ready L = Some eng"
    | x os where "\<not> sv_noting ?s" "sv_held ?s = None" "sv_queue ?s = []" "lv_ready L = None" "lv_todo L = x # os"
    using assms(4) by (cases "sv_queue ?s"; cases "lv_todo L"; cases "sv_held ?s"; cases "lv_ready L")
      (auto simp: live_work_def split: if_splits)
  then show ?thesis
  proof cases
    case 1
    have "live_step N L (L\<lparr>lv_server := note_log LogReloaded (?s\<lparr>sv_noting := False\<rparr>)\<rparr>)"
      by (rule own [OF updater_log [OF 1]]) simp_all
    then show ?thesis by (rule work_step) (use 1 acc in \<open>auto simp: defs\<close>)
  next
    case 2
    have "live_step N L (L\<lparr>lv_server := install eng (?s\<lparr>sv_held := None, sv_noting := True\<rparr>)\<rparr>)"
      by (rule own [OF updater_store [OF 2(2)]]) simp_all
    then show ?thesis by (rule work_step) (use 2 acc in \<open>auto simp: defs\<close>)
  next
    case 3
    have "serve_step ?s (cancel_current (?s\<lparr>sv_queue := rest, sv_held := Some eng\<rparr>))"
      using 3 acc cur by (intro updater_cancel) auto
    then have "live_step N L (L\<lparr>lv_server := cancel_current (?s\<lparr>sv_queue := rest, sv_held := Some eng\<rparr>)\<rparr>)"
      by (rule own) simp_all
    then show ?thesis by (rule work_step) (use 3 acc in \<open>auto simp: defs\<close>)
  next
    case 4
    have "\<forall>e\<in>set (sv_sent ?s). eg_token e < eg_token eng"
      using engines_of_tokens [of N token seen] sent [symmetric] 4(4) by (simp add: sorted_wrt_append)
    then have "serve_step ?s (?s\<lparr>sv_queue := sv_queue ?s @ [eng], sv_sent := sv_sent ?s @ [eng]\<rparr>)"
      using 4 acc by (intro source_send) (auto simp: channel_capacity_def)
    from live_step.send [OF 4(4) this]
    have "live_step N L (L\<lparr>lv_ready := None, lv_server := ?s\<lparr>sv_queue := sv_queue ?s @ [eng], sv_sent := sv_sent ?s @ [eng]\<rparr>\<rparr>)"
      by simp
    then show ?thesis by (rule work_step) (use 4 acc in \<open>auto simp: defs\<close>)
  next
    case 5
    obtain base script p where x: "x = (base, script, p)" by (cases x)
    have "\<forall>m. fst (script_result N (so_next (lv_source L)) (base, script, p)) \<noteq> Panic m"
      using assms(3) seen(1) 5(5) x by (simp add: scripts_end_def)
    then obtain go src where o: "offer N (\<lambda>n. True) base script p (lv_source L) = (Ok go, src)"
      using offer_ends by metis
    from live_step.compile [OF 5(5) [unfolded x] 5(4) acc(2) o] show ?thesis
      by (rule work_step) (use 5 acc in \<open>auto simp: defs new_engine_def\<close>)
  qed
qed

lemma live_arrives:
  assumes "live_run N token scripts L" "sv_phase (lv_server L) = Accepting" "sv_open (lv_server L)"
    and "scripts_end N scripts"
  shows "\<exists>L'. (live_step N)\<^sup>*\<^sup>* L L' \<and> settled L' \<and> sv_phase (lv_server L') = Accepting \<and>
    sv_conns (lv_server L') = sv_conns (lv_server L) \<and> sv_requests (lv_server L') = sv_requests (lv_server L) \<and>
    sv_installed (lv_server L') = engines_of N token scripts"
proof -
  have "\<exists>L'. (live_step N)\<^sup>*\<^sup>* L L' \<and> live_work L' = 0 \<and> accepting L' \<and> same_clients L L'"
    using assms(1) assms(2,3) [folded accepting_def]
  proof (induction "live_work L" arbitrary: L rule: less_induct)
    case less
    show ?case
    proof (cases "live_work L = 0")
      case True
      then show ?thesis using less.prems by (auto simp: same_clients_def accepting_def)
    next
      case False
      obtain K where K: "live_step N L K" "live_work K < live_work L" "accepting K" "same_clients L K"
        using live_work_step [OF less.prems(1) _ assms(4) False] less.prems by (auto simp: accepting_def)
      obtain L' where "(live_step N)\<^sup>*\<^sup>* K L'" "live_work L' = 0" "accepting L'" "same_clients K L'"
        using less.hyps [OF K(2) live_run.step [OF less.prems(1) K(1)]] K(3) by (auto simp: accepting_def)
      with K show ?thesis by (auto simp: same_clients_def intro: converse_rtranclp_into_rtranclp)
    qed
  qed
  then obtain L' where L': "(live_step N)\<^sup>*\<^sup>* L L'" "live_work L' = 0" "accepting L'" "same_clients L L'" by blast
  have "live_run N token scripts L'" using L'(1) assms(1) by (induction rule: rtranclp_induct) (auto intro: live_run.step)
  moreover have "settled L'" using L'(2) by (auto simp: settled_def live_work_def split: if_splits)
  ultimately have "sv_installed (lv_server L') = engines_of N token scripts" by (rule settled_installed)
  with L' \<open>settled L'\<close> show ?thesis by (auto simp: accepting_def same_clients_def)
qed

text \<open>A run: of three scripts the first is served, the second and the third, a bad one, are still to come.\<close>

definition demo_scripts :: "nat option list list offered list" where
  "demo_scripts = [(toy_base, ''x'', None), (toy_base, ''x'', None), (toy_base, ''bad'', None)]"

definition demo_live_engine :: "nat \<Rightarrow> nat option list list engine" where
  "demo_live_engine t = \<lparr>eg_state = [[Some 7]], eg_closure = Some \<lparr>cl_block_id = 0, cl_captures = []\<rparr>, eg_bus = 3, eg_token = t\<rparr>"

definition demo_live :: "nat option list list live" where
  "demo_live = \<lparr>lv_todo = tl demo_scripts, lv_ready = None,
     lv_source = \<lparr>so_sent = [demo_live_engine 4], so_log = [], so_err = [], so_next = 5\<rparr>,
     lv_server = \<lparr>sv_phase = Accepting, sv_queue = [], sv_open = True, sv_current = Some (demo_live_engine 4), sv_held = None,
       sv_noting = False, sv_cancelled = {}, sv_conns = {}, sv_requests = Map.empty,
       sv_log = [LogStarted ''http://127.0.0.1:3001''], sv_sent = [demo_live_engine 4], sv_installed = [demo_live_engine 4]\<rparr>\<rparr>"

lemma demo_compiles:
  "script_result toy_nu t (toy_base, ''x'', f) = (Ok (Some (demo_live_engine t)), [])"
  "script_result toy_nu t (toy_base, ''bad'', f) = (Ok None, [''error''])"
  by (simp_all add: script_result_def toy_script_engine demo_live_engine_def)
    (simp add: script_to_engine_def parse_closure_def toy_nu_def toy_base_def Let_def)

lemma demo_scripts_end: "scripts_end toy_nu demo_scripts"
  by (simp add: scripts_end_def demo_scripts_def demo_compiles)

lemma live_demo: "live_run toy_nu 4 demo_scripts demo_live"
proof -
  let ?src = "\<lparr>so_sent = [demo_live_engine 4], so_log = [], so_err = [], so_next = 5\<rparr>"
  let ?s1 = "server_start\<lparr>sv_queue := [demo_live_engine 4], sv_sent := [demo_live_engine 4]\<rparr>"
  let ?s2 = "install (demo_live_engine 4) (?s1\<lparr>sv_queue := [], sv_phase := Binding\<rparr>)"
  let ?L1 = "(live_start 4 demo_scripts)\<lparr>lv_todo := tl demo_scripts, lv_ready := Some (demo_live_engine 4), lv_source := ?src\<rparr>"
  let ?L2 = "?L1\<lparr>lv_ready := None, lv_server := ?s1\<rparr>"
  have step1: "live_step toy_nu (live_start 4 demo_scripts) ?L1"
    using live_step.compile [of "live_start 4 demo_scripts" toy_base "''x''" None "tl demo_scripts" toy_nu True ?src]
    by (simp add: live_start_def demo_scripts_def server_start_def offer_def source_start_def toy_script_engine new_engine_def
        demo_live_engine_def)
  have "serve_step server_start ?s1"
    using source_send [of server_start "demo_live_engine 4"] by (simp add: server_start_def channel_capacity_def)
  then have step2: "live_step toy_nu ?L1 ?L2"
    using live_step.send [of ?L1 "demo_live_engine 4" ?s1 toy_nu] by (simp add: live_start_def server_start_def)
  have "serve_step ?s1 ?s2"
    using first_engine [of ?s1 "demo_live_engine 4" "[]"] by (simp add: server_start_def)
  then have step3: "live_step toy_nu ?L2 (?L2\<lparr>lv_server := ?s2\<rparr>)"
    using live_step.server [of ?L2 ?s2 toy_nu] by (simp add: server_start_def)
  have "serve_step ?s2 (lv_server demo_live)"
    using bind_ok [of ?s2 "''http://127.0.0.1:3001''"]
    by (simp add: server_start_def demo_live_def install_def note_log_def)
  then have step4: "live_step toy_nu (?L2\<lparr>lv_server := ?s2\<rparr>) demo_live"
    using live_step.server [of "?L2\<lparr>lv_server := ?s2\<rparr>" "lv_server demo_live" toy_nu]
    by (simp add: server_start_def demo_live_def install_def live_start_def)
  show ?thesis
    by (rule live_run.step [OF live_run.step [OF live_run.step [OF live_run.step [OF live_run.start step1] step2] step3] step4])
qed

text \<open>
  C21. The server serves the source's scripts, in order, and only those that compile: what was installed is
  at any time an initial part of their engines, the current engine is the last one installed and is
  ready for requests, every rejected script is reported. When all have arrived, the last script that
  compiles is the one served, whatever was rejected after it.
\<close>

theorem live_scripts:
  assumes "nushell_ok N" "live_run N token scripts L"
  shows "\<exists>seen. scripts = seen @ lv_todo L \<and> so_log (lv_source L) = reports_of N token seen \<and>
    (\<exists>n. sv_installed (lv_server L) = take n (engines_of N token seen)) \<and>
    sv_current (lv_server L) =
      (if sv_installed (lv_server L) = [] then None else Some (last (sv_installed (lv_server L)))) \<and>
    (\<forall>eng. sv_current (lv_server L) = Some eng \<longrightarrow> engine_ready N eng) \<and>
    (settled L \<longrightarrow> sv_installed (lv_server L) = engines_of N token scripts)"
proof -
  obtain seen where seen: "scripts = seen @ lv_todo L" "so_log (lv_source L) = reports_of N token seen"
    and all: "engines_of N token seen = sv_installed (lv_server L) @ held_list (lv_server L) @ sv_queue (lv_server L) @
      (case lv_ready L of Some eng \<Rightarrow> [eng] | None \<Rightarrow> [])"
    using live_flow [OF assms(2)] by metis
  have cur: "sv_current (lv_server L) =
      (if sv_installed (lv_server L) = [] then None else Some (last (sv_installed (lv_server L))))"
    using serving_invs [OF live_serving [OF assms(2)]] by (simp add: flow_inv_def)
  have "sv_installed (lv_server L) = take (length (sv_installed (lv_server L))) (engines_of N token seen)"
    using all by simp
  moreover have "engine_ready N eng" if "sv_current (lv_server L) = Some eng" for eng
  proof -
    have "eng \<in> set (engines_of N token seen)" using that cur all by (auto split: if_splits)
    then show ?thesis by (rule engines_of_ready [OF assms(1)])
  qed
  ultimately show ?thesis using seen cur settled_installed [OF assms(2)] by blast
qed

theorem live_scripts_witness:
  "\<exists>L. live_run toy_nu 4 demo_scripts L \<and> settled L \<and> so_log (lv_source L) = [''error''] \<and>
    sv_current (lv_server L) = Some (demo_live_engine 5) \<and> engine_ready toy_nu (demo_live_engine 5)"
proof -
  have "sv_phase (lv_server demo_live) = Accepting" "sv_open (lv_server demo_live)" by (simp_all add: demo_live_def)
  from live_arrives [OF live_demo this demo_scripts_end] obtain L where
    L: "(live_step toy_nu)\<^sup>*\<^sup>* demo_live L" "settled L" by blast
  have run: "live_run toy_nu 4 demo_scripts L" using L(1) live_demo by (induction rule: rtranclp_induct) (auto intro: live_run.step)
  have "lv_todo L = []" "engines_of toy_nu 4 demo_scripts = [demo_live_engine 4, demo_live_engine 5]"
    "reports_of toy_nu 4 demo_scripts = [''error'']"
    using L(2) by (simp_all add: settled_def demo_scripts_def demo_compiles)
  with live_scripts [OF toy_nu_ok run] L(2) run show ?thesis by auto
qed

text \<open>
  C32. A script that compiles does get served: while the server accepts and the source lives, source and
  updater can always bring every script to its end by their own steps, whatever the clients do or
  leave undone, and no connection or request is touched by it; what is installed then is what a source that
  offers these scripts sends to a server that takes all (\<open>watch_loop\<close>, \<open>stdin_loop\<close> and \<open>topic_watcher\<close>
  do, by the contract of \<open>script_source\<close>).
\<close>

theorem live_scripts_arrive:
  assumes "live_run N token scripts L" "sv_phase (lv_server L) = Accepting" "sv_open (lv_server L)"
    and "scripts_end N scripts"
  shows "\<exists>L'. (live_step N)\<^sup>*\<^sup>* L L' \<and> settled L' \<and> sv_phase (lv_server L') = Accepting \<and>
    sv_conns (lv_server L') = sv_conns (lv_server L) \<and> sv_requests (lv_server L') = sv_requests (lv_server L) \<and>
    sv_installed (lv_server L') = so_sent (snd (offer_all N (\<lambda>n. True) scripts (source_start token)))"
  using live_arrives [OF assms] offer_all_engines [OF assms(4), of "source_start token"] by (simp add: source_start_def)

theorem live_scripts_arrive_witness:
  "\<exists>L'. (live_step toy_nu)\<^sup>*\<^sup>* demo_live L' \<and> sv_phase (lv_server L') = Accepting \<and>
    sv_installed (lv_server L') = [demo_live_engine 4, demo_live_engine 5]"
proof -
  have "sv_phase (lv_server demo_live) = Accepting" "sv_open (lv_server demo_live)" by (simp_all add: demo_live_def)
  moreover have "so_sent (snd (offer_all toy_nu (\<lambda>n. True) demo_scripts (source_start 4))) = [demo_live_engine 4, demo_live_engine 5]"
    by (subst offer_all_engines [OF demo_scripts_end]) (simp add: source_start_def demo_scripts_def demo_compiles)
  ultimately show ?thesis using live_scripts_arrive [OF live_demo _ _ demo_scripts_end] by auto
qed

end
