(* ===== verification/Bus_Stream.thy ===== *)
theory Bus_Stream
  imports Bus End_To_End
begin

text \<open>
  From the bus to the browser: a script answers with \<open>.bus sub\<close>, one record made of each message,
  and \<open>to sse\<close>, while other requests publish. What the client reads follows from the subscription's
  guarantee (\<open>Bus\<close>) and the way of an event stream (\<open>End_To_End\<close>).
\<close>

section \<open>The script\<close>




section \<open>Properties\<close>





end
