(* ===== verification/Build.thy ===== *)
theory Build
  imports Markdown Logging
begin

text \<open>
  The build script (\<open>build.rs\<close>) and what the program takes over from it: the syntaxes the highlighter
  knows and the versions the log shows. The syntax library, cargo's metadata and the file system are
  arguments.
\<close>

section \<open>The script\<close>

text \<open>
  \<open>bs_add_folder\<close> adds the syntaxes of a folder to a set under construction; \<open>bs_dump\<close> is the file's
  content for a set, \<open>bs_save\<close> writes it; \<open>bs_metadata\<close> is the name and version of every package cargo
  resolved, if it could be asked.
\<close>

record ('set, 'builder) build_env =
  bs_out_dir :: "string option"
  bs_defaults :: 'set
  bs_into_builder :: "'set \<Rightarrow> 'builder"
  bs_has_folder :: "string \<Rightarrow> bool"
  bs_add_folder :: "string \<Rightarrow> 'builder \<Rightarrow> string + 'builder"
  bs_build :: "'builder \<Rightarrow> 'set"
  bs_dump :: "'set \<Rightarrow> bytes"
  bs_save :: "string \<Rightarrow> bool"
  bs_metadata :: "(string \<times> string) list option"

definition build_syntaxes :: "('set, 'builder) build_env \<Rightarrow> (string, 'set) outcome" where
  "build_syntaxes B =
     (let builder = bs_into_builder B (bs_defaults B) in
      if bs_has_folder B ''syntaxes'' then
        (case bs_add_folder B ''syntaxes'' builder of
           Inr b \<Rightarrow> Ok (bs_build B b)
         | Inl e \<Rightarrow> Panic ''Failed to load syntaxes from folder'')
      else Ok (bs_build B builder))"

definition version_lines :: "string \<times> string \<Rightarrow> string list" where
  "version_lines pkg =
     (if fst pkg = ''nu-protocol'' then [''cargo:rustc-env=NU_VERSION='' @ snd pkg]
      else if fst pkg = ''cross-stream'' then [''cargo:rustc-env=XS_VERSION='' @ snd pkg]
      else [])"

text \<open>The file it writes, with its path, and the lines it prints for cargo.\<close>

definition build_main :: "('set, 'builder) build_env \<Rightarrow> (string, (string \<times> bytes) \<times> string list) outcome" where
  "build_main B =
     obind (unwrap ''OUT_DIR'' (bs_out_dir B)) (\<lambda>out_dir.
     let dest_path = out_dir @ ''/syntax_set.bin'' in
     obind (build_syntaxes B) (\<lambda>syntax_set.
     if bs_save B dest_path then
       Ok ((dest_path, bs_dump B syntax_set),
         ''cargo:rerun-if-changed=syntaxes/'' #
           (case bs_metadata B of Some packages \<Rightarrow> concat (map version_lines packages) | None \<Rightarrow> []))
     else Panic ''Failed to save SyntaxSet''))"

section \<open>What the program sees\<close>

text \<open>\<open>SyntaxHighlighter::new\<close> reads the set back from the bytes.\<close>

definition highlighter_new :: "(bytes \<Rightarrow> 'set) \<Rightarrow> bytes \<Rightarrow> 'set" where
  "highlighter_new from_binary syntax_set_bin = from_binary syntax_set_bin"

text \<open>\<open>env!\<close>: the value of the last line that sets the variable; without one the program does not compile.\<close>

definition set_by :: "string \<Rightarrow> string \<Rightarrow> string option" where
  "set_by name line = strip_prefix line (''cargo:rustc-env='' @ name @ ''='')"

definition build_env_var :: "string \<Rightarrow> string list \<Rightarrow> string option" where
  "build_env_var name lines = (case List.map_filter (set_by name) lines of [] \<Rightarrow> None | vs \<Rightarrow> Some (last vs))"

section \<open>Laws\<close>

lemma set_by_version:
  "set_by ''NU_VERSION'' (''cargo:rustc-env=NU_VERSION='' @ v) = Some v"
  "set_by ''XS_VERSION'' (''cargo:rustc-env=XS_VERSION='' @ v) = Some v"
  "set_by ''NU_VERSION'' (''cargo:rustc-env=XS_VERSION='' @ v) = None"
  "set_by ''XS_VERSION'' (''cargo:rustc-env=NU_VERSION='' @ v) = None"
  "set_by n ''cargo:rerun-if-changed=syntaxes/'' = None"
  by (auto simp: set_by_def strip_prefix_Some_iff strip_prefix_None_iff)

lemma version_lines_set:
  "List.map_filter (set_by ''NU_VERSION'') (version_lines p) = (if fst p = ''nu-protocol'' then [snd p] else [])"
  "List.map_filter (set_by ''XS_VERSION'') (version_lines p) = (if fst p = ''cross-stream'' then [snd p] else [])"
  by (simp_all add: version_lines_def List.map_filter_def set_by_version del: append_Cons)

lemma map_filter_append: "List.map_filter f (xs @ ys) = List.map_filter f xs @ List.map_filter f ys"
  by (simp add: List.map_filter_def)

lemma versions_of_packages:
  "List.map_filter (set_by ''NU_VERSION'') (concat (map version_lines ps)) = map snd (filter (\<lambda>p. fst p = ''nu-protocol'') ps)"
  "List.map_filter (set_by ''XS_VERSION'') (concat (map version_lines ps)) = map snd (filter (\<lambda>p. fst p = ''cross-stream'') ps)"
  by (induction ps) (simp_all add: map_filter_append version_lines_set List.map_filter_simps)

text \<open>The versions of the packages of a name among those resolved, in cargo's order.\<close>

definition versions_of :: "string \<Rightarrow> (string \<times> string) list option \<Rightarrow> string list" where
  "versions_of name md = (case md of Some ps \<Rightarrow> map snd (filter (\<lambda>p. fst p = name) ps) | None \<Rightarrow> [])"

text \<open>
  What the build hands over: the highlighter reads back the set that was built, if the format of the
  file loses nothing, and the log shows the version of nushell and of the store cargo resolved (the last
  of several); the program compiles only if cargo could be asked and found both.
\<close>

lemma build_hands_over:
  assumes "build_main B = Ok ((dest, bin), lines)" "\<And>set. from_binary (bs_dump B set) = set"
  shows "build_syntaxes B = Ok (highlighter_new from_binary bin) \<and>
    build_env_var ''NU_VERSION'' lines =
      (case versions_of ''nu-protocol'' (bs_metadata B) of [] \<Rightarrow> None | vs \<Rightarrow> Some (last vs)) \<and>
    build_env_var ''XS_VERSION'' lines =
      (case versions_of ''cross-stream'' (bs_metadata B) of [] \<Rightarrow> None | vs \<Rightarrow> Some (last vs))"
proof -
  obtain set where set: "build_syntaxes B = Ok set" "bin = bs_dump B set"
    and lines: "lines = ''cargo:rerun-if-changed=syntaxes/'' #
      (case bs_metadata B of Some packages \<Rightarrow> concat (map version_lines packages) | None \<Rightarrow> [])"
    using assms(1) by (auto simp: build_main_def outcome_simps Let_def split: if_splits)
  have "List.map_filter (set_by ''NU_VERSION'') lines = versions_of ''nu-protocol'' (bs_metadata B)"
    "List.map_filter (set_by ''XS_VERSION'') lines = versions_of ''cross-stream'' (bs_metadata B)"
    by (simp_all add: lines versions_of_def List.map_filter_simps(1) set_by_version versions_of_packages List.map_filter_simps(2)
        split: option.split)
  with set assms(2) show ?thesis by (simp add: highlighter_new_def build_env_var_def)
qed

end
