(* ===== verification/Spec2Isabelle.thy ===== *)
theory Spec2Isabelle
  imports Commands Human_Log Startup Request_Log Live Bus_Stream Build
begin

text \<open>
  A model of http-nu, an HTTP server whose requests are answered by a closure written in nushell
  (\<open>src/src/\<close>, Rust), and the properties that make its parts correct.

  \<^bold>\<open>How the program works.\<close> \<open>main.rs\<close> reads the command line, builds a base engine and starts a source of
  scripts: a file, perhaps watched, standard input, the command line, or a topic of a store
  (\<open>store.rs\<close>). A source turns a script into an engine with one closure (\<open>engine.rs\<close>) and sends it
  to \<open>serve\<close>, which keeps the current engine in a shared cell, accepts connections from a listener
  (\<open>listener.rs\<close>) and hands each request to \<open>handler.rs\<close>. The handler works out the client's address
  (\<open>request.rs\<close>), runs the closure in a thread of its own (\<open>worker.rs\<close>), and builds the reply from
  what the thread sends back: metadata and a body or a stream (\<open>response.rs\<close>), or a special answer
  one of the commands left in a slot (static files, a reverse proxy). Streams pass through a
  compressor (\<open>compression.rs\<close>) and a body that counts what is sent; events of every request go to a
  log, as JSON lines or as a live display (\<open>logging.rs\<close>). The commands scripts call (\<open>commands.rs\<close>,
  \<open>bus.rs\<close>) render server-sent events, templates and Markdown and pass messages between requests.

  \<^bold>\<open>Theories.\<close> Each models the file it names and ends with its laws and properties.

    \<^item> \<open>Prelude\<close>: outcomes (a result, an error or a panic, kept apart), the operations of Rust
      strings, hash maps as association lists, UTF-8. \<open>Nu_Value\<close>: nushell values, JSON, pipeline data.
      \<open>Header_Map\<close>: header maps, as a library with laws. \<open>Broadcast\<close>: tokio's broadcast channel, as
      the operations the bus and the log call and the laws its documentation gives; what a
      receiver gets of the values sent while senders and receivers act in any order.
    \<^item> \<open>Bus\<close> (\<open>bus.rs\<close>, the bus commands): glob patterns and their declarative meaning; publishing
      and subscribing over the channel; what a subscription forwards, up to an overflow.
    \<^item> \<open>Request\<close> (\<open>request.rs\<close>): IP addresses, the trusted client address, the record of a request.
    \<^item> \<open>Response\<close>, \<open>Special_Response\<close> (\<open>response.rs\<close>, the commands \<open>.static\<close> and \<open>.reverse-proxy\<close>):
      conversion of values, header tables, the one-shot slot.
    \<^item> \<open>Worker\<close> (\<open>worker.rs\<close>): the evaluation thread, content types, streaming, errors.
    \<^item> \<open>Streams\<close>, \<open>Compression\<close>, \<open>Normal_Response\<close>, \<open>Handler\<close> (\<open>handler.rs\<close>, \<open>compression.rs\<close>, the guard
      of \<open>logging.rs\<close>): from a request to its reply, with the log entries on the way.
    \<^item> \<open>Rate_Limit\<close>, \<open>Logging\<close>, \<open>Active_Zone\<close>, \<open>Human_Log\<close> (\<open>logging.rs\<close>): the token bucket, JSON lines
      from the emitted events over the channel to what is flushed, the terminal's live zone as cursor
      operations and the screen they produce.
    \<^item> \<open>Sse\<close>, \<open>Templates\<close>, \<open>Markdown\<close> (\<open>commands.rs\<close>), \<open>Topic_Store\<close> (reading text from the store):
      events as a client reads them back; the template cache, whose handles last and render as the
      direct command does; the map over Markdown's events.
    \<^item> \<open>Engine\<close> (\<open>engine.rs\<close>, \<open>print\<close>, \<open>.run\<close>): scripts to engines, running and evaluating.
    \<^item> \<open>Commands\<close> (\<open>commands.rs\<close>, \<open>add_custom_commands\<close>): the fourteen commands as nushell sees them.
      Their names, descriptions, help and signatures (and that the examples of the help hold); the arguments each \<open>run\<close> reads from the call; each
      command as a step on the state they share (slot, template cache, bus, log). A command's
      arguments and outputs agree with its signature, commands do not interfere, and the first one
      that responds wins.
    \<^item> \<open>Sources\<close> (\<open>main.rs\<close>, \<open>store.rs\<close>): the sources of scripts.
    \<^item> \<open>Listener\<close> (\<open>listener.rs\<close>): binding, accepting, the address shown.
    \<^item> \<open>Serve\<close> (\<open>main.rs\<close>): serving, reloading, shutting down, as a step relation: which streams a
      reload and the shutdown cancel, how the drain ends, and what a reload that meets it does.
    \<^item> \<open>Live\<close>: a source and the server together, the source compiling and waiting for room in the channel
      while the server goes on; which script is served, and that every script arrives.
    \<^item> \<open>Stdlib\<close> (\<open>stdlib/mod.rs\<close>, \<open>Engine::new\<close>): the embedded modules as virtual files, the new engine.
    \<^item> \<open>Startup\<close> (\<open>main.rs\<close>): arguments, opening the store, the base engine, the choice of the source,
      \<open>eval\<close>, interruption.
    \<^item> \<open>Build\<close> (\<open>build.rs\<close>): the syntax set and the versions handed to the program.
    \<^item> \<open>End_To_End\<close>: what holds across parts. An event stream from the script's records through the
      evaluation thread, the handler and the compressor to what a client reads; what a reload makes of
      the streams under way; the log a stopped server leaves on standard output.
    \<^item> \<open>Bus_Stream\<close>: a message from the bus through a subscription, the script and \<open>to sse\<close> to the client.
    \<^item> \<open>Request_Log\<close>: a request in the log, from the events of its handling and of its body's guard, among
      those of other requests over the channel, to the lines on standard output.

  \<^bold>\<open>How state and effects are modelled.\<close> A function that changes state takes and returns it; what
  happens to a channel, a log or a terminal is a list. Concurrent parts are a sequence of
  what a call delivers (the streams, file events), the operations of a channel in any order (the bus,
  the log), or, for \<open>serve\<close>, a relation whose rules are the actions between which another task may run. Integers that wrap are words; floating
  point in the rate limiter is exact arithmetic under an arbitrary monotone rounding. A loop is a
  recursion; the one that polls the compressor to its end has fuel, and any fuel above the number of
  the source's polls plus one is enough. The encoder's loop has no bound of its own: it is a partial
  function, proved to end when every single call of the crate's encoder keeps the contract
  \<open>brotli_crate\<close>. A single poll is bounded by the program's own budget of 32 chunks.
  The live display moves the cursor by a 16-bit count, so its theorem is about runs of fewer than
  65535 events; the screen it is about is ideal: no line wraps, and the zone fits on it.

  \<^bold>\<open>Interfaces.\<close> Locales state what one part relies on in another, and are interpreted on the model's
  own definitions: the broadcast channel (interpreted on one that keeps its history, as the channel itself
  is tokio's), a call of a command as nushell hands it over (interpreted on calls as a list of
  positional values and flags), a topic filter (the compiled patterns of the bus), the header map
  operations, a rate limiter (the token bucket), the live zone (its screen operations), the compiled-template
  cache (handles last), and a source of scripts (interpreted for the file watcher, for standard input
  and for topics).

  \<^bold>\<open>What is outside.\<close> Nushell, hyper and http, tokio, brotli, minijinja, pulldown\_cmark, syntect,
  rustls, clap and the cross.stream store are arguments of the definitions that use them. Where a
  property needs a law of theirs it is a hypothesis or a predicate in its statement
  (\<open>brotli_crate\<close>: of single calls of \<open>compress_stream\<close> in an allowed order, that they succeed and
  make progress, that what a complete flush has put out decodes to what was taken, and that what a
  complete finish has put out decompresses to it; \<open>markup_free\<close> of what the escaping crate gives;
  \<open>nushell_ok\<close>: merging an environment keeps the blocks, and required parameters have variables;
  \<open>decls_law\<close>: a name finds the last command added under it;
  \<open>empty_loader_law\<close>: a template loader that finds nothing is as none), with a witness where it holds.
  Adding a template to an environment returns an error or succeeds; it is taken not to panic, as it
  runs under the write lock of the template cache. The file system a socket is bound in is a map from
  directory entries; which entry a path names is an argument.

  \<^bold>\<open>Not modelled.\<close> What the store's server and processors do once they are spawned; the Windows
  wrappers of sockets, which only forward; when a signal comes (an interruption is a step of \<open>Serve\<close> that may happen at any time); timing, other
  than the order of events. These are calls into other crates, or data for them, with no logic of the
  program's own.

  \<^bold>\<open>Security and robustness.\<close> The properties are numbered in the order of their importance. The first
  are those a client or a script could attack: forged addresses, the proxy's authority, header
  tables, Markdown, and the streams that must arrive whole or fail visibly.
\<close>

end
